(* ===== verification/Prelude.thy ===== *)
theory Prelude
  imports Main "HOL-Library.Word" "HOL-Library.Sublist"
begin

text \<open>
  The shared base of the development: Rust's \<open>Result\<close> as a datatype, the names of the machine
  types, the collections of simplification rules the component theories fill, and the generic
  lemmas on lists that several components use.

  Conventions. A Rust \<open>u8\<close> buffer and a Rust \<open>String\<close> (which is its UTF-8 bytes) are both lists of
  HOL characters, since a HOL \<open>char\<close> is exactly one byte. A \<open>chrono::DateTime<Utc>\<close> is its distance
  from the epoch in nanoseconds and a \<open>chrono::Duration\<close> a signed number of nanoseconds, both
  \<open>int\<close>; a \<open>std::time::Duration\<close> is a natural number of nanoseconds. Fallible code with effects
  returns a pair of a result and the new state, so that the state a failing call leaves behind is
  part of the model.
\<close>

named_theorems store_simps \<open>functional equations of the stores and their operations\<close>
named_theorems sys_simps \<open>unfolding of the file system calls\<close>
named_theorems rt_simps \<open>unfolding of the runtime's helper steps\<close>

type_synonym bytes = "char list"
type_synonym timestamp = int
type_synonym chrono_duration = int
type_synonym std_duration = nat
type_synonym u32 = "32 word"

datatype ('a, 'e) result = Ok 'a | Err 'e

primrec is_ok :: "('a, 'e) result \<Rightarrow> bool" where
  "is_ok (Ok _) = True"
| "is_ok (Err _) = False"

primrec map_err :: "('e \<Rightarrow> 'f) \<Rightarrow> ('a, 'e) result \<Rightarrow> ('a, 'f) result" where
  "map_err f (Ok a) = Ok a"
| "map_err f (Err e) = Err (f e)"

text \<open>The \<open>?\<close> operator over a result paired with a state: go on from \<open>Ok\<close>, return on \<open>Err\<close>.\<close>

definition and_then ::
  "('a, 'e) result \<times> 's \<Rightarrow> ('a \<Rightarrow> 's \<Rightarrow> ('b, 'e) result \<times> 's) \<Rightarrow> ('b, 'e) result \<times> 's" where
  "and_then m k = (case m of (Ok a, s) \<Rightarrow> k a s | (Err e, s) \<Rightarrow> (Err e, s))"

subsection \<open>Lemmas\<close>

lemma not_is_ok [simp]: "(\<not> is_ok r) \<longleftrightarrow> (\<exists>e. r = Err e)"
  by (cases r) auto

lemma is_ok_iff: "is_ok r \<longleftrightarrow> (\<exists>a. r = Ok a)"
  by (cases r) auto

lemma map_err_simps [simp]:
  "map_err f r = Ok a \<longleftrightarrow> r = Ok a"
  "map_err f r = Err x \<longleftrightarrow> (\<exists>e. r = Err e \<and> x = f e)"
  "Ok a = map_err f r \<longleftrightarrow> r = Ok a"
  "Err x = map_err f r \<longleftrightarrow> (\<exists>e. r = Err e \<and> x = f e)"
  by (cases r; auto)+

lemma and_then_Ok [simp]: "and_then (Ok a, s) k = k a s"
  and and_then_Err [simp]: "and_then (Err e, s) k = (Err e, s)"
  by (simp_all add: and_then_def)

lemma and_then_eq_Ok:
  "and_then m k = (Ok b, t) \<longleftrightarrow> (\<exists>a s. m = (Ok a, s) \<and> k a s = (Ok b, t))"
  by (auto simp: and_then_def split: prod.splits result.splits)

lemma and_then_eq_Err:
  "and_then m k = (Err e, t) \<longleftrightarrow>
     m = (Err e, t) \<or> (\<exists>a s. m = (Ok a, s) \<and> k a s = (Err e, t))"
  by (auto simp: and_then_def split: prod.splits result.splits)

lemma apfst_eq_iff: "apfst f m = (x, s) \<longleftrightarrow> (\<exists>y. m = (y, s) \<and> x = f y)"
  by (cases m) auto

lemma find_append:
  "List.find P (xs @ ys) = (case List.find P xs of None \<Rightarrow> List.find P ys | Some x \<Rightarrow> Some x)"
  by (induction xs) auto

lemma find_SomeD: "List.find P xs = Some x \<Longrightarrow> x \<in> set xs \<and> P x"
  by (induction xs) (auto split: if_splits)

lemma find_None_iff_all: "List.find P xs = None \<longleftrightarrow> (\<forall>x \<in> set xs. \<not> P x)"
  by (auto simp: find_None_iff)

lemma suffix_imp_subseq_filter: "suffix xs (filter P ys) \<Longrightarrow> subseq xs ys"
  by (meson subseq_filter_left suffix_imp_subseq subseq_order.order_trans)

lemma subseq_length_diff: "subseq xs ys \<Longrightarrow> length xs \<le> length ys"
  by (rule list_emb_length)

lemma subseq_same_length_eq: "subseq xs ys \<Longrightarrow> length xs = length ys \<Longrightarrow> xs = ys"
  by (rule subseq_same_length)

lemma subseq_set: "subseq xs ys \<Longrightarrow> set xs \<subseteq> set ys"
  by (induction rule: list_emb.induct) auto

lemma sorted_list_of_set_subset: "set (sorted_list_of_set A) \<subseteq> A"
  by (cases "finite A") auto

end
