(* ===== verification/Rust_Std.thy ===== *)
theory Rust_Std
  imports Prelude
begin

text \<open>
  What the crates use of the Rust standard library: UTF-8 validation, \<open>str::lines\<close>,
  \<open>str::trim\<close>, \<open>strip_prefix\<close>, integer parsing, the \<open>Debug\<close> form of a string, checked and
  saturating arithmetic, and the two path operations of the compaction code.
\<close>

subsection \<open>Bytes and UTF-8\<close>

abbreviation byte_val :: "char \<Rightarrow> nat" where
  "byte_val c \<equiv> of_char c"

abbreviation newline :: char where
  "newline \<equiv> CHR 0x0A"

abbreviation carriage_return :: char where
  "carriage_return \<equiv> CHR 0x0D"

definition byte_in :: "nat \<Rightarrow> nat \<Rightarrow> char \<Rightarrow> bool" where
  "byte_in lo hi c \<longleftrightarrow> lo \<le> byte_val c \<and> byte_val c \<le> hi"

text \<open>\<open>std::str::from_utf8\<close> accepts exactly the well-formed sequences of the Unicode standard's
  table 3-7.\<close>

fun from_utf8 :: "bytes \<Rightarrow> bool" where
  "from_utf8 [] = True"
| "from_utf8 (a # r) =
     (if byte_val a < 128 then from_utf8 r
      else if byte_in 0xC2 0xDF a then
        (case r of b # r1 \<Rightarrow> byte_in 0x80 0xBF b \<and> from_utf8 r1 | [] \<Rightarrow> False)
      else if byte_in 0xE0 0xEF a then
        (case r of
           b # c # r2 \<Rightarrow>
             byte_in (if byte_val a = 0xE0 then 0xA0 else 0x80)
                     (if byte_val a = 0xED then 0x9F else 0xBF) b
             \<and> byte_in 0x80 0xBF c \<and> from_utf8 r2
         | _ \<Rightarrow> False)
      else if byte_in 0xF0 0xF4 a then
        (case r of
           b # c # d # r3 \<Rightarrow>
             byte_in (if byte_val a = 0xF0 then 0x90 else 0x80)
                     (if byte_val a = 0xF4 then 0x8F else 0xBF) b
             \<and> byte_in 0x80 0xBF c \<and> byte_in 0x80 0xBF d \<and> from_utf8 r3
         | _ \<Rightarrow> False)
      else False)"

text \<open>Where validation stops: the length of the longest valid prefix, and how many bytes are wrong, or nothing when
  the input ends inside a sequence. \<open>bad_cont\<close> reads the bytes \<open>k\<close> to \<open>n - 1\<close> of a sequence of \<open>n\<close> bytes.\<close>

definition utf8_char_width :: "char \<Rightarrow> nat" where
  "utf8_char_width a =
     (if byte_val a < 128 then 1 else if byte_in 0xC2 0xDF a then 2 else if byte_in 0xE0 0xEF a then 3
      else if byte_in 0xF0 0xF4 a then 4 else 0)"

definition second_ok :: "char \<Rightarrow> char \<Rightarrow> bool" where
  "second_ok a b = byte_in
     (if byte_val a = 0xE0 then 0xA0 else if byte_val a = 0xF0 then 0x90 else 0x80)
     (if byte_val a = 0xED then 0x9F else if byte_val a = 0xF4 then 0x8F else 0xBF) b"

fun bad_cont :: "char \<Rightarrow> nat \<Rightarrow> nat \<Rightarrow> bytes \<Rightarrow> nat option option" where
  "bad_cont a k n r =
     (if n \<le> k then None
      else case r of
             [] \<Rightarrow> Some None
           | b # r' \<Rightarrow>
               if (if k = 1 then second_ok a b else byte_in 0x80 0xBF b) then bad_cont a (Suc k) n r'
               else Some (Some k))"

declare bad_cont.simps [simp del]

function utf8_error :: "nat \<Rightarrow> bytes \<Rightarrow> (nat \<times> nat option) option" where
  "utf8_error i [] = None"
| "utf8_error i (a # r) =
     (case (if utf8_char_width a = 0 then Some (Some 1) else bad_cont a 1 (utf8_char_width a) r) of
        Some len \<Rightarrow> Some (i, len)
      | None \<Rightarrow> utf8_error (i + utf8_char_width a) (drop (utf8_char_width a - 1) r))"
  by pat_completeness auto
termination
  by (relation "measure (\<lambda>(i, b). length b)") auto

subsection \<open>Lines and white space\<close>

text \<open>\<open>str::lines\<close>: split after each line feed, drop the line feed and one carriage return before
  it; a last line without a line feed is kept as it is, and an empty last piece is no line.\<close>

definition strip_cr :: "string \<Rightarrow> string" where
  "strip_cr l = (if l \<noteq> [] \<and> last l = carriage_return then butlast l else l)"

fun lines_from :: "string \<Rightarrow> string \<Rightarrow> string list" where
  "lines_from acc [] = (if acc = [] then [] else [acc])"
| "lines_from acc (c # cs) =
     (if c = newline then strip_cr acc # lines_from [] cs else lines_from (acc @ [c]) cs)"

definition str_lines :: "string \<Rightarrow> string list" where
  "str_lines s = lines_from [] s"

text \<open>The length in bytes of the white space character (Unicode \<open>White_Space\<close>) a string starts
  with, 0 if it starts with none.\<close>

definition ws_len :: "string \<Rightarrow> nat" where
  "ws_len s = (case map byte_val s of
     [] \<Rightarrow> 0
   | a # r \<Rightarrow>
     if 9 \<le> a \<and> a \<le> 13 \<or> a = 32 then 1
     else if a = 0xC2 then (case r of b # _ \<Rightarrow> if b = 0x85 \<or> b = 0xA0 then 2 else 0 | _ \<Rightarrow> 0)
     else (case r of b # c # _ \<Rightarrow>
         if a = 0xE1 \<and> b = 0x9A \<and> c = 0x80
            \<or> a = 0xE2 \<and> b = 0x80 \<and> (0x80 \<le> c \<and> c \<le> 0x8A \<or> c = 0xA8 \<or> c = 0xA9 \<or> c = 0xAF)
            \<or> a = 0xE2 \<and> b = 0x81 \<and> c = 0x9F
            \<or> a = 0xE3 \<and> b = 0x80 \<and> c = 0x80 then 3 else 0
       | _ \<Rightarrow> 0))"

function trim_start :: "string \<Rightarrow> string" where
  "trim_start s = (if s = [] \<or> ws_len s = 0 then s else trim_start (drop (ws_len s) s))"
  by pat_completeness auto
termination
  by (relation "measure length") auto

declare trim_start.simps [simp del]

fun trim_end :: "string \<Rightarrow> string" where
  "trim_end [] = []"
| "trim_end (c # cs) = (if trim_start (c # cs) = [] then [] else c # trim_end cs)"

definition str_trim :: "string \<Rightarrow> string" where
  "str_trim s = trim_end (trim_start s)"

definition strip_prefix :: "string \<Rightarrow> string \<Rightarrow> string option" where
  "strip_prefix p s = (if prefix p s then Some (drop (length p) s) else None)"

definition to_ascii_lowercase :: "string \<Rightarrow> string" where
  "to_ascii_lowercase s =
     map (\<lambda>c. if byte_in 65 90 c then char_of (byte_val c + 32) else c) s"

subsection \<open>Integers\<close>

definition digit_val :: "char \<Rightarrow> nat option" where
  "digit_val c = (if byte_in 48 57 c then Some (byte_val c - 48) else None)"

fun digits_val :: "nat \<Rightarrow> string \<Rightarrow> nat option" where
  "digits_val acc [] = Some acc"
| "digits_val acc (c # cs) =
     (case digit_val c of None \<Rightarrow> None | Some d \<Rightarrow> digits_val (10 * acc + d) cs)"

text \<open>\<open>parse::<uN>\<close>: one optional \<open>+\<close>, then at least one digit, and the value fits the width.\<close>

definition parse_unsigned :: "nat \<Rightarrow> string \<Rightarrow> nat option" where
  "parse_unsigned bits s =
     (let ds = (case s of c # cs \<Rightarrow> if c = CHR ''+'' then cs else s | [] \<Rightarrow> [])
      in if ds = [] then None
         else (case digits_val 0 ds of
                 None \<Rightarrow> None
               | Some n \<Rightarrow> if n < 2 ^ bits then Some n else None))"

text \<open>\<open>parse::<i64>\<close>: one optional sign, then at least one digit, and the value fits.\<close>

definition parse_i64 :: "string \<Rightarrow> int option" where
  "parse_i64 s =
     (let neg = (case s of c # _ \<Rightarrow> c = CHR ''-'' | [] \<Rightarrow> False);
          ds = (case s of c # cs \<Rightarrow> if c = CHR ''+'' \<or> c = CHR ''-'' then cs else s | [] \<Rightarrow> [])
      in if ds = [] then None
         else (case digits_val 0 ds of
                 None \<Rightarrow> None
               | Some n \<Rightarrow>
                   let v = (if neg then - int n else int n)
                   in if - (2 ^ 63) \<le> v \<and> v < 2 ^ 63 then Some v else None))"

definition checked_mul_i64 :: "int \<Rightarrow> int \<Rightarrow> int option" where
  "checked_mul_i64 a b = (if - (2 ^ 63) \<le> a * b \<and> a * b < 2 ^ 63 then Some (a * b) else None)"

text \<open>\<open>u32::checked_shl\<close> fails when the shift amount is not below the width.\<close>

definition checked_shl :: "u32 \<Rightarrow> u32 \<Rightarrow> u32 option" where
  "checked_shl x n = (if unat n < 32 then Some (push_bit (unat n) x) else None)"

text \<open>\<open>std::time::Duration\<close>: at most \<open>u64::MAX\<close> seconds and 999,999,999 nanoseconds.\<close>

definition max_duration :: std_duration where
  "max_duration = (2 ^ 64 - 1) * 1000000000 + 999999999"

definition duration_saturating_mul :: "std_duration \<Rightarrow> u32 \<Rightarrow> std_duration" where
  "duration_saturating_mul d k = min (d * unat k) max_duration"

definition from_millis :: "nat \<Rightarrow> std_duration" where
  "from_millis ms = ms * 1000000"

definition from_secs :: "nat \<Rightarrow> std_duration" where
  "from_secs s = s * 1000000000"

subsection \<open>Formatting\<close>

fun show_nat :: "nat \<Rightarrow> string" where
  "show_nat n =
     (if n < 10 then [char_of (48 + n)] else show_nat (n div 10) @ [char_of (48 + n mod 10)])"

declare show_nat.simps [simp del]

text \<open>The \<open>Display\<close> form of \<open>Utf8Error\<close>, for bytes that are not valid.\<close>

definition utf8_error_to_string :: "bytes \<Rightarrow> string" where
  "utf8_error_to_string b = (case utf8_error 0 b of
     None \<Rightarrow> []
   | Some (i, None) \<Rightarrow> ''incomplete utf-8 byte sequence from index '' @ show_nat i
   | Some (i, Some n) \<Rightarrow> ''invalid utf-8 sequence of '' @ show_nat n @ '' bytes from index '' @ show_nat i)"

definition show_int :: "int \<Rightarrow> string" where
  "show_int i = (if i < 0 then ''-'' @ show_nat (nat (- i)) else show_nat (nat i))"

definition hex_digit :: "nat \<Rightarrow> char" where
  "hex_digit n = (if n < 10 then char_of (48 + n) else char_of (87 + n))"

text \<open>The \<open>Debug\<close> form of a string: quoted, with the escapes of \<open>char::escape_debug\<close> for ASCII;
  bytes above 127 stand for themselves.\<close>

definition escape_debug :: "char \<Rightarrow> string" where
  "escape_debug c =
     (let v = byte_val c in
      if v = 0 then [CHR 0x5C, CHR ''0'']
      else if v = 9 then [CHR 0x5C, CHR ''t'']
      else if v = 10 then [CHR 0x5C, CHR ''n'']
      else if v = 13 then [CHR 0x5C, CHR ''r'']
      else if v = 34 \<or> v = 92 then [CHR 0x5C, c]
      else if v < 32 \<or> v = 127 then
        [CHR 0x5C, CHR ''u'', CHR 0x7B]
        @ (if v < 16 then [hex_digit v] else [hex_digit (v div 16), hex_digit (v mod 16)])
        @ [CHR 0x7D]
      else [c])"

definition debug_str :: "string \<Rightarrow> string" where
  "debug_str s = CHR 0x22 # concat (map escape_debug s) @ [CHR 0x22]"

subsection \<open>Paths\<close>

text \<open>Paths are strings without a trailing slash. \<open>Path::parent\<close> is the part before the last
  slash, empty when there is none; \<open>with_extension\<close> replaces what follows the last dot of the file
  name, a leading dot not counting as one.\<close>

definition path_parent :: "string \<Rightarrow> string" where
  "path_parent p =
     (if CHR ''/'' \<in> set p
      then (let d = rev (tl (dropWhile (\<lambda>c. c \<noteq> CHR ''/'') (rev p)))
            in if d = [] then ''/'' else d)
      else [])"

definition file_name :: "string \<Rightarrow> string" where
  "file_name p = rev (takeWhile (\<lambda>c. c \<noteq> CHR ''/'') (rev p))"

definition file_stem :: "string \<Rightarrow> string" where
  "file_stem n =
     (if CHR ''.'' \<in> set (tl n)
      then rev (tl (dropWhile (\<lambda>c. c \<noteq> CHR ''.'') (rev n)))
      else n)"

definition with_extension :: "string \<Rightarrow> string \<Rightarrow> string" where
  "with_extension p ext =
     take (length p - length (file_name p)) p @ file_stem (file_name p) @ ''.'' @ ext"

subsection \<open>Lemmas on lines\<close>

lemma strip_cr_id: "carriage_return \<notin> set l \<Longrightarrow> strip_cr l = l"
  by (auto simp: strip_cr_def dest: last_in_set)

lemma lines_from_line:
  "newline \<notin> set l \<Longrightarrow> lines_from acc (l @ newline # rest) = strip_cr (acc @ l) # lines_from [] rest"
  by (induction l arbitrary: acc) auto

lemma lines_from_last:
  "newline \<notin> set l \<Longrightarrow> lines_from acc l = (if acc @ l = [] then [] else [acc @ l])"
  by (induction l arbitrary: acc) auto

lemma str_lines_Nil [simp]: "str_lines [] = []"
  by (simp add: str_lines_def)

lemma str_lines_line:
  "newline \<notin> set l \<Longrightarrow> str_lines (l @ newline # rest) = strip_cr l # str_lines rest"
  using lines_from_line [of l "[]" rest] by (simp add: str_lines_def)

lemma str_lines_last: "newline \<notin> set l \<Longrightarrow> l \<noteq> [] \<Longrightarrow> str_lines l = [l]"
  using lines_from_last [of l "[]"] by (simp add: str_lines_def)

text \<open>A whole file of terminated lines followed by an unterminated tail.\<close>

lemma str_lines_file:
  assumes "\<forall>l \<in> set ls. newline \<notin> set l \<and> carriage_return \<notin> set l"
    and "newline \<notin> set t"
  shows "str_lines (concat (map (\<lambda>l. l @ [newline]) ls) @ t) = ls @ (if t = [] then [] else [t])"
  using assms
  by (induction ls) (auto simp: str_lines_line str_lines_last strip_cr_id)

subsection \<open>Lemmas on UTF-8\<close>

lemma from_utf8_append:
  "from_utf8 xs \<Longrightarrow> from_utf8 (xs @ ys) = from_utf8 ys"
proof (induction xs rule: from_utf8.induct)
  case (2 a r)
  then show ?case
    by (auto split: if_splits list.splits)
qed simp

text \<open>There is an error to report exactly when the bytes are not valid.\<close>

lemma bad_cont_done: "n \<le> k \<Longrightarrow> bad_cont a k n r = None"
  by (simp add: bad_cont.simps)

lemma bad_cont_Nil: "bad_cont a k n [] = (if n \<le> k then None else Some None)"
  by (simp add: bad_cont.simps)

lemma bad_cont_Cons:
  "bad_cont a k n (b # r) = (if n \<le> k then None
     else if (if k = 1 then second_ok a b else byte_in 0x80 0xBF b) then bad_cont a (Suc k) n r else Some (Some k))"
  by (simp add: bad_cont.simps)

lemma bad_cont_None:
  "bad_cont a (Suc 0) 2 r = None \<longleftrightarrow> (case r of b # _ \<Rightarrow> second_ok a b | [] \<Rightarrow> False)"
  "bad_cont a (Suc 0) 3 r = None \<longleftrightarrow> (case r of b # c # _ \<Rightarrow> second_ok a b \<and> byte_in 0x80 0xBF c | _ \<Rightarrow> False)"
  "bad_cont a (Suc 0) 4 r = None \<longleftrightarrow>
     (case r of b # c # d # _ \<Rightarrow> second_ok a b \<and> byte_in 0x80 0xBF c \<and> byte_in 0x80 0xBF d | _ \<Rightarrow> False)"
  by (auto simp: bad_cont_Nil bad_cont_Cons bad_cont_done split: list.split)

lemma from_utf8_Cons:
  "from_utf8 (a # r) \<longleftrightarrow> utf8_char_width a \<noteq> 0 \<and> bad_cont a 1 (utf8_char_width a) r = None
     \<and> from_utf8 (drop (utf8_char_width a - 1) r)"
proof -
  consider "byte_val a < 128" | "byte_in 0xC2 0xDF a" | "byte_in 0xE0 0xEF a" | "byte_in 0xF0 0xF4 a"
    | "\<not> byte_val a < 128" "\<not> byte_in 0xC2 0xDF a" "\<not> byte_in 0xE0 0xEF a" "\<not> byte_in 0xF0 0xF4 a" by blast
  then show ?thesis
  proof cases
    case 1
    then show ?thesis by (simp add: utf8_char_width_def bad_cont_done)
  next
    case 2
    then have "\<not> byte_val a < 128" "byte_val a \<notin> {0xE0, 0xED, 0xF0, 0xF4}" by (auto simp: byte_in_def)
    with 2 show ?thesis by (simp add: utf8_char_width_def bad_cont_None bad_cont_Nil second_ok_def split: list.split)
  next
    case 3
    then have "\<not> byte_val a < 128" "\<not> byte_in 0xC2 0xDF a" "byte_val a \<notin> {0xF0, 0xF4}" by (auto simp: byte_in_def)
    with 3 show ?thesis by (simp add: utf8_char_width_def bad_cont_None bad_cont_Nil second_ok_def split: list.split)
  next
    case 4
    then have "\<not> byte_val a < 128" "\<not> byte_in 0xC2 0xDF a" "\<not> byte_in 0xE0 0xEF a" "byte_val a \<notin> {0xE0, 0xED}"
      by (auto simp: byte_in_def)
    with 4 show ?thesis by (simp add: utf8_char_width_def bad_cont_None bad_cont_Nil second_ok_def split: list.split)
  next
    case 5
    then show ?thesis by (simp add: utf8_char_width_def)
  qed
qed

lemma utf8_error_iff: "utf8_error i b = None \<longleftrightarrow> from_utf8 b"
proof (induction i b rule: utf8_error.induct)
  case (2 i a r)
  then show ?case by (simp del: from_utf8.simps add: from_utf8_Cons split: option.split)
qed simp

lemma from_utf8_ascii: "\<forall>c \<in> set xs. byte_val c < 128 \<Longrightarrow> from_utf8 xs"
  by (induction xs) auto

lemma from_utf8_lines:
  "\<forall>l \<in> set ls. from_utf8 l \<Longrightarrow> from_utf8 (concat (map (\<lambda>l. l @ [newline]) ls) @ t) = from_utf8 t"
  by (induction ls) (auto simp: from_utf8_append)

subsection \<open>Lemmas on white space\<close>

lemma trim_start_not_ws: "ws_len s = 0 \<Longrightarrow> trim_start s = s"
  by (simp add: trim_start.simps)

lemma trim_start_Nil [simp]: "trim_start [] = []"
  by (simp add: trim_start.simps)

lemma str_trim_Nil [simp]: "str_trim [] = []"
  by (simp add: str_trim_def)

lemma str_trim_not_blank: "s \<noteq> [] \<Longrightarrow> ws_len s = 0 \<Longrightarrow> str_trim s \<noteq> []"
  by (cases s) (auto simp: str_trim_def trim_start_not_ws)

lemma ws_len_ascii: "32 < byte_val c \<Longrightarrow> byte_val c < 128 \<Longrightarrow> ws_len (c # cs) = 0"
  by (auto simp: ws_len_def split: list.splits)

end
