(* ===== verification/Event_Model.thy ===== *)
theory Event_Model
  imports Rust_Std
begin

text \<open>
  The event model of \<open>crates/triggerlane-core/src/event.rs\<close>: event ids, sources, event types,
  metadata and the envelope, with the constructors. The \<open>uuid\<close> crate is a parameter: its printer
  and parser come as a record \<open>uuid_api\<close>, the random id and the clock reading of a constructor call
  come as arguments. What the crate relies on is \<open>uuid_api_ok\<close>: parsing a printed id gives it back.
\<close>

subsection \<open>Data\<close>

datatype event_id = EventId (uuid: "128 word")

datatype source = Http | GitHub | Discord | Slack | Cron | Manual

datatype event_type = EventType (as_str: string)

definition EVENT_GITHUB_ISSUE_CREATED :: string where
  "EVENT_GITHUB_ISSUE_CREATED = ''event.github.issue.created''"

definition EVENT_GITHUB_PR_CREATED :: string where
  "EVENT_GITHUB_PR_CREATED = ''event.github.pr.created''"

definition EVENT_DISCORD_MESSAGE_CREATED :: string where
  "EVENT_DISCORD_MESSAGE_CREATED = ''event.discord.message.created''"

definition EVENT_CRON_DAILY :: string where
  "EVENT_CRON_DAILY = ''event.cron.daily''"

record event_metadata =
  trace_id :: "string option"
  correlation_id :: "string option"
  tenant_id :: "string option"
  idempotency_key :: "string option"
  causation_id :: "string option"

record event_envelope =
  ev_id :: event_id
  ev_source :: source
  ev_type :: event_type
  ev_payload :: bytes
  ev_timestamp :: timestamp
  ev_metadata :: event_metadata

text \<open>Event ids are ordered by their bits, so that a set of them has a canonical enumeration.\<close>

instantiation event_id :: linorder
begin

definition less_eq_event_id :: "event_id \<Rightarrow> event_id \<Rightarrow> bool" where
  "less_eq_event_id a b \<longleftrightarrow> uuid a \<le> uuid b"

definition less_event_id :: "event_id \<Rightarrow> event_id \<Rightarrow> bool" where
  "less_event_id a b \<longleftrightarrow> uuid a < uuid b"

instance
  by standard (auto simp: less_eq_event_id_def less_event_id_def intro: event_id.expand)

end

subsection \<open>The uuid crate\<close>

record uuid_api =
  uuid_to_string :: "128 word \<Rightarrow> string"
  uuid_parse_str :: "string \<Rightarrow> (128 word, string) result"

definition uuid_api_ok :: "uuid_api \<Rightarrow> bool" where
  "uuid_api_ok u \<longleftrightarrow> (\<forall>w. uuid_parse_str u (uuid_to_string u w) = Ok w)"

subsection \<open>Operations\<close>

definition event_id_to_string :: "uuid_api \<Rightarrow> event_id \<Rightarrow> string" where
  "event_id_to_string u i = uuid_to_string u (uuid i)"

definition event_id_from_str :: "uuid_api \<Rightarrow> string \<Rightarrow> (event_id, string) result" where
  "event_id_from_str u s = (case uuid_parse_str u s of Ok w \<Rightarrow> Ok (EventId w) | Err e \<Rightarrow> Err e)"

definition default_metadata :: event_metadata where
  "default_metadata =
     \<lparr>trace_id = None, correlation_id = None, tenant_id = None,
      idempotency_key = None, causation_id = None\<rparr>"

definition envelope_new ::
  "event_id \<Rightarrow> timestamp \<Rightarrow> source \<Rightarrow> string \<Rightarrow> bytes \<Rightarrow> event_envelope" where
  "envelope_new new_v4 now src et payload =
     \<lparr>ev_id = new_v4, ev_source = src, ev_type = EventType et, ev_payload = payload,
      ev_timestamp = now, ev_metadata = default_metadata\<rparr>"

definition with_metadata :: "event_envelope \<Rightarrow> event_metadata \<Rightarrow> event_envelope" where
  "with_metadata e m = e\<lparr>ev_metadata := m\<rparr>"

definition follow_up ::
  "uuid_api \<Rightarrow> event_id \<Rightarrow> timestamp \<Rightarrow> event_envelope \<Rightarrow> source \<Rightarrow> string \<Rightarrow> bytes
    \<Rightarrow> event_envelope" where
  "follow_up u new_v4 now cause src et payload =
     (let corr = (case correlation_id (ev_metadata cause) of
                    Some c \<Rightarrow> Some c
                  | None \<Rightarrow> Some (event_id_to_string u (ev_id cause)))
      in with_metadata (envelope_new new_v4 now src et payload)
           \<lparr>trace_id = trace_id (ev_metadata cause),
            correlation_id = corr,
            tenant_id = tenant_id (ev_metadata cause),
            idempotency_key = None,
            causation_id = Some (event_id_to_string u (ev_id cause))\<rparr>)"

text \<open>A choreography: \<open>descends u r e\<close> when \<open>e\<close> results from \<open>r\<close> by one or more follow-ups.\<close>

inductive descends :: "uuid_api \<Rightarrow> event_envelope \<Rightarrow> event_envelope \<Rightarrow> bool" for u r where
  direct: "descends u r (follow_up u i now r src et payload)"
| later: "descends u r e \<Longrightarrow> descends u r (follow_up u i now e src et payload)"

text \<open>A printer and parser that satisfy \<open>uuid_api_ok\<close>, for concrete runs: an id prints as that many
  letters.\<close>

definition unary_uuid :: uuid_api where
  "unary_uuid =
     \<lparr>uuid_to_string = \<lambda>w. replicate (unat w) CHR ''x'',
      uuid_parse_str = \<lambda>s. Ok (of_nat (length s))\<rparr>"

subsection \<open>Lemmas\<close>

lemma unary_uuid_ok: "uuid_api_ok unary_uuid"
  by (simp add: uuid_api_ok_def unary_uuid_def)

lemma uuid_to_string_inj: "uuid_api_ok u \<Longrightarrow> inj (uuid_to_string u)"
  by (rule injI) (metis result.inject(1) uuid_api_ok_def)

lemma event_id_to_string_inject:
  "uuid_api_ok u \<Longrightarrow> event_id_to_string u a = event_id_to_string u b \<longleftrightarrow> a = b"
  by (auto simp: event_id_to_string_def inj_eq [OF uuid_to_string_inj] intro: event_id.expand)

lemma event_id_round_trip:
  "uuid_api_ok u \<Longrightarrow> event_id_from_str u (event_id_to_string u i) = Ok i"
  by (simp add: event_id_from_str_def event_id_to_string_def uuid_api_ok_def)

lemma follow_up_metadata:
  "ev_metadata (follow_up u i now c src et p) =
     \<lparr>trace_id = trace_id (ev_metadata c),
      correlation_id = Some (case correlation_id (ev_metadata c) of
                               Some k \<Rightarrow> k | None \<Rightarrow> event_id_to_string u (ev_id c)),
      tenant_id = tenant_id (ev_metadata c),
      idempotency_key = None,
      causation_id = Some (event_id_to_string u (ev_id c))\<rparr>"
  by (simp add: follow_up_def with_metadata_def envelope_new_def Let_def split: option.splits)

subsection \<open>Properties\<close>

text \<open>Every event of a choreography chain carries the correlation id of its origin (the
  origin's own correlation id, or the origin's event id when it has none) and the origin's tenant
  and trace ids, never an idempotency key, and its causation id is the printed id of an event that
  is the origin or itself in the chain.\<close>

theorem follow_up_chain_correlates:
  assumes "descends u r e"
  shows "correlation_id (ev_metadata e) =
           Some (case correlation_id (ev_metadata r) of
                   Some c \<Rightarrow> c | None \<Rightarrow> event_id_to_string u (ev_id r))
       \<and> tenant_id (ev_metadata e) = tenant_id (ev_metadata r)
       \<and> trace_id (ev_metadata e) = trace_id (ev_metadata r)
       \<and> idempotency_key (ev_metadata e) = None
       \<and> (\<exists>c. (c = r \<or> descends u r c)
              \<and> causation_id (ev_metadata e) = Some (event_id_to_string u (ev_id c)))"
  using assms
proof (induction rule: descends.induct)
  case (direct i now src et payload)
  show ?case by (auto simp: follow_up_metadata)
next
  case (later e i now src et payload)
  then show ?case by (auto simp: follow_up_metadata)
qed

theorem follow_up_chain_correlates_witness:
  "correlation_id (ev_metadata
     (follow_up unary_uuid (EventId 3) 5
        (follow_up unary_uuid (EventId 2) 4
           (envelope_new (EventId 1) 0 Cron EVENT_CRON_DAILY []) Manual ''b'' [])
        Manual ''c'' [])) = Some ''x''"
proof -
  let ?r = "envelope_new (EventId 1) 0 Cron EVENT_CRON_DAILY []"
  have "descends unary_uuid ?r (follow_up unary_uuid (EventId 3) 5
          (follow_up unary_uuid (EventId 2) 4 ?r Manual ''b'' []) Manual ''c'' [])"
    by (intro descends.intros)
  from follow_up_chain_correlates [OF this] show ?thesis
    by (simp add: envelope_new_def default_metadata_def event_id_to_string_def unary_uuid_def)
qed

end
