(* ===== verification/Trigger_Model.thy ===== *)
theory Trigger_Model
  imports Event_Model
begin

text \<open>
  Triggers and bindings of \<open>crates/triggerlane-core/src/trigger.rs\<close>. The crate's four trigger types
  are the constructors of one datatype, and \<open>trigger_matches\<close> has one equation per
  \<open>impl Trigger\<close>. \<open>serde_json\<close> is a parameter: a type \<open>'v\<close> of JSON values with the parser
  \<open>from_slice\<close> and the lookup \<open>Value::pointer\<close>.
\<close>

subsection \<open>Data\<close>

datatype binding_error = Rejected string

record worklane_job =
  job_lane :: string
  job_kind :: string
  job_payload :: bytes
  job_max_attempts :: u32

record 'v json_api =
  from_slice :: "bytes \<Rightarrow> 'v option"
  pointer :: "'v \<Rightarrow> string \<Rightarrow> 'v option"

datatype 'v trigger =
    EventTypeTrigger event_type
  | PayloadFieldEquals string 'v
  | AllOf "'v trigger list"
  | AnyOf "'v trigger list"

record worklane_job_binding =
  bind_lane :: string
  bind_kind :: string
  bind_max_attempts :: u32
  bind_transform :: "(event_envelope \<Rightarrow> (bytes, binding_error) result) option"

subsection \<open>Operations\<close>

definition worklane_job_new :: "string \<Rightarrow> string \<Rightarrow> bytes \<Rightarrow> u32 \<Rightarrow> worklane_job" where
  "worklane_job_new lane kind payload n =
     \<lparr>job_lane = lane, job_kind = kind, job_payload = payload, job_max_attempts = n\<rparr>"

fun trigger_matches :: "'v json_api \<Rightarrow> 'v trigger \<Rightarrow> event_envelope \<Rightarrow> bool" where
  "trigger_matches j (EventTypeTrigger t) e = (ev_type e = t)"
| "trigger_matches j (PayloadFieldEquals ptr expected) e =
     (case from_slice j (ev_payload e) of
        None \<Rightarrow> False
      | Some v \<Rightarrow> (case pointer j v ptr of None \<Rightarrow> False | Some found \<Rightarrow> found = expected))"
| "trigger_matches j (AllOf ts) e = list_all (\<lambda>t. trigger_matches j t e) ts"
| "trigger_matches j (AnyOf ts) e = list_ex (\<lambda>t. trigger_matches j t e) ts"

definition worklane_job_binding_new :: "string \<Rightarrow> string \<Rightarrow> u32 \<Rightarrow> worklane_job_binding" where
  "worklane_job_binding_new lane kind n =
     \<lparr>bind_lane = lane, bind_kind = kind, bind_max_attempts = n, bind_transform = None\<rparr>"

definition with_payload_transform ::
  "worklane_job_binding \<Rightarrow> (event_envelope \<Rightarrow> (bytes, binding_error) result)
     \<Rightarrow> worklane_job_binding" where
  "with_payload_transform b f = b\<lparr>bind_transform := Some f\<rparr>"

definition bind_job ::
  "worklane_job_binding \<Rightarrow> event_envelope \<Rightarrow> (worklane_job, binding_error) result" where
  "bind_job b e =
     (case (case bind_transform b of Some f \<Rightarrow> f e | None \<Rightarrow> Ok (ev_payload e)) of
        Err err \<Rightarrow> Err err
      | Ok payload \<Rightarrow>
          Ok (worklane_job_new (bind_lane b) (bind_kind b) payload (bind_max_attempts b)))"

subsection \<open>Lemmas\<close>

text \<open>The event types a trigger tests for, and whether it looks at the payload at all.\<close>

fun reads_payload :: "'v trigger \<Rightarrow> bool" where
  "reads_payload (EventTypeTrigger _) = False"
| "reads_payload (PayloadFieldEquals _ _) = True"
| "reads_payload (AllOf ts) = list_ex reads_payload ts"
| "reads_payload (AnyOf ts) = list_ex reads_payload ts"

lemma trigger_matches_cong:
  assumes "ev_type e = ev_type e'"
    and "reads_payload t \<Longrightarrow> from_slice j (ev_payload e) = from_slice j (ev_payload e')"
  shows "trigger_matches j t e = trigger_matches j t e'"
  using assms
proof (induction t)
  case (AllOf ts)
  then have "trigger_matches j t e = trigger_matches j t e'" if "t \<in> set ts" for t
    using that by (auto simp: list_ex_iff)
  then show ?case by (auto simp: list_all_iff)
next
  case (AnyOf ts)
  then have "trigger_matches j t e = trigger_matches j t e'" if "t \<in> set ts" for t
    using that by (auto simp: list_ex_iff)
  then show ?case by (auto simp: list_ex_iff)
qed simp_all

lemma bind_job_no_transform:
  "bind_transform b = None \<Longrightarrow>
     bind_job b e = Ok \<lparr>job_lane = bind_lane b, job_kind = bind_kind b,
                        job_payload = ev_payload e, job_max_attempts = bind_max_attempts b\<rparr>"
  by (simp add: bind_job_def worklane_job_new_def)

lemma bind_job_Ok:
  "bind_job b e = Ok jb \<Longrightarrow>
     job_lane jb = bind_lane b \<and> job_kind jb = bind_kind b
     \<and> job_max_attempts jb = bind_max_attempts b"
  by (auto simp: bind_job_def worklane_job_new_def split: option.splits result.splits)

end
