(* ===== verification/Registry.thy ===== *)
theory Registry
  imports Trigger_Model "HOL-Library.Multiset"
begin

text \<open>
  The trigger registry and the submission schedule of \<open>crates/triggerlane-runtime/src/lib.rs\<close>:
  \<open>RegisteredTrigger\<close>, \<open>TriggerRegistry\<close>, \<open>RuntimeOptions\<close> and \<open>submission_backoff_delay\<close>. A registered
  trigger holds its trigger and its binding as the functions behind the two trait objects.
\<close>

subsection \<open>Registered triggers\<close>

record registered_trigger =
  rg_name :: string
  rg_priority :: int
  rg_enabled :: bool
  rg_matches :: "event_envelope \<Rightarrow> bool"
  rg_bind :: "event_envelope \<Rightarrow> (worklane_job, binding_error) result"

definition registered_trigger_new ::
  "string \<Rightarrow> int \<Rightarrow> (event_envelope \<Rightarrow> bool) \<Rightarrow> (event_envelope \<Rightarrow> (worklane_job, binding_error) result)
     \<Rightarrow> registered_trigger" where
  "registered_trigger_new name priority trig binding =
     \<lparr>rg_name = name, rg_priority = priority, rg_enabled = True, rg_matches = trig, rg_bind = binding\<rparr>"

definition disabled :: "registered_trigger \<Rightarrow> registered_trigger" where
  "disabled r = r\<lparr>rg_enabled := False\<rparr>"

subsection \<open>The registry\<close>

type_synonym trigger_registry = "registered_trigger list"

text \<open>\<open>sort_by_key\<close> with \<open>Reverse(priority)\<close> is a stable sort by descending priority.\<close>

definition register :: "trigger_registry \<Rightarrow> registered_trigger \<Rightarrow> trigger_registry" where
  "register registrations r = sort_key (\<lambda>r. - rg_priority r) (registrations @ [r])"

definition matching :: "trigger_registry \<Rightarrow> event_envelope \<Rightarrow> registered_trigger list" where
  "matching registrations event = filter (\<lambda>r. rg_enabled r \<and> rg_matches r event) registrations"

subsection \<open>Options and backoff\<close>

record runtime_options =
  max_submission_attempts :: u32
  submission_backoff :: std_duration

definition default_options :: runtime_options where
  "default_options = \<lparr>max_submission_attempts = 1, submission_backoff = from_millis 100\<rparr>"

definition MAX_SUBMISSION_BACKOFF :: std_duration where
  "MAX_SUBMISSION_BACKOFF = from_secs 30"

definition submission_backoff_delay :: "u32 \<Rightarrow> std_duration \<Rightarrow> std_duration" where
  "submission_backoff_delay retry_index base =
     (if base = 0 \<or> retry_index = 0 then 0
      else
        let factor = (case checked_shl 1 (retry_index - 1) of Some f \<Rightarrow> f | None \<Rightarrow> - 1)
        in min (duration_saturating_mul base factor) MAX_SUBMISSION_BACKOFF)"

subsection \<open>Lemmas\<close>

lemma sort_key_snoc:
  fixes f :: "'a \<Rightarrow> 'b::linorder"
  shows "sort_key f (sort_key f xs @ [x]) = sort_key f (xs @ [x])"
proof (rule properties_for_sort_key)
  show "mset (sort_key f (xs @ [x])) = mset (sort_key f xs @ [x])" by simp
  show "sorted (map f (sort_key f (xs @ [x])))" by simp
  show "filter (\<lambda>y. f k = f y) (sort_key f (xs @ [x])) = filter (\<lambda>y. f k = f y) (sort_key f xs @ [x])"
    if "k \<in> set (sort_key f (xs @ [x]))" for k
    using sort_key_stable [of f "f k"] by (simp add: eq_commute)
qed

lemma foldl_register:
  "foldl register (sort_key (\<lambda>r. - rg_priority r) qs) rs = sort_key (\<lambda>r. - rg_priority r) (qs @ rs)"
  by (induction rs arbitrary: qs) (simp_all add: register_def sort_key_snoc)

lemma registry_built: "foldl register [] rs = sort_key (\<lambda>r. - rg_priority r) rs"
  using foldl_register [of "[]" rs] by simp

lemma sorted_filter_map: "sorted (map f xs) \<Longrightarrow> sorted (map f (filter P xs))"
  by (rule sorted_filter)

text \<open>The order in which an event meets the triggers. Whatever order the triggers were registered
  in, the matching ones are the enabled ones whose trigger accepts the event, each as often as it was
  registered, by descending priority, and triggers of equal priority in the order of their
  registration.\<close>

theorem matching_order:
  "mset (matching (foldl register [] rs) e)
     = mset (filter (\<lambda>r. rg_enabled r \<and> rg_matches r e) rs)
   \<and> sorted_wrt (\<lambda>a b. rg_priority a \<ge> rg_priority b) (matching (foldl register [] rs) e)
   \<and> filter (\<lambda>r. rg_priority r = p) (matching (foldl register [] rs) e)
     = filter (\<lambda>r. rg_priority r = p \<and> rg_enabled r \<and> rg_matches r e) rs"
proof (intro conjI)
  let ?f = "\<lambda>r :: registered_trigger. - rg_priority r"
  have reg: "foldl register [] rs = sort_key ?f rs" by (rule registry_built)
  show "mset (matching (foldl register [] rs) e) = mset (filter (\<lambda>r. rg_enabled r \<and> rg_matches r e) rs)"
    by (simp add: reg matching_def)
  have "sorted (map ?f (matching (foldl register [] rs) e))"
    by (simp add: reg matching_def sorted_filter_map)
  then show "sorted_wrt (\<lambda>a b. rg_priority a \<ge> rg_priority b) (matching (foldl register [] rs) e)"
    by (simp add: sorted_map)
  have "filter (\<lambda>r. rg_priority r = p) (sort_key ?f rs) = filter (\<lambda>r. rg_priority r = p) rs"
    using sort_key_stable [of ?f "- p" rs] by simp
  then have "filter (\<lambda>r. rg_enabled r \<and> rg_matches r e) (filter (\<lambda>r. rg_priority r = p) (sort_key ?f rs))
      = filter (\<lambda>r. rg_enabled r \<and> rg_matches r e) (filter (\<lambda>r. rg_priority r = p) rs)" by simp
  then show "filter (\<lambda>r. rg_priority r = p) (matching (foldl register [] rs) e)
      = filter (\<lambda>r. rg_priority r = p \<and> rg_enabled r \<and> rg_matches r e) rs"
    by (simp add: reg matching_def conj_ac)
qed

lemma submission_backoff_delay_le: "submission_backoff_delay i b \<le> MAX_SUBMISSION_BACKOFF"
  by (simp add: submission_backoff_delay_def Let_def)

lemma submission_backoff_delay_zero [simp]:
  "submission_backoff_delay 0 b = 0" "submission_backoff_delay i 0 = 0"
  by (simp_all add: submission_backoff_delay_def)

text \<open>Below 7 nanoseconds the saturated factor, not the cap, bounds the delay.\<close>

lemma tiny_backoff_below_cap:
  "32 < unat i \<Longrightarrow> submission_backoff_delay i 1 = 2 ^ 32 - 1 \<and> submission_backoff_delay i 1 < MAX_SUBMISSION_BACKOFF"
proof -
  assume i: "32 < unat i"
  then have "i \<noteq> 0" by auto
  then have "unat (i - 1) = unat i - 1" by (metis unat_minus_one)
  with i have "\<not> unat (i - 1) < 32" by linarith
  with \<open>i \<noteq> 0\<close> show ?thesis
    by (simp add: submission_backoff_delay_def checked_shl_def duration_saturating_mul_def MAX_SUBMISSION_BACKOFF_def
        from_secs_def max_duration_def unsigned_minus_1_eq_mask mask_eq_exp_minus_1)
qed

text \<open>C31: the backoff schedule. From a base of at least 7 nanoseconds, so for every positive number of
  milliseconds, the delay before retry \<open>i\<close> is exactly the base doubled \<open>i - 1\<close> times and capped at 30
  seconds, although the shift is done in 32 bits and the product saturates; without the bound on
  the base the delay is still at most 30 seconds.\<close>

theorem submission_backoff_exact:
  assumes "7 \<le> b" and "0 < i"
  shows "submission_backoff_delay i b = min (b * 2 ^ (unat i - 1)) (from_secs 30)"
proof -
  have ui: "unat (i - 1) = unat i - 1"
    using assms(2) by (metis unat_minus_one word_neq_0_conv)
  have big: "from_secs 30 \<le> max_duration" by (simp add: from_secs_def max_duration_def)
  show ?thesis
  proof (cases "unat i - 1 < 32")
    case True
    then have "(2 :: nat) ^ (unat i - 1) < 2 ^ 32" by (intro power_strict_increasing) auto
    then have "unat (word_of_nat (2 ^ (unat i - 1)) :: u32) = 2 ^ (unat i - 1)"
      by (simp only: unat_of_nat) simp
    then have "unat (push_bit (unat i - 1) (1 :: u32)) = 2 ^ (unat i - 1)"
      by (simp add: push_bit_eq_mult)
    with True ui assms big show ?thesis
      by (auto simp: submission_backoff_delay_def checked_shl_def duration_saturating_mul_def
          MAX_SUBMISSION_BACKOFF_def min_def Let_def)
  next
    case False
    have u: "unat (- 1 :: u32) = 2 ^ 32 - 1" by (simp add: unsigned_minus_1_eq_mask mask_eq_exp_minus_1)
    have a: "from_secs 30 \<le> b * (2 ^ 32 - 1)"
      using mult_le_mono1 [OF assms(1), of "2 ^ 32 - 1"] by (simp add: from_secs_def)
    have "(2 :: nat) ^ 32 \<le> 2 ^ (unat i - 1)" using False by (intro power_increasing) auto
    then have "b * (2 ^ 32 - 1) \<le> b * 2 ^ (unat i - 1)" by (intro mult_le_mono2) linarith
    with a have c: "from_secs 30 \<le> b * 2 ^ (unat i - 1)" by (rule order_trans)
    show ?thesis
      using False ui assms big a c
      by (auto simp: submission_backoff_delay_def checked_shl_def duration_saturating_mul_def
          MAX_SUBMISSION_BACKOFF_def u)
  qed
qed

theorem submission_backoff_exact_witness:
  "submission_backoff_delay 4 (from_millis 100) = from_millis 800
   \<and> submission_backoff_delay 40 (from_millis 100) = from_secs 30"
  using submission_backoff_exact [of "from_millis 100" 4] submission_backoff_exact [of "from_millis 100" 40]
  by (simp add: from_millis_def from_secs_def)

end
