(* ===== verification/Disk.thy ===== *)
theory Disk
  imports Rust_Std
begin

text \<open>
  The operating system as the store code sees it: a directory of inodes, each with the contents
  the process sees and the contents that are on stable storage, advisory locks on inodes, and a
  script of outcomes for the system calls. Every call takes the next outcome of the script (an
  empty script means success), so a statement about all scripts is a statement about all I/O
  failures, including a \<open>write_all\<close> that stops after some of its bytes. \<open>crash\<close> relates the disk
  before a power loss to what a later process may find: an inode holds its stable contents, or some
  of the appended bytes beyond them, or what was last written; a directory entry is the synced or the
  unsynced one; every lock is gone. \<open>open_locked_append\<close> and \<open>sync_parent_dir\<close> are the helpers of
  \<open>crates/triggerlane-storage/src/lib.rs\<close> over these calls.
\<close>

subsection \<open>Errors and state\<close>

datatype error_kind = NotFound | WouldBlock | InvalidData | Other

datatype io_error = IoError (io_kind: error_kind) (io_msg: string)

datatype sys = Succeed | Fail io_error | Short nat io_error

record fs =
  fs_entries :: "string \<rightharpoonup> nat"
  fs_synced_entries :: "string \<rightharpoonup> nat"
  fs_data :: "nat \<Rightarrow> bytes"
  fs_synced :: "nat \<Rightarrow> bytes"
  fs_locks :: "nat set"
  fs_next :: nat
  fs_script :: "sys list"

definition empty_fs :: fs where
  "empty_fs = \<lparr>fs_entries = Map.empty, fs_synced_entries = Map.empty, fs_data = (\<lambda>_. []),
               fs_synced = (\<lambda>_. []), fs_locks = {}, fs_next = 0, fs_script = []\<rparr>"

subsection \<open>System calls\<close>

definition attempt :: "(fs \<Rightarrow> ('a, io_error) result \<times> fs) \<Rightarrow> fs \<Rightarrow> ('a, io_error) result \<times> fs" where
  "attempt k w =
     (let v = w\<lparr>fs_script := tl (fs_script w)\<rparr>
      in case fs_script w of
           Fail e # _ \<Rightarrow> (Err e, v)
         | Short n e # _ \<Rightarrow> (Err e, v)
         | _ \<Rightarrow> k v)"

text \<open>\<open>Path::exists\<close> asks for the metadata of the path; every error counts as absence.\<close>

definition path_exists :: "string \<Rightarrow> fs \<Rightarrow> bool \<times> fs" where
  "path_exists p w = apfst is_ok (attempt (\<lambda>w. case fs_entries w p of
     None \<Rightarrow> (Err (IoError NotFound ''not found''), w)
   | Some _ \<Rightarrow> (Ok (), w)) w)"

definition fs_read :: "string \<Rightarrow> fs \<Rightarrow> (bytes, io_error) result \<times> fs" where
  "fs_read p = attempt (\<lambda>w. case fs_entries w p of
     None \<Rightarrow> (Err (IoError NotFound ''not found''), w)
   | Some i \<Rightarrow> (Ok (fs_data w i), w))"

text \<open>Open for appending, creating the file when it is missing.\<close>

definition open_append :: "string \<Rightarrow> fs \<Rightarrow> (nat, io_error) result \<times> fs" where
  "open_append p = attempt (\<lambda>w. case fs_entries w p of
     Some i \<Rightarrow> (Ok i, w)
   | None \<Rightarrow> (Ok (fs_next w),
       w\<lparr>fs_entries := (fs_entries w)(p \<mapsto> fs_next w),
         fs_data := (fs_data w)(fs_next w := []),
         fs_synced := (fs_synced w)(fs_next w := []),
         fs_next := Suc (fs_next w)\<rparr>))"

text \<open>Open for writing, creating or truncating.\<close>

definition open_truncate :: "string \<Rightarrow> fs \<Rightarrow> (nat, io_error) result \<times> fs" where
  "open_truncate p = attempt (\<lambda>w. case fs_entries w p of
     Some i \<Rightarrow> (Ok i, w\<lparr>fs_data := (fs_data w)(i := [])\<rparr>)
   | None \<Rightarrow> (Ok (fs_next w),
       w\<lparr>fs_entries := (fs_entries w)(p \<mapsto> fs_next w),
         fs_data := (fs_data w)(fs_next w := []),
         fs_synced := (fs_synced w)(fs_next w := []),
         fs_next := Suc (fs_next w)\<rparr>))"

definition try_lock_exclusive :: "nat \<Rightarrow> fs \<Rightarrow> (unit, io_error) result \<times> fs" where
  "try_lock_exclusive i = attempt (\<lambda>w.
     if i \<in> fs_locks w then (Err (IoError WouldBlock ''lock contended''), w)
     else (Ok (), w\<lparr>fs_locks := insert i (fs_locks w)\<rparr>))"

definition drop_handle :: "nat \<Rightarrow> fs \<Rightarrow> fs" where
  "drop_handle i w = w\<lparr>fs_locks := fs_locks w - {i}\<rparr>"

definition write_all :: "nat \<Rightarrow> bytes \<Rightarrow> fs \<Rightarrow> (unit, io_error) result \<times> fs" where
  "write_all i b w =
     (let v = w\<lparr>fs_script := tl (fs_script w)\<rparr>;
          put = (\<lambda>x. v\<lparr>fs_data := (fs_data v)(i := fs_data v i @ x)\<rparr>)
      in case fs_script w of
           Fail e # _ \<Rightarrow> (Err e, v)
         | Short n e # _ \<Rightarrow> (Err e, put (take n b))
         | _ \<Rightarrow> (Ok (), put b))"

text \<open>\<open>sync_data\<close> and \<open>sync_all\<close>: both make the contents and their length stable.\<close>

definition sync_file :: "nat \<Rightarrow> fs \<Rightarrow> (unit, io_error) result \<times> fs" where
  "sync_file i = attempt (\<lambda>w. (Ok (), w\<lparr>fs_synced := (fs_synced w)(i := fs_data w i)\<rparr>))"

definition set_len_0 :: "nat \<Rightarrow> fs \<Rightarrow> (unit, io_error) result \<times> fs" where
  "set_len_0 i = attempt (\<lambda>w. (Ok (), w\<lparr>fs_data := (fs_data w)(i := [])\<rparr>))"

definition fs_rename :: "string \<Rightarrow> string \<Rightarrow> fs \<Rightarrow> (unit, io_error) result \<times> fs" where
  "fs_rename src dst = attempt (\<lambda>w. case fs_entries w src of
     None \<Rightarrow> (Err (IoError NotFound ''not found''), w)
   | Some i \<Rightarrow> (Ok (), w\<lparr>fs_entries := (fs_entries w)(src := None, dst := Some i)\<rparr>))"

definition open_dir :: "string \<Rightarrow> fs \<Rightarrow> (unit, io_error) result \<times> fs" where
  "open_dir d = attempt (\<lambda>w. (Ok (), w))"

definition sync_dir :: "string \<Rightarrow> fs \<Rightarrow> (unit, io_error) result \<times> fs" where
  "sync_dir d = attempt (\<lambda>w. (Ok (),
     w\<lparr>fs_synced_entries :=
         (\<lambda>p. if path_parent p = d then fs_entries w p else fs_synced_entries w p)\<rparr>))"

definition metadata_len :: "string \<Rightarrow> fs \<Rightarrow> nat option" where
  "metadata_len p w = map_option (\<lambda>i. length (fs_data w i)) (fs_entries w p)"

subsection \<open>The store's helpers\<close>

definition locked_error :: "string \<Rightarrow> io_error \<Rightarrow> io_error" where
  "locked_error p e = IoError WouldBlock
     (''store '' @ p @ '' is already locked by another writer: '' @ io_msg e)"

definition open_locked_append :: "string \<Rightarrow> fs \<Rightarrow> (nat, io_error) result \<times> fs" where
  "open_locked_append p w =
     and_then (open_append p w) (\<lambda>i w.
       and_then (apfst (map_err (locked_error p)) (try_lock_exclusive i w)) (\<lambda>_ w. (Ok i, w)))"

definition sync_parent_dir :: "string \<Rightarrow> fs \<Rightarrow> (unit, io_error) result \<times> fs" where
  "sync_parent_dir p w =
     (if path_parent p \<noteq> []
      then and_then (open_dir (path_parent p) w) (\<lambda>_ w. sync_dir (path_parent p) w)
      else (Ok (), w))"

subsection \<open>Crash\<close>

definition crash_contents :: "bytes \<Rightarrow> bytes \<Rightarrow> bytes \<Rightarrow> bool" where
  "crash_contents synced written found \<longleftrightarrow>
     found = synced \<or> found = written \<or> (prefix synced found \<and> prefix found written)"

definition crash :: "fs \<Rightarrow> fs \<Rightarrow> bool" where
  "crash w v \<longleftrightarrow>
     (\<forall>p. fs_entries v p = fs_entries w p \<or> fs_entries v p = fs_synced_entries w p)
     \<and> (\<forall>i. crash_contents (fs_synced w i) (fs_data w i) (fs_data v i))
     \<and> fs_synced v = fs_data v \<and> fs_synced_entries v = fs_entries v
     \<and> fs_locks v = {} \<and> fs_next v = fs_next w"

text \<open>Every directory entry names an allocated inode, and no inode has two names.\<close>

definition fs_ok :: "fs \<Rightarrow> bool" where
  "fs_ok w \<longleftrightarrow> (\<forall>p i. fs_entries w p = Some i \<longrightarrow> i < fs_next w)
     \<and> (\<forall>p q i. fs_entries w p = Some i \<and> fs_entries w q = Some i \<longrightarrow> p = q)"

subsection \<open>Lemmas\<close>

lemma fs_ok_cong: "fs_ok w \<Longrightarrow> fs_entries v = fs_entries w \<Longrightarrow> fs_next v = fs_next w \<Longrightarrow> fs_ok v"
  by (simp add: fs_ok_def)

lemma attempt_cases:
  obtains (run) "attempt k w = k (w\<lparr>fs_script := tl (fs_script w)\<rparr>)"
  | (fail) e where "attempt k w = (Err e, w\<lparr>fs_script := tl (fs_script w)\<rparr>)"
proof (cases "fs_script w")
  case Nil
  then show ?thesis using run by (simp add: attempt_def)
next
  case (Cons s r)
  then show ?thesis using run fail by (cases s) (simp_all add: attempt_def)
qed

lemma pop_empty_script: "fs_script w = [] \<Longrightarrow> w\<lparr>fs_script := tl (fs_script w)\<rparr> = w"
  by (cases w) simp

lemma attempt_no_script [sys_simps]: "fs_script w = [] \<Longrightarrow> attempt k w = k w"
  by (cases w) (simp add: attempt_def)

lemma attempt_Ok:
  "attempt k w = (Ok a, v) \<Longrightarrow> k (w\<lparr>fs_script := tl (fs_script w)\<rparr>) = (Ok a, v)"
  by (rule attempt_cases [of k w]) auto

lemma attempt_Err:
  "attempt k w = (Err e, v) \<Longrightarrow>
     v = w\<lparr>fs_script := tl (fs_script w)\<rparr>
     \<or> k (w\<lparr>fs_script := tl (fs_script w)\<rparr>) = (Err e, v)"
  by (rule attempt_cases [of k w]) auto

lemma path_exists_no_script [sys_simps]: "fs_script w = [] \<Longrightarrow> path_exists p w = (fs_entries w p \<noteq> None, w)"
  by (simp add: path_exists_def attempt_no_script split: option.split)

lemma path_exists_result:
  assumes "path_exists p w = (b, v)"
  shows "v = w\<lparr>fs_script := tl (fs_script w)\<rparr> \<and> (b \<longrightarrow> fs_entries w p \<noteq> None)"
  using assms by (cases rule: attempt_cases [of "\<lambda>w. case fs_entries w p of
       None \<Rightarrow> (Err (IoError NotFound ''not found''), w) | Some _ \<Rightarrow> (Ok (), w)" w])
    (auto simp: path_exists_def split: option.splits)

text \<open>The parts of the state a call leaves alone, whatever the script says.\<close>

definition same_files :: "fs \<Rightarrow> fs \<Rightarrow> bool" where
  "same_files w v \<longleftrightarrow> fs_entries v = fs_entries w \<and> fs_data v = fs_data w
     \<and> fs_synced v = fs_synced w \<and> fs_synced_entries v = fs_synced_entries w
     \<and> fs_next v = fs_next w"

lemma same_files_refl [simp]: "same_files w w"
  by (simp add: same_files_def)

lemma same_files_trans: "same_files a b \<Longrightarrow> same_files b c \<Longrightarrow> same_files a c"
  by (simp add: same_files_def)

lemma same_files_script [simp]: "same_files w (w\<lparr>fs_script := r\<rparr>)"
  by (simp add: same_files_def)

lemma fs_read_Ok:
  "fs_read p w = (Ok b, v) \<Longrightarrow>
     v = w\<lparr>fs_script := tl (fs_script w)\<rparr> \<and> (\<exists>i. fs_entries w p = Some i \<and> b = fs_data w i)"
  unfolding fs_read_def by (drule attempt_Ok) (auto split: option.splits)

lemma fs_read_state: "snd (fs_read p w) = w\<lparr>fs_script := tl (fs_script w)\<rparr>"
  unfolding fs_read_def
  by (rule attempt_cases [of "\<lambda>w. case fs_entries w p of
       None \<Rightarrow> (Err (IoError NotFound ''not found''), w) | Some i \<Rightarrow> (Ok (fs_data w i), w)" w])
     (auto split: option.splits)

lemma open_append_existing:
  assumes "open_append p w = (r, v)" and "fs_entries w p = Some i"
  shows "same_files w v \<and> fs_locks v = fs_locks w \<and> (\<forall>j. r = Ok j \<longrightarrow> j = i)"
proof (cases r)
  case (Ok j)
  with assms show ?thesis
    unfolding open_append_def by (auto dest!: attempt_Ok simp: same_files_def)
next
  case (Err e)
  with assms show ?thesis
    unfolding open_append_def by (auto dest!: attempt_Err simp: same_files_def)
qed

lemma open_append_new:
  assumes "open_append p w = (Ok i, v)" and "fs_entries w p = None"
  shows "i = fs_next w \<and> fs_entries v = (fs_entries w)(p \<mapsto> i)
       \<and> fs_data v = (fs_data w)(i := []) \<and> fs_synced v = (fs_synced w)(i := [])
       \<and> fs_synced_entries v = fs_synced_entries w \<and> fs_next v = Suc (fs_next w)
       \<and> fs_locks v = fs_locks w"
  using assms unfolding open_append_def by (auto dest!: attempt_Ok)

lemma try_lock_exclusive_Ok:
  "try_lock_exclusive i w = (Ok u, v) \<Longrightarrow>
     i \<notin> fs_locks w \<and> same_files w v \<and> fs_locks v = insert i (fs_locks w)"
  unfolding try_lock_exclusive_def
  by (drule attempt_Ok) (auto simp: same_files_def split: if_splits)

lemma try_lock_exclusive_Err:
  "try_lock_exclusive i w = (Err e, v) \<Longrightarrow> same_files w v \<and> fs_locks v = fs_locks w"
  unfolding try_lock_exclusive_def
  by (drule attempt_Err) (auto simp: same_files_def split: if_splits)

lemma write_all_Ok:
  "write_all i b w = (Ok u, v) \<Longrightarrow>
     fs_data v = (fs_data w)(i := fs_data w i @ b) \<and> fs_entries v = fs_entries w
     \<and> fs_synced v = fs_synced w \<and> fs_synced_entries v = fs_synced_entries w
     \<and> fs_next v = fs_next w \<and> fs_locks v = fs_locks w"
  by (auto simp: write_all_def Let_def split: list.splits sys.splits)

lemma write_all_Err:
  "write_all i b w = (Err e, v) \<Longrightarrow>
     (\<exists>n. fs_data v = (fs_data w)(i := fs_data w i @ take n b)) \<and> fs_entries v = fs_entries w
     \<and> fs_synced v = fs_synced w \<and> fs_synced_entries v = fs_synced_entries w
     \<and> fs_next v = fs_next w \<and> fs_locks v = fs_locks w"
  by (auto simp: write_all_def Let_def split: list.splits sys.splits intro: exI [of _ 0])

lemma sync_file_Ok:
  "sync_file i w = (Ok u, v) \<Longrightarrow>
     fs_data v = fs_data w \<and> fs_entries v = fs_entries w
     \<and> fs_synced v = (fs_synced w)(i := fs_data w i)
     \<and> fs_synced_entries v = fs_synced_entries w \<and> fs_next v = fs_next w \<and> fs_locks v = fs_locks w"
  unfolding sync_file_def by (drule attempt_Ok) auto

lemma sync_file_Err:
  "sync_file i w = (Err e, v) \<Longrightarrow> same_files w v \<and> fs_locks v = fs_locks w"
  unfolding sync_file_def by (drule attempt_Err) (auto simp: same_files_def)

lemma set_len_0_Ok:
  "set_len_0 i w = (Ok u, v) \<Longrightarrow>
     fs_data v = (fs_data w)(i := []) \<and> fs_entries v = fs_entries w \<and> fs_synced v = fs_synced w
     \<and> fs_synced_entries v = fs_synced_entries w \<and> fs_next v = fs_next w \<and> fs_locks v = fs_locks w"
  unfolding set_len_0_def by (drule attempt_Ok) auto

lemma set_len_0_Err:
  "set_len_0 i w = (Err e, v) \<Longrightarrow> same_files w v \<and> fs_locks v = fs_locks w"
  unfolding set_len_0_def by (drule attempt_Err) (auto simp: same_files_def)

lemma open_truncate_Ok:
  assumes "open_truncate p w = (Ok i, v)"
  shows "fs_entries v = (fs_entries w)(p \<mapsto> i) \<and> fs_data v = (fs_data w)(i := [])
       \<and> (\<forall>j. j \<noteq> i \<longrightarrow> fs_synced v j = fs_synced w j)
       \<and> fs_synced_entries v = fs_synced_entries w \<and> fs_locks v = fs_locks w
       \<and> (fs_entries w p = Some i \<and> fs_next v = fs_next w
          \<or> fs_entries w p = None \<and> i = fs_next w \<and> fs_next v = Suc (fs_next w))"
  using assms unfolding open_truncate_def
  by (auto dest!: attempt_Ok split: option.splits simp: fun_upd_idem)

lemma open_truncate_Err:
  "open_truncate p w = (Err e, v) \<Longrightarrow> same_files w v \<and> fs_locks v = fs_locks w"
  unfolding open_truncate_def
  by (drule attempt_Err) (auto simp: same_files_def split: option.splits)

lemma fs_rename_Ok:
  "fs_rename a b w = (Ok u, v) \<Longrightarrow>
     fs_entries v = (fs_entries w)(a := None, b := fs_entries w a) \<and> fs_data v = fs_data w
     \<and> fs_synced v = fs_synced w \<and> fs_synced_entries v = fs_synced_entries w
     \<and> fs_next v = fs_next w \<and> fs_locks v = fs_locks w"
  unfolding fs_rename_def by (drule attempt_Ok) (auto split: option.splits)

lemma fs_rename_Err:
  "fs_rename a b w = (Err e, v) \<Longrightarrow> same_files w v \<and> fs_locks v = fs_locks w"
  unfolding fs_rename_def by (drule attempt_Err) (auto simp: same_files_def split: option.splits)

lemma sync_dir_result:
  "sync_dir d w = (r, v) \<Longrightarrow>
     fs_entries v = fs_entries w \<and> fs_data v = fs_data w \<and> fs_synced v = fs_synced w
     \<and> fs_next v = fs_next w \<and> fs_locks v = fs_locks w
     \<and> (is_ok r \<longrightarrow> fs_synced_entries v =
          (\<lambda>p. if path_parent p = d then fs_entries w p else fs_synced_entries w p))
     \<and> (\<not> is_ok r \<longrightarrow> fs_synced_entries v = fs_synced_entries w)"
  unfolding sync_dir_def
  by (cases r) (auto dest!: attempt_Ok attempt_Err)

lemma open_dir_result: "open_dir d w = (r, v) \<Longrightarrow> same_files w v \<and> fs_locks v = fs_locks w"
  unfolding open_dir_def by (cases r) (auto dest!: attempt_Ok attempt_Err simp: same_files_def)

lemma sync_parent_dir_result:
  assumes "sync_parent_dir p w = (r, v)"
  shows "fs_entries v = fs_entries w \<and> fs_data v = fs_data w \<and> fs_synced v = fs_synced w
       \<and> fs_next v = fs_next w \<and> fs_locks v = fs_locks w
       \<and> (r = Ok () \<and> path_parent p \<noteq> [] \<longrightarrow> fs_synced_entries v p = fs_entries w p)"
proof (cases "path_parent p = []")
  case True
  with assms show ?thesis by (simp add: sync_parent_dir_def)
next
  case False
  with assms consider (dir) e where "open_dir (path_parent p) w = (Err e, v)" "r = Err e"
    | (sync) u w1 where "open_dir (path_parent p) w = (Ok u, w1)"
        "sync_dir (path_parent p) w1 = (r, v)"
    by (cases "open_dir (path_parent p) w"; cases "fst (open_dir (path_parent p) w)")
       (auto simp: sync_parent_dir_def)
  then show ?thesis
  proof cases
    case dir
    with open_dir_result [OF dir(1)] show ?thesis by (simp add: same_files_def)
  next
    case sync
    from open_dir_result [OF sync(1)] sync_dir_result [OF sync(2)]
    show ?thesis by (auto simp: same_files_def)
  qed
qed

lemma sync_parent_dir_entries:
  "sync_parent_dir p w = (r, v) \<Longrightarrow>
     fs_synced_entries v q = fs_synced_entries w q \<or> fs_synced_entries v q = fs_entries w q"
  by (cases r)
     (auto simp: sync_parent_dir_def and_then_eq_Ok and_then_eq_Err same_files_def
       dest!: open_dir_result sync_dir_result split: if_splits)

lemma open_locked_append_Ok:
  assumes "open_locked_append p w = (Ok i, v)"
  shows "i \<notin> fs_locks w \<and> fs_locks v = insert i (fs_locks w)
       \<and> (\<forall>j. fs_entries w p = Some j \<longrightarrow> i = j \<and> same_files w v)
       \<and> (fs_entries w p = None \<longrightarrow> i = fs_next w \<and> fs_entries v = (fs_entries w)(p \<mapsto> i)
            \<and> fs_data v = (fs_data w)(i := []) \<and> fs_synced v = (fs_synced w)(i := [])
            \<and> fs_synced_entries v = fs_synced_entries w \<and> fs_next v = Suc (fs_next w))"
proof -
  from assms obtain w1 where o: "open_append p w = (Ok i, w1)"
    and l: "try_lock_exclusive i w1 = (Ok (), v)"
    unfolding open_locked_append_def and_then_eq_Ok by (auto simp: apfst_eq_iff)
  from try_lock_exclusive_Ok [OF l] have v: "i \<notin> fs_locks w1" "same_files w1 v"
    "fs_locks v = insert i (fs_locks w1)" by auto
  show ?thesis
  proof (cases "fs_entries w p")
    case None
    with open_append_new [OF o] v show ?thesis by (simp add: same_files_def)
  next
    case (Some j)
    with open_append_existing [OF o Some] v show ?thesis by (auto intro: same_files_trans)
  qed
qed

lemma open_locked_append_locked:
  assumes "fs_entries w p = Some i" and "i \<in> fs_locks w"
  shows "\<not> is_ok (fst (open_locked_append p w))"
proof
  assume "is_ok (fst (open_locked_append p w))"
  then obtain j v where "open_locked_append p w = (Ok j, v)"
    by (cases "open_locked_append p w") (auto simp: is_ok_iff)
  from open_locked_append_Ok [OF this] assms show False by auto
qed

lemma open_locked_append_Err_existing:
  assumes "open_locked_append p w = (Err e, v)" and "fs_entries w p = Some i"
  shows "same_files w v \<and> fs_locks v = fs_locks w"
proof -
  consider "open_append p w = (Err e, v)"
    | w1 j e' where "open_append p w = (Ok j, w1)" "try_lock_exclusive j w1 = (Err e', v)"
    using assms(1) unfolding open_locked_append_def and_then_eq_Err
    by (auto simp: apfst_eq_iff)
  then show ?thesis
  proof cases
    case 1
    from open_append_existing [OF 1 assms(2)] show ?thesis by simp
  next
    case 2
    from open_append_existing [OF 2(1) assms(2)] try_lock_exclusive_Err [OF 2(2)]
    show ?thesis by (auto intro: same_files_trans)
  qed
qed

end
