(* ===== verification/Retention.thy ===== *)
theory Retention
  imports Event_Model
begin

text \<open>
  The retention policies of \<open>crates/triggerlane-storage/src/lib.rs\<close>: the operator's
  \<open>ManualRetention\<close>, the automatic \<open>AutoRetention\<close>, and the pure functions that select the records
  to keep. The size of a record is the length of its \<open>serde_json\<close> encoding, so the encoder is a
  parameter.
\<close>

subsection \<open>Data\<close>

datatype manual_retention = OlderThan timestamp | KeepMostRecent nat

record auto_retention =
  delivered_grace :: "chrono_duration option"
  max_age :: "chrono_duration option"
  max_count :: "nat option"
  max_bytes :: "nat option"

record dead_trigger_record =
  dt_event :: event_envelope
  dt_trigger_name :: string
  dt_error :: string

type_synonym 'a encoder = "'a \<Rightarrow> (bytes, string) result"

subsection \<open>Operations\<close>

definition keep :: "manual_retention \<Rightarrow> 'a list \<Rightarrow> ('a \<Rightarrow> timestamp) \<Rightarrow> 'a list" where
  "keep policy items stamp = (case policy of
     OlderThan cutoff \<Rightarrow> filter (\<lambda>item. stamp item \<ge> cutoff) items
   | KeepMostRecent mx \<Rightarrow> drop (length items - mx) items)"

definition unbounded :: auto_retention where
  "unbounded = \<lparr>delivered_grace = None, max_age = None, max_count = None, max_bytes = None\<rparr>"

definition is_unbounded :: "auto_retention \<Rightarrow> bool" where
  "is_unbounded p \<longleftrightarrow>
     delivered_grace p = None \<and> max_age p = None \<and> max_count p = None \<and> max_bytes p = None"

definition serialized_len :: "'a encoder \<Rightarrow> 'a \<Rightarrow> nat" where
  "serialized_len enc r = (case enc r of Ok b \<Rightarrow> length b + 1 | Err _ \<Rightarrow> 0)"

text \<open>The loop over \<open>kept.iter().enumerate().rev()\<close>: its state is the remaining budget and
  \<open>first_kept\<close>.\<close>

fun byte_walk :: "'a encoder \<Rightarrow> nat \<Rightarrow> nat \<Rightarrow> (nat \<times> 'a) list \<Rightarrow> nat" where
  "byte_walk enc budget first_kept [] = first_kept"
| "byte_walk enc budget first_kept ((index, record) # rest) =
     (if serialized_len enc record > budget then first_kept
      else byte_walk enc (budget - serialized_len enc record) index rest)"

definition apply_size_bounds :: "'a encoder \<Rightarrow> 'a list \<Rightarrow> auto_retention \<Rightarrow> 'a list" where
  "apply_size_bounds enc kept policy =
     (let kept = (case max_count policy of
                    Some mx \<Rightarrow> if length kept > mx then drop (length kept - mx) kept else kept
                  | None \<Rightarrow> kept)
      in case max_bytes policy of
           None \<Rightarrow> kept
         | Some budget \<Rightarrow>
             drop (byte_walk enc budget (length kept) (rev (List.enumerate 0 kept))) kept)"

definition retain_events ::
  "event_envelope encoder \<Rightarrow> event_envelope list \<Rightarrow> event_id set \<Rightarrow> auto_retention \<Rightarrow> timestamp
     \<Rightarrow> event_envelope list" where
  "retain_events enc events delivered policy now =
     (let kept = filter (\<lambda>event.
            let age = now - ev_timestamp event in
            if (case max_age policy of Some m \<Rightarrow> age > m | None \<Rightarrow> False) then False
            else if (case delivered_grace policy of
                       Some grace \<Rightarrow> ev_id event \<in> delivered \<and> age > grace
                     | None \<Rightarrow> False) then False
            else True) events
      in apply_size_bounds enc kept policy)"

definition retain_dead_triggers ::
  "dead_trigger_record encoder \<Rightarrow> dead_trigger_record list \<Rightarrow> auto_retention \<Rightarrow> timestamp
     \<Rightarrow> dead_trigger_record list" where
  "retain_dead_triggers enc records policy now =
     (let kept = filter (\<lambda>record. case max_age policy of
            None \<Rightarrow> True
          | Some mx \<Rightarrow> now - ev_timestamp (dt_event record) \<le> mx) records
      in apply_size_bounds enc kept policy)"

subsection \<open>Specification\<close>

text \<open>What the size bounds promise: the result fits both bounds.\<close>

definition within_size_bounds :: "'a encoder \<Rightarrow> auto_retention \<Rightarrow> 'a list \<Rightarrow> bool" where
  "within_size_bounds enc policy xs \<longleftrightarrow>
     (case max_count policy of None \<Rightarrow> True | Some m \<Rightarrow> length xs \<le> m)
     \<and> (case max_bytes policy of
          None \<Rightarrow> True | Some b \<Rightarrow> sum_list (map (serialized_len enc) xs) \<le> b)"

definition longest_fitting_suffix ::
  "'a encoder \<Rightarrow> auto_retention \<Rightarrow> 'a list \<Rightarrow> 'a list \<Rightarrow> bool" where
  "longest_fitting_suffix enc policy xs ks \<longleftrightarrow>
     suffix ks xs \<and> within_size_bounds enc policy ks
     \<and> (\<forall>ys. suffix ys xs \<and> within_size_bounds enc policy ys \<longrightarrow> suffix ys ks)"

text \<open>An event outlives the time bounds: not past \<open>max_age\<close>, and not a delivered one past the
  grace window.\<close>

definition event_alive :: "auto_retention \<Rightarrow> event_id set \<Rightarrow> timestamp \<Rightarrow> event_envelope \<Rightarrow> bool" where
  "event_alive policy delivered now e \<longleftrightarrow>
     (\<forall>m. max_age policy = Some m \<longrightarrow> now - ev_timestamp e \<le> m)
     \<and> (\<forall>g. delivered_grace policy = Some g \<and> ev_id e \<in> delivered \<longrightarrow> now - ev_timestamp e \<le> g)"

subsection \<open>Lemmas: the byte budget\<close>

fun fit :: "('a \<Rightarrow> nat) \<Rightarrow> nat \<Rightarrow> 'a list \<Rightarrow> 'a list" where
  "fit sz b [] = []"
| "fit sz b (x # xs) = (if sz x > b then [] else x # fit sz (b - sz x) xs)"

lemma byte_walk_fit:
  "drop (byte_walk enc b (length ys) (rev (List.enumerate 0 ys))) (ys @ zs) =
     rev (fit (serialized_len enc) b (rev ys)) @ zs"
proof (induction ys arbitrary: b zs rule: rev_induct)
  case (snoc y ys)
  have e: "rev (List.enumerate 0 (ys @ [y])) = (length ys, y) # rev (List.enumerate 0 ys)"
    by (simp add: enumerate_append_eq)
  show ?case
    using snoc.IH [of "b - serialized_len enc y" "y # zs"] by (simp add: e)
qed simp

lemma fit_prefix: "prefix (fit sz b xs) xs"
  by (induction xs arbitrary: b) auto

lemma fit_budget: "sum_list (map sz (fit sz b xs)) \<le> b"
proof (induction xs arbitrary: b)
  case (Cons x xs)
  from Cons.IH [of "b - sz x"] show ?case
    by (cases "b < sz x") (simp, simp add: not_less le_diff_conv2 add.commute)
qed simp

lemma fit_longest: "prefix ys xs \<Longrightarrow> sum_list (map sz ys) \<le> b \<Longrightarrow> prefix ys (fit sz b xs)"
proof (induction xs arbitrary: ys b)
  case (Cons x xs)
  show ?case
  proof (cases ys)
    case (Cons y zs)
    with Cons.prems have "y = x" "prefix zs xs" "sum_list (map sz zs) \<le> b - sz x" "sz x \<le> b"
      by auto
    with Cons.IH Cons show ?thesis by auto
  qed simp
qed simp

lemma sum_list_map_rev: "sum_list (map f (rev xs)) = sum_list (map (f :: 'a \<Rightarrow> nat) xs)"
  by (simp flip: rev_map)

lemma rev_fit_longest_suffix:
  "suffix (rev (fit sz b (rev xs))) xs
   \<and> sum_list (map sz (rev (fit sz b (rev xs)))) \<le> b
   \<and> (\<forall>ys. suffix ys xs \<and> sum_list (map sz ys) \<le> b \<longrightarrow> suffix ys (rev (fit sz b (rev xs))))"
  using fit_prefix [of sz b "rev xs"] fit_budget [of sz b "rev xs"]
    fit_longest [of "rev _" "rev xs" sz b]
  by (auto simp: suffix_to_prefix sum_list_map_rev)

lemma suffix_drop_length: "suffix ys xs \<Longrightarrow> length ys \<le> n \<Longrightarrow> suffix ys (drop (length xs - n) xs)"
  by (auto simp: suffix_def)

lemma apply_size_bounds_longest:
  "longest_fitting_suffix enc policy xs (apply_size_bounds enc xs policy)"
proof -
  define cs where "cs = (case max_count policy of
      Some mx \<Rightarrow> if length xs > mx then drop (length xs - mx) xs else xs | None \<Rightarrow> xs)"
  have cs: "suffix cs xs" "case max_count policy of None \<Rightarrow> True | Some m \<Rightarrow> length cs \<le> m"
    by (auto simp: cs_def suffix_drop split: option.splits)
  have cs_max: "suffix ys cs"
    if "suffix ys xs" "case max_count policy of None \<Rightarrow> True | Some m \<Rightarrow> length ys \<le> m" for ys
    using that by (auto simp: cs_def suffix_drop_length split: option.splits)
  show ?thesis
  proof (cases "max_bytes policy")
    case None
    then have "apply_size_bounds enc xs policy = cs"
      by (simp add: apply_size_bounds_def cs_def)
    then show ?thesis
      using None cs cs_max by (auto simp: longest_fitting_suffix_def within_size_bounds_def)
  next
    case (Some b)
    let ?ks = "rev (fit (serialized_len enc) b (rev cs))"
    have eq: "apply_size_bounds enc xs policy = ?ks"
      using Some byte_walk_fit [of enc b cs "[]"] by (simp add: apply_size_bounds_def cs_def)
    note fit = rev_fit_longest_suffix [of "serialized_len enc" b cs]
    from fit have "length ?ks \<le> length cs" by (auto dest: suffix_length_le)
    with Some cs fit have "suffix ?ks xs" "within_size_bounds enc policy ?ks"
      by (auto simp: within_size_bounds_def intro: suffix_order.trans split: option.splits)
    moreover have "suffix ys ?ks" if "suffix ys xs" "within_size_bounds enc policy ys" for ys
      using that Some cs_max fit by (auto simp: within_size_bounds_def)
    ultimately show ?thesis by (simp add: eq longest_fitting_suffix_def)
  qed
qed

lemma longest_fitting_suffix_whole:
  "longest_fitting_suffix enc policy xs ks \<Longrightarrow> within_size_bounds enc policy xs \<Longrightarrow> ks = xs"
  by (meson longest_fitting_suffix_def suffix_order.antisym suffix_order.refl)

subsection \<open>Lemmas: the selections\<close>

lemma retain_events_eq:
  "retain_events enc events delivered policy now =
     apply_size_bounds enc (filter (event_alive policy delivered now) events) policy"
proof -
  have "(let age = now - ev_timestamp e in
          if (case max_age policy of Some m \<Rightarrow> age > m | None \<Rightarrow> False) then False
          else if (case delivered_grace policy of
                     Some grace \<Rightarrow> ev_id e \<in> delivered \<and> age > grace | None \<Rightarrow> False) then False
          else True) = event_alive policy delivered now e" for e
    by (auto simp: event_alive_def Let_def not_less split: option.splits)
  then show ?thesis by (simp add: retain_events_def)
qed

lemma apply_size_bounds_suffix: "suffix (apply_size_bounds enc xs policy) xs"
  using apply_size_bounds_longest [of enc policy xs] by (simp add: longest_fitting_suffix_def)

lemma retain_events_subseq: "subseq (retain_events enc events delivered policy now) events"
  unfolding retain_events_eq by (rule suffix_imp_subseq_filter) (rule apply_size_bounds_suffix)

lemma retain_dead_triggers_subseq: "subseq (retain_dead_triggers enc records policy now) records"
  unfolding retain_dead_triggers_def Let_def
  by (rule suffix_imp_subseq_filter) (rule apply_size_bounds_suffix)

lemma apply_size_bounds_unbounded:
  "max_count p = None \<Longrightarrow> max_bytes p = None \<Longrightarrow> apply_size_bounds enc xs p = xs"
  by (simp add: apply_size_bounds_def)

lemma retain_events_unbounded: "is_unbounded p \<Longrightarrow> retain_events enc events d p now = events"
  by (simp add: is_unbounded_def retain_events_eq apply_size_bounds_unbounded event_alive_def)

lemma retain_dead_triggers_unbounded:
  "is_unbounded p \<Longrightarrow> retain_dead_triggers enc records p now = records"
  by (simp add: is_unbounded_def retain_dead_triggers_def apply_size_bounds_unbounded)

lemma keep_subseq: "subseq (keep policy items stamp) items"
  by (cases policy) (auto simp: keep_def suffix_drop suffix_imp_subseq)

lemma keep_length: "length (keep (KeepMostRecent n) items stamp) = min n (length items)"
  by (simp add: keep_def)

subsection \<open>Properties\<close>

text \<open>C20: automatic retention keeps exactly the longest run of most recent events, among those
  the time bounds leave alive, whose number is at most \<open>max_count\<close> and whose encoded size is at
  most \<open>max_bytes\<close>; an event is alive when it is not older than \<open>max_age\<close> and, if it is delivered,
  not older than the grace window.\<close>

theorem retain_events_longest:
  "longest_fitting_suffix enc policy (filter (event_alive policy delivered now) events)
     (retain_events enc events delivered policy now)"
  unfolding retain_events_eq by (rule apply_size_bounds_longest)

text \<open>Automatic retention drops an undelivered event only at a hard bound: an event that is
  not delivered and is not kept was older than \<open>max_age\<close>, or the events still alive were more
  than \<open>max_count\<close>, or their encodings were more than \<open>max_bytes\<close>.\<close>

theorem retain_events_drops_undelivered_only_at_hard_bound:
  assumes "e \<in> set events" and "ev_id e \<notin> delivered"
    and "e \<notin> set (retain_events enc events delivered policy now)"
  shows "(\<exists>m. max_age policy = Some m \<and> now - ev_timestamp e > m)
       \<or> (\<exists>m. max_count policy = Some m
              \<and> length (filter (event_alive policy delivered now) events) > m)
       \<or> (\<exists>b. max_bytes policy = Some b
              \<and> sum_list (map (serialized_len enc)
                            (filter (event_alive policy delivered now) events)) > b)"
proof (rule ccontr)
  assume neg: "\<not> ?thesis"
  let ?F = "filter (event_alive policy delivered now) events"
  from neg have "within_size_bounds enc policy ?F"
    by (auto simp: within_size_bounds_def not_less split: option.splits)
  then have "retain_events enc events delivered policy now = ?F"
    unfolding retain_events_eq
    by (rule longest_fitting_suffix_whole [OF apply_size_bounds_longest])
  moreover from neg assms(1,2) have "e \<in> set ?F"
    by (auto simp: event_alive_def not_less)
  ultimately show False using assms(3) by simp
qed

theorem retain_events_drops_undelivered_only_at_hard_bound_witness:
  "(\<exists>m. max_count \<lparr>delivered_grace = None, max_age = None, max_count = Some 1, max_bytes = None\<rparr>
         = Some m
       \<and> length (filter
           (event_alive \<lparr>delivered_grace = None, max_age = None, max_count = Some 1, max_bytes = None\<rparr>
              {} 9)
           [envelope_new (EventId 1) 0 Http ''t'' [], envelope_new (EventId 2) 5 Http ''t'' []]) > m)"
proof -
  let ?p = "\<lparr>delivered_grace = None, max_age = None, max_count = Some 1, max_bytes = None\<rparr>"
  let ?es = "[envelope_new (EventId 1) 0 Http ''t'' [], envelope_new (EventId 2) 5 Http ''t'' []]"
  have "envelope_new (EventId 1) 0 Http ''t'' []
          \<notin> set (retain_events (\<lambda>e. Ok (ev_payload e)) ?es {} ?p 9)"
    by (simp add: retain_events_eq apply_size_bounds_def event_alive_def envelope_new_def)
  with retain_events_drops_undelivered_only_at_hard_bound
    [of "envelope_new (EventId 1) 0 Http ''t'' []" ?es "{}" "\<lambda>e. Ok (ev_payload e)" ?p 9]
  show ?thesis by auto
qed

text \<open>A policy with a grace for delivered events only.\<close>

definition no_hard_bounds :: "auto_retention \<Rightarrow> bool" where
  "no_hard_bounds p \<longleftrightarrow> max_age p = None \<and> max_count p = None \<and> max_bytes p = None"

lemma retain_events_no_hard_bounds:
  "no_hard_bounds p \<Longrightarrow> e \<in> set es \<Longrightarrow> ev_id e \<notin> d \<Longrightarrow> e \<in> set (retain_events enc es d p now)"
  by (auto simp: no_hard_bounds_def retain_events_def apply_size_bounds_def Let_def split: option.splits)

end
