(* ===== verification/Jsonl_Store.thy ===== *)
theory Jsonl_Store
  imports Disk Retention
begin

text \<open>
  \<open>JsonlStore\<close> of \<open>crates/triggerlane-storage/src/lib.rs\<close>, the durable append-only file of one JSON
  record per line behind the event store, the delivered-ids journal and the dead-trigger queue:
  \<open>read_jsonl\<close>, \<open>compact_jsonl\<close> and the store's methods over the file system of theory \<open>Disk\<close>.
  \<open>serde_json\<close> is a parameter, a \<open>codec\<close>. What the store relies on is \<open>codec_ok\<close>, per record: the
  encoding exists, decodes to the record, is valid UTF-8, holds no control character (JSON escapes
  them) and does not start with white space; and \<open>codec_torn\<close>: a proper prefix of an encoding does
  not decode.
\<close>

subsection \<open>Data\<close>

record 'a codec =
  to_vec :: "'a encoder"
  from_str :: "string \<Rightarrow> ('a, string) result"

record 'a jsonl_store =
  js_path :: string
  js_records :: "'a list"
  js_file :: nat

type_synonym 'a jsonl = "'a jsonl_store \<times> fs"

subsection \<open>Reading and compacting a file\<close>

definition json_line_error :: "string \<Rightarrow> nat \<Rightarrow> string \<Rightarrow> io_error" where
  "json_line_error p index e = IoError InvalidData
     (''invalid JSON in '' @ p @ '' on line '' @ show_nat (index + 1) @ '': '' @ e)"

fun parse_lines ::
  "'a codec \<Rightarrow> string \<Rightarrow> bool \<Rightarrow> (nat \<times> string) list \<Rightarrow> ('a list, io_error) result" where
  "parse_lines c p ends_with_newline [] = Ok []"
| "parse_lines c p ends_with_newline ((index, line) # rest) =
     (case from_str c line of
        Ok record \<Rightarrow>
          (case parse_lines c p ends_with_newline rest of
             Ok records \<Rightarrow> Ok (record # records)
           | Err e \<Rightarrow> Err e)
      | Err e \<Rightarrow>
          if rest = [] \<and> \<not> ends_with_newline then Ok []
          else Err (json_line_error p index e))"

definition parse_jsonl :: "'a codec \<Rightarrow> string \<Rightarrow> bytes \<Rightarrow> ('a list, io_error) result" where
  "parse_jsonl c p b =
     (let ends_with_newline = (b \<noteq> [] \<and> last b = newline)
      in if \<not> from_utf8 b then Err (IoError InvalidData (''invalid UTF-8 in '' @ p @ '': '' @ utf8_error_to_string b))
         else parse_lines c p ends_with_newline
                (filter (\<lambda>(_, line). str_trim line \<noteq> []) (List.enumerate 0 (str_lines b))))"

definition read_jsonl :: "'a codec \<Rightarrow> string \<Rightarrow> fs \<Rightarrow> ('a list, io_error) result \<times> fs" where
  "read_jsonl c p w =
     (case fs_read p w of
        (Err e, w) \<Rightarrow> if io_kind e = NotFound then (Ok [], w) else (Err e, w)
      | (Ok b, w) \<Rightarrow> (parse_jsonl c p b, w))"

fun write_items :: "'a encoder \<Rightarrow> nat \<Rightarrow> 'a list \<Rightarrow> fs \<Rightarrow> (unit, io_error) result \<times> fs" where
  "write_items enc i [] w = (Ok (), w)"
| "write_items enc i (item # rest) w =
     (case enc item of
        Err e \<Rightarrow> (Err (IoError Other e), w)
      | Ok encoded \<Rightarrow>
          and_then (write_all i encoded w) (\<lambda>_ w.
          and_then (write_all i [newline] w) (\<lambda>_ w. write_items enc i rest w)))"

text \<open>The block of \<open>compact_jsonl\<close> that writes and syncs the sibling temporary file.\<close>

definition write_compacted ::
  "'a encoder \<Rightarrow> string \<Rightarrow> 'a list \<Rightarrow> fs \<Rightarrow> (unit, io_error) result \<times> fs" where
  "write_compacted enc tmp kept w =
     and_then (open_truncate tmp w) (\<lambda>i w.
     and_then (write_items enc i kept w) (\<lambda>_ w. sync_file i w))"

definition compact_jsonl ::
  "'a codec \<Rightarrow> string \<Rightarrow> 'a list \<Rightarrow> fs \<Rightarrow> (nat, io_error) result \<times> fs" where
  "compact_jsonl c p kept w =
     (let tmp = with_extension p ''compact'' in
      and_then (write_compacted (to_vec c) tmp kept w) (\<lambda>_ w.
      and_then (fs_rename tmp p w) (\<lambda>_ w.
      and_then (sync_parent_dir p w) (\<lambda>_ w.
      open_locked_append p w))))"

subsection \<open>The store's methods\<close>

definition jsonl_open :: "'a codec \<Rightarrow> string \<Rightarrow> fs \<Rightarrow> ('a jsonl_store, io_error) result \<times> fs" where
  "jsonl_open c p w =
     and_then (read_jsonl c p w) (\<lambda>records w.
       case path_exists p w of (existing, w) \<Rightarrow>
       let newly_created = \<not> existing in
       and_then (open_locked_append p w) (\<lambda>i w.
         let st = \<lparr>js_path = p, js_records = records, js_file = i\<rparr> in
         if newly_created
         then (case sync_parent_dir p w of
                 (Ok _, w) \<Rightarrow> (Ok st, w)
               | (Err e, w) \<Rightarrow> (Err e, drop_handle i w))
         else (Ok st, w)))"

definition jsonl_append :: "'a codec \<Rightarrow> 'a \<Rightarrow> 'a jsonl \<Rightarrow> (unit, io_error) result \<times> 'a jsonl" where
  "jsonl_append c record s =
     (case s of (st, w) \<Rightarrow>
      case to_vec c record of
        Err e \<Rightarrow> (Err (IoError Other e), (st, w))
      | Ok encoded \<Rightarrow>
          (case and_then (write_all (js_file st) (encoded @ [newline]) w)
                  (\<lambda>_ w. sync_file (js_file st) w) of
             (Err e, w) \<Rightarrow> (Err e, (st, w))
           | (Ok _, w) \<Rightarrow> (Ok (), (st\<lparr>js_records := js_records st @ [record]\<rparr>, w))))"

definition jsonl_all :: "'a jsonl \<Rightarrow> 'a list" where
  "jsonl_all s = js_records (fst s)"

definition jsonl_find :: "('a \<Rightarrow> bool) \<Rightarrow> 'a jsonl \<Rightarrow> 'a option" where
  "jsonl_find predicate s = List.find predicate (js_records (fst s))"

definition jsonl_len :: "'a jsonl \<Rightarrow> nat" where
  "jsonl_len s = length (js_records (fst s))"

definition jsonl_size_bytes :: "'a jsonl \<Rightarrow> nat" where
  "jsonl_size_bytes s =
     (case metadata_len (js_path (fst s)) (snd s) of Some n \<Rightarrow> n | None \<Rightarrow> 0)"

definition jsonl_drain :: "'a jsonl \<Rightarrow> ('a list, io_error) result \<times> 'a jsonl" where
  "jsonl_drain s =
     (case s of (st, w) \<Rightarrow>
      case and_then (set_len_0 (js_file st) w) (\<lambda>_ w. sync_file (js_file st) w) of
        (Err e, w) \<Rightarrow> (Err e, (st, w))
      | (Ok _, w) \<Rightarrow> (Ok (js_records st), (st\<lparr>js_records := []\<rparr>, w)))"

text \<open>The assignment \<open>*file = compact_jsonl(..)?; *records = kept\<close>: the old handle is dropped,
  which releases its lock.\<close>

definition jsonl_replace_all ::
  "'a codec \<Rightarrow> 'a list \<Rightarrow> 'a jsonl \<Rightarrow> (unit, io_error) result \<times> 'a jsonl" where
  "jsonl_replace_all c kept s =
     (case s of (st, w) \<Rightarrow>
      case compact_jsonl c (js_path st) kept w of
        (Err e, w) \<Rightarrow> (Err e, (st, w))
      | (Ok i, w) \<Rightarrow>
          (Ok (), (st\<lparr>js_file := i, js_records := kept\<rparr>, drop_handle (js_file st) w)))"

definition jsonl_retain ::
  "'a codec \<Rightarrow> ('a list \<Rightarrow> 'a list) \<Rightarrow> 'a jsonl \<Rightarrow> (nat, io_error) result \<times> 'a jsonl" where
  "jsonl_retain c keep_fn s =
     (let kept = keep_fn (js_records (fst s));
          removed = length (js_records (fst s)) - length kept
      in if removed > 0
         then and_then (jsonl_replace_all c kept s) (\<lambda>_ s. (Ok removed, s))
         else (Ok removed, s))"

definition jsonl_prune ::
  "'a codec \<Rightarrow> manual_retention \<Rightarrow> ('a \<Rightarrow> timestamp) \<Rightarrow> 'a jsonl
     \<Rightarrow> (nat, io_error) result \<times> 'a jsonl" where
  "jsonl_prune c policy stamp s =
     (let kept = keep policy (js_records (fst s)) stamp;
          removed = length (js_records (fst s)) - length kept
      in if removed > 0
         then and_then (jsonl_replace_all c kept s) (\<lambda>_ s. (Ok removed, s))
         else (Ok removed, s))"

subsection \<open>What the store relies on, and its invariant\<close>

definition codec_ok :: "'a codec \<Rightarrow> 'a \<Rightarrow> bool" where
  "codec_ok c r \<longleftrightarrow>
     (\<exists>b. to_vec c r = Ok b \<and> from_str c b = Ok r \<and> b \<noteq> [] \<and> ws_len b = 0
          \<and> (\<forall>x \<in> set b. 32 \<le> byte_val x) \<and> from_utf8 b)"

definition codec_torn :: "'a codec \<Rightarrow> 'a \<Rightarrow> bool" where
  "codec_torn c r \<longleftrightarrow>
     (\<forall>b n. to_vec c r = Ok b \<and> n < length b \<longrightarrow> (\<exists>e. from_str c (take n b) = Err e))"

definition encoding :: "'a codec \<Rightarrow> 'a \<Rightarrow> bytes" where
  "encoding c r = (case to_vec c r of Ok b \<Rightarrow> b | Err _ \<Rightarrow> [])"

definition render :: "'a codec \<Rightarrow> 'a list \<Rightarrow> bytes" where
  "render c rs = concat (map (\<lambda>l. l @ [newline]) (map (encoding c) rs))"

text \<open>The store is in step with the disk: it holds the lock on the inode its path names, the file
  is the rendering of its records, all of it on stable storage.\<close>

definition store_ok :: "'a codec \<Rightarrow> 'a jsonl \<Rightarrow> bool" where
  "store_ok c s \<longleftrightarrow>
     (case s of (st, w) \<Rightarrow>
        fs_ok w \<and> fs_entries w (js_path st) = Some (js_file st) \<and> js_file st \<in> fs_locks w
        \<and> fs_data w (js_file st) = render c (js_records st)
        \<and> fs_synced w (js_file st) = fs_data w (js_file st)
        \<and> (\<forall>r \<in> set (js_records st). codec_ok c r)
        \<and> with_extension (js_path st) ''compact'' \<noteq> js_path st)"

text \<open>The name of the file is on stable storage too.\<close>

definition entry_durable :: "'a jsonl \<Rightarrow> bool" where
  "entry_durable s \<longleftrightarrow> fs_synced_entries (snd s) (js_path (fst s)) = Some (js_file (fst s))"

subsection \<open>A concrete codec and store\<close>

text \<open>A small instance of the parameters, for runs on concrete data: strings between double quotes,
  without escapes.\<close>

definition quoted :: "string codec" where
  "quoted = \<lparr>to_vec = (\<lambda>s. Ok (CHR 0x22 # s @ [CHR 0x22])),
     from_str = (\<lambda>b. case b of
        [] \<Rightarrow> Err ''EOF''
      | q # t \<Rightarrow> if q = CHR 0x22 \<and> t \<noteq> [] \<and> last t = CHR 0x22 \<and> CHR 0x22 \<notin> set (butlast t)
                 then Ok (butlast t) else Err ''syntax'')\<rparr>"

definition demo_path :: string where
  "demo_path = ''d/s.jsonl''"

definition demo_st :: "string list \<Rightarrow> string jsonl_store" where
  "demo_st rs = \<lparr>js_path = demo_path, js_records = rs, js_file = 0\<rparr>"

definition demo_disk :: "bytes \<Rightarrow> bytes \<Rightarrow> nat set \<Rightarrow> sys list \<Rightarrow> fs" where
  "demo_disk synced written locks script =
     \<lparr>fs_entries = [demo_path \<mapsto> 0], fs_synced_entries = [demo_path \<mapsto> 0],
      fs_data = (\<lambda>_. [])(0 := written), fs_synced = (\<lambda>_. [])(0 := synced),
      fs_locks = locks, fs_next = 1, fs_script = script\<rparr>"

end
