(* ===== verification/Jsonl_Durability.thy ===== *)
theory Jsonl_Durability
  imports Jsonl_Store
begin

text \<open>
  What \<open>JsonlStore\<close> guarantees about the disk: reading back what was written, durability of an
  acknowledged append, recovery after a crash in the middle of an append, atomicity of a
  compaction, the single writer; and the runs in which the store does less than its comments say.
\<close>

subsection \<open>Reading back a rendered file\<close>

lemma codec_okE:
  assumes "codec_ok c r"
  obtains "to_vec c r = Ok (encoding c r)" "from_str c (encoding c r) = Ok r"
    "encoding c r \<noteq> []" "str_trim (encoding c r) \<noteq> []" "newline \<notin> set (encoding c r)"
    "carriage_return \<notin> set (encoding c r)" "from_utf8 (encoding c r)"
proof -
  from assms obtain b where b: "to_vec c r = Ok b" "from_str c b = Ok r" "b \<noteq> []" "ws_len b = 0"
      "\<forall>x \<in> set b. 32 \<le> byte_val x" "from_utf8 b"
    by (auto simp: codec_ok_def)
  have "newline \<notin> set b" "carriage_return \<notin> set b" using b(5) by fastforce+
  with b that show ?thesis by (simp add: encoding_def str_trim_not_blank)
qed

lemma render_simps [simp]:
  "render c [] = []"
  "render c (r # rs) = encoding c r @ newline # render c rs"
  "render c (rs @ qs) = render c rs @ render c qs"
  by (simp_all add: render_def)

lemma last_render: "rs \<noteq> [] \<Longrightarrow> last (render c rs) = newline"
  by (induction rs rule: rev_induct) auto

lemma parse_lines_records:
  "\<forall>r \<in> set rs. codec_ok c r \<Longrightarrow>
   parse_lines c p e (List.enumerate k (map (encoding c) rs) @ rest) =
     (case parse_lines c p e rest of Ok qs \<Rightarrow> Ok (rs @ qs) | Err x \<Rightarrow> Err x)"
  by (induction rs arbitrary: k) (auto elim!: codec_okE split: result.splits)

lemma filter_enumerate_encodings:
  "\<forall>r \<in> set rs. codec_ok c r \<Longrightarrow>
   filter (\<lambda>(_, l). str_trim l \<noteq> []) (List.enumerate k (map (encoding c) rs)) =
     List.enumerate k (map (encoding c) rs)"
  by (induction rs arbitrary: k) (auto elim!: codec_okE)

lemma parse_jsonl_render:
  assumes ok: "\<forall>r \<in> set rs. codec_ok c r" and t: "newline \<notin> set t"
  shows "parse_jsonl c p (render c rs @ t) =
     (if \<not> from_utf8 t then Err (IoError InvalidData (''invalid UTF-8 in '' @ p @ '': '' @ utf8_error_to_string (render c rs @ t)))
      else if str_trim t = [] then Ok rs
      else (case from_str c t of Ok r \<Rightarrow> Ok (rs @ [r]) | Err e \<Rightarrow> Ok rs))"
proof -
  let ?ls = "map (encoding c) rs"
  from ok have ls: "\<forall>l \<in> set ?ls. newline \<notin> set l \<and> carriage_return \<notin> set l"
    and utf: "\<forall>l \<in> set ?ls. from_utf8 l"
    by (auto elim: codec_okE)
  have lines: "str_lines (render c rs @ t) = ?ls @ (if t = [] then [] else [t])"
    unfolding render_def by (rule str_lines_file [OF ls t])
  have utf8: "from_utf8 (render c rs @ t) = from_utf8 t"
    unfolding render_def by (rule from_utf8_lines [OF utf])
  have last: "t \<noteq> [] \<Longrightarrow> last (render c rs @ t) \<noteq> newline"
    using t last_in_set by fastforce
  note recs = parse_lines_records [OF ok] parse_lines_records [OF ok, where rest = "[]"]
  show ?thesis
    unfolding parse_jsonl_def Let_def lines utf8
    using last
    by (auto simp: enumerate_append_eq filter_enumerate_encodings [OF ok] recs
        split: result.splits simp del: map_map)
qed

lemma parse_jsonl_render_exact:
  "\<forall>r \<in> set rs. codec_ok c r \<Longrightarrow> parse_jsonl c p (render c rs) = Ok rs"
  using parse_jsonl_render [of rs c "[]" p] by simp

lemma read_jsonl_no_script:
  "fs_script w = [] \<Longrightarrow> fs_entries w p = Some i \<Longrightarrow>
     read_jsonl c p w = (parse_jsonl c p (fs_data w i), w)"
  by (simp add: read_jsonl_def fs_read_def sys_simps)

lemma read_jsonl_files: "read_jsonl c p w = (r, v) \<Longrightarrow> same_files w v \<and> fs_locks v = fs_locks w"
  using fs_read_state [of p w]
  by (auto simp: read_jsonl_def same_files_def split: prod.splits result.splits if_splits)

lemma read_jsonl_Ok:
  assumes "read_jsonl c p w = (Ok rs, v)"
  shows "rs = [] \<or> (\<exists>i. fs_entries w p = Some i \<and> parse_jsonl c p (fs_data w i) = Ok rs)"
proof (cases "fs_read p w")
  case (Pair r u)
  show ?thesis
  proof (cases r)
    case (Ok b)
    with Pair fs_read_Ok [of p w b u] assms show ?thesis by (auto simp: read_jsonl_def)
  next
    case (Err e)
    with Pair assms show ?thesis by (simp add: read_jsonl_def split: if_splits)
  qed
qed

subsection \<open>Append\<close>

lemma jsonl_append_Ok:
  assumes "jsonl_append c r (st, w) = (Ok u, (st', w'))"
  shows "to_vec c r = Ok (encoding c r) \<and> st' = st\<lparr>js_records := js_records st @ [r]\<rparr>
       \<and> fs_data w' = (fs_data w)(js_file st := fs_data w (js_file st) @ encoding c r @ [newline])
       \<and> fs_synced w' (js_file st) = fs_data w' (js_file st)
       \<and> (\<forall>j. j \<noteq> js_file st \<longrightarrow> fs_synced w' j = fs_synced w j)
       \<and> fs_entries w' = fs_entries w \<and> fs_synced_entries w' = fs_synced_entries w
       \<and> fs_locks w' = fs_locks w \<and> fs_next w' = fs_next w"
proof (cases "to_vec c r")
  case (Ok b)
  with assms obtain w1 where wr: "write_all (js_file st) (b @ [newline]) w = (Ok (), w1)"
    and sy: "sync_file (js_file st) w1 = (Ok (), w')"
    and st': "st' = st\<lparr>js_records := js_records st @ [r]\<rparr>"
    by (auto simp: jsonl_append_def and_then_eq_Ok split: prod.splits result.splits)
  from write_all_Ok [OF wr] sync_file_Ok [OF sy] Ok st' show ?thesis
    by (auto simp: encoding_def)
qed (use assms in \<open>simp add: jsonl_append_def\<close>)

text \<open>A failing append leaves the memory alone and at most a torn line on the disk.\<close>

lemma jsonl_append_Err:
  assumes "jsonl_append c r (st, w) = (Err e, (st', w'))"
  shows "st' = st \<and> fs_entries w' = fs_entries w \<and> fs_synced w' = fs_synced w
       \<and> fs_synced_entries w' = fs_synced_entries w \<and> fs_locks w' = fs_locks w
       \<and> fs_next w' = fs_next w
       \<and> (\<exists>n. fs_data w' = (fs_data w)
            (js_file st := fs_data w (js_file st) @ take n (encoding c r @ [newline])))"
proof (cases "to_vec c r")
  case (Ok b)
  have enc: "encoding c r = b" using Ok by (simp add: encoding_def)
  from Ok assms consider "write_all (js_file st) (b @ [newline]) w = (Err e, w')"
    | w1 where "write_all (js_file st) (b @ [newline]) w = (Ok (), w1)"
        "sync_file (js_file st) w1 = (Err e, w')"
    by (auto simp: jsonl_append_def and_then_eq_Err split: prod.splits result.splits)
  then show ?thesis
  proof cases
    case 1
    from write_all_Err [OF 1] assms Ok show ?thesis
      by (auto simp: enc jsonl_append_def split: prod.splits result.splits)
  next
    case 2
    have st: "st' = st" using assms Ok by (auto simp: jsonl_append_def split: prod.splits result.splits)
    show ?thesis
      using write_all_Ok [OF 2(1)] sync_file_Err [OF 2(2)] st
      by (auto simp: same_files_def enc intro!: exI [of _ "Suc (length b)"])
  qed
next
  case (Err x)
  with assms show ?thesis by (auto simp: jsonl_append_def intro: exI [of _ 0])
qed

lemma jsonl_append_store_ok:
  assumes "store_ok c (st, w)" and "codec_ok c r"
    and "jsonl_append c r (st, w) = (Ok u, (st', w'))"
  shows "store_ok c (st', w')"
  using assms jsonl_append_Ok [OF assms(3)] by (auto simp: store_ok_def fs_ok_def)

subsection \<open>Compaction\<close>

lemma write_items_result:
  assumes "write_items (to_vec c) i items w = (r, v)"
  shows "fs_entries v = fs_entries w \<and> fs_synced v = fs_synced w
       \<and> fs_synced_entries v = fs_synced_entries w \<and> fs_locks v = fs_locks w
       \<and> fs_next v = fs_next w \<and> (\<forall>j. j \<noteq> i \<longrightarrow> fs_data v j = fs_data w j)
       \<and> (is_ok r \<longrightarrow> fs_data v i = fs_data w i @ render c items)"
  using assms
proof (induction items arbitrary: w)
  case (Cons x xs)
  show ?case
  proof (cases "to_vec c x")
    case (Ok b)
    from Cons.prems Ok consider
        (first) e where "write_all i b w = (Err e, v)" "r = Err e"
      | (second) e w1 where "write_all i b w = (Ok (), w1)"
          "write_all i [newline] w1 = (Err e, v)" "r = Err e"
      | (both) w1 w2 where "write_all i b w = (Ok (), w1)"
          "write_all i [newline] w1 = (Ok (), w2)" "write_items (to_vec c) i xs w2 = (r, v)"
      by (cases r) (auto simp: and_then_eq_Ok and_then_eq_Err)
    then show ?thesis
    proof cases
      case first
      with write_all_Err [OF first(1)] show ?thesis by auto
    next
      case second
      with write_all_Ok [OF second(1)] write_all_Err [OF second(2)] show ?thesis by auto
    next
      case both
      with Cons.IH [OF both(3)] write_all_Ok [OF both(1)] write_all_Ok [OF both(2)] Ok
      show ?thesis by (simp add: encoding_def)
    qed
  qed (use Cons.prems in auto)
qed simp

lemma write_compacted_result:
  assumes w: "fs_ok w" "fs_entries w p = Some f" "tmp \<noteq> p"
    and run: "write_compacted (to_vec c) tmp kept w = (r, v)"
  shows "fs_ok v \<and> fs_entries v p = Some f \<and> fs_data v f = fs_data w f
       \<and> fs_synced v f = fs_synced w f \<and> fs_synced_entries v = fs_synced_entries w
       \<and> fs_locks v = fs_locks w
       \<and> (is_ok r \<longrightarrow> (\<exists>i. i \<noteq> f \<and> fs_entries v tmp = Some i \<and> fs_data v i = render c kept
                          \<and> fs_synced v i = fs_data v i))"
proof (cases "\<exists>e. open_truncate tmp w = (Err e, v) \<and> r = Err e")
  case True
  with w show ?thesis by (auto dest!: open_truncate_Err simp: same_files_def fs_ok_def)
next
  case False
  with run obtain i w1 where o: "open_truncate tmp w = (Ok i, w1)"
    and rest: "and_then (write_items (to_vec c) i kept w1) (\<lambda>_ w. sync_file i w) = (r, v)"
    by (cases "open_truncate tmp w"; cases "fst (open_truncate tmp w)")
       (auto simp: write_compacted_def)
  note tr = open_truncate_Ok [OF o]
  have f: "f < fs_next w" using w(1,2) unfolding fs_ok_def by blast
  have i: "i \<noteq> f" using tr w f unfolding fs_ok_def by fastforce
  have ok1: "fs_ok w1" using tr w(1) unfolding fs_ok_def
    by (auto simp: less_Suc_eq split: if_splits)
  obtain r2 w2 where it: "write_items (to_vec c) i kept w1 = (r2, w2)" by force
  note wi = write_items_result [OF it]
  have ok2: "fs_ok w2" using ok1 wi by (simp add: fs_ok_def)
  show ?thesis
  proof (cases r2)
    case (Err e)
    with it rest have "r = Err e" "v = w2" by simp_all
    with ok2 wi tr w i show ?thesis by auto
  next
    case (Ok u)
    with it rest have sy: "sync_file i w2 = (r, v)" by simp
    show ?thesis
    proof (cases r)
      case r: (Ok u')
      note sf = sync_file_Ok [OF sy [unfolded r]]
      have "fs_ok v" using fs_ok_cong [OF ok2] sf by blast
      moreover have "fs_data v i = render c kept" "fs_synced v i = fs_data v i"
        using sf wi tr Ok by simp_all
      ultimately show ?thesis using sf wi tr w(2,3) i r by simp
    next
      case (Err e)
      note sf = sync_file_Err [OF sy [unfolded Err]]
      have "fs_ok v" using fs_ok_cong [OF ok2] sf by (simp add: same_files_def)
      then show ?thesis using sf wi tr w(2,3) i Err by (simp add: same_files_def)
    qed
  qed
qed

text \<open>The rest of the compaction, once the file is renamed over the store's path.\<close>

lemma publish_result:
  assumes w: "fs_ok w" "fs_entries w p = Some i"
    and run: "and_then (sync_parent_dir p w) (\<lambda>_ w. open_locked_append p w) = (r, v)"
  shows "fs_ok v \<and> fs_entries v p = Some i \<and> fs_data v = fs_data w \<and> fs_synced v = fs_synced w
       \<and> fs_locks w \<subseteq> fs_locks v
       \<and> (fs_synced_entries v p = fs_synced_entries w p \<or> fs_synced_entries v p = Some i)
       \<and> (\<forall>j. r = Ok j \<longrightarrow> j = i \<and> i \<in> fs_locks v
              \<and> (path_parent p \<noteq> [] \<longrightarrow> fs_synced_entries v p = Some i))"
proof -
  obtain r5 w5 where sd: "sync_parent_dir p w = (r5, w5)" by force
  note s5 = sync_parent_dir_result [OF sd] sync_parent_dir_entries [OF sd, of p]
  have ok5: "fs_ok w5" "fs_entries w5 p = Some i" using s5 w by (simp_all add: fs_ok_def)
  show ?thesis
  proof (cases r5)
    case (Err e)
    with sd run have "r = Err e" "v = w5" by simp_all
    with ok5 s5 w show ?thesis by auto
  next
    case r5: (Ok u)
    with sd run have op: "open_locked_append p w5 = (r, v)" by simp
    show ?thesis
    proof (cases r)
      case (Err e)
      from open_locked_append_Err_existing [OF op [unfolded Err] ok5(2)] ok5 s5 w Err
      show ?thesis by (auto simp: same_files_def fs_ok_def)
    next
      case r: (Ok j)
      from open_locked_append_Ok [OF op [unfolded r]] ok5 s5 w r5
      show ?thesis by (auto simp: same_files_def fs_ok_def r)
    qed
  qed
qed

text \<open>How a compaction of a healthy store can end: it fails before the rename and the path still
  names the old inode; or the path names a new inode that holds exactly the kept records, synced,
  and the compaction succeeds or fails there. The old inode keeps its contents in both.\<close>

lemma compact_jsonl_result:
  assumes ok: "store_ok c (st, w)"
    and run: "compact_jsonl c (js_path st) kept w = (r, v)"
  shows "fs_data v (js_file st) = fs_data w (js_file st)
       \<and> fs_synced v (js_file st) = fs_synced w (js_file st) \<and> fs_ok v \<and> js_file st \<in> fs_locks v
       \<and> ((\<exists>e. r = Err e) \<and> fs_entries v (js_path st) = Some (js_file st)
            \<and> fs_synced_entries v = fs_synced_entries w \<and> fs_locks v = fs_locks w
          \<or> (\<exists>i. i \<noteq> js_file st \<and> fs_entries v (js_path st) = Some i
               \<and> fs_data v i = render c kept \<and> fs_synced v i = fs_data v i
               \<and> (fs_synced_entries v (js_path st) = fs_synced_entries w (js_path st)
                  \<or> fs_synced_entries v (js_path st) = Some i)
               \<and> (\<forall>j. r = Ok j \<longrightarrow> j = i \<and> i \<in> fs_locks v \<and>
                    (path_parent (js_path st) \<noteq> [] \<longrightarrow> fs_synced_entries v (js_path st) = Some i))))"
proof -
  let ?p = "js_path st" and ?f = "js_file st" and ?tmp = "with_extension (js_path st) ''compact''"
  have w: "fs_ok w" "fs_entries w ?p = Some ?f" "?tmp \<noteq> ?p" "?f \<in> fs_locks w"
    using ok by (auto simp: store_ok_def)
  obtain r1 w1 where wc: "write_compacted (to_vec c) ?tmp kept w = (r1, w1)" by force
  note c1 = write_compacted_result [OF w(1-3) wc]
  show ?thesis
  proof (cases r1)
    case (Err e)
    with wc run have "r = Err e" "v = w1" by (simp_all add: compact_jsonl_def Let_def)
    with c1 w show ?thesis by auto
  next
    case r1: (Ok u)
    with c1 obtain i where i: "i \<noteq> ?f" "fs_entries w1 ?tmp = Some i" "fs_data w1 i = render c kept"
        "fs_synced w1 i = fs_data w1 i" by auto
    obtain r2 w2 where rn: "fs_rename ?tmp ?p w1 = (r2, w2)" by force
    show ?thesis
    proof (cases r2)
      case (Err e)
      with wc r1 rn run have "r = Err e" "v = w2" by (simp_all add: compact_jsonl_def Let_def)
      with fs_rename_Err [OF rn [unfolded Err]] c1 w show ?thesis
        by (auto simp: same_files_def fs_ok_def)
    next
      case r2: (Ok u2)
      note s2 = fs_rename_Ok [OF rn [unfolded r2]]
      have w2: "fs_ok w2" "fs_entries w2 ?p = Some i"
        using s2 c1 i w(3) unfolding fs_ok_def by (auto split: if_splits)
      from wc r1 rn r2 run
      have "and_then (sync_parent_dir ?p w2) (\<lambda>_ w. open_locked_append ?p w) = (r, v)"
        by (simp add: compact_jsonl_def Let_def)
      from publish_result [OF w2 this] s2 c1 i w show ?thesis by auto
    qed
  qed
qed

subsection \<open>A concrete codec and store\<close>

lemma quoted_ok:
  "CHR 0x22 \<notin> set s \<Longrightarrow> \<forall>x \<in> set s. 32 \<le> byte_val x \<and> byte_val x < 128 \<Longrightarrow> codec_ok quoted s"
  by (auto simp: codec_ok_def quoted_def butlast_append intro!: from_utf8_ascii ws_len_ascii)

lemma quoted_torn: "CHR 0x22 \<notin> set s \<Longrightarrow> codec_torn quoted s"
  unfolding codec_torn_def
proof (intro allI impI)
  fix b n
  assume s: "CHR 0x22 \<notin> set s" and b: "to_vec quoted s = Ok b \<and> n < length b"
  then have "b = CHR 0x22 # s @ [CHR 0x22]" "n \<le> Suc (length s)"
    by (auto simp: quoted_def)
  then have t: "take n b = take n (CHR 0x22 # s)" by (simp add: take_Cons')
  show "\<exists>e. from_str quoted (take n b) = Err e"
  proof (cases n)
    case (Suc m)
    have "last (take m s) \<noteq> CHR 0x22" if "take m s \<noteq> []"
      using s that by (metis in_set_takeD last_in_set)
    with t Suc show ?thesis by (auto simp: quoted_def)
  qed (simp add: t quoted_def)
qed

lemma demo_store_ok:
  "\<forall>r \<in> set rs. codec_ok quoted r \<Longrightarrow>
     store_ok quoted (demo_st rs, demo_disk (render quoted rs) (render quoted rs) {0} script)"
  by (auto simp: demo_st_def demo_disk_def store_ok_def fs_ok_def demo_path_def
      with_extension_def file_name_def file_stem_def)

lemma demo_entry_durable: "entry_durable (demo_st rs, demo_disk s b l script)"
  by (simp add: demo_st_def demo_disk_def entry_durable_def)

lemma demo_crash:
  "crash_contents s b f \<Longrightarrow> crash (demo_disk s b l script) (demo_disk f f {} [])"
  by (auto simp: crash_def demo_disk_def crash_contents_def)

lemma quoted_ab: "codec_ok quoted ''a''" "codec_ok quoted ''b''"
  by (auto intro!: quoted_ok)

lemma render_quoted:
  "render quoted [''a''] = CHR 0x22 # ''a'' @ [CHR 0x22, newline]"
  "render quoted [''b''] = CHR 0x22 # ''b'' @ [CHR 0x22, newline]"
  "encoding quoted ''b'' = CHR 0x22 # ''b'' @ [CHR 0x22]"
  "encoding quoted ''a'' = CHR 0x22 # ''a'' @ [CHR 0x22]"
  by (simp_all add: encoding_def quoted_def)

lemma demo_append_run:
  "jsonl_append quoted ''b'' (demo_st [''a''], demo_disk (render quoted [''a'']) (render quoted [''a'']) {0} [])
   = (Ok (), (demo_st [''a'', ''b''],
       demo_disk (render quoted [''a'', ''b'']) (render quoted [''a'', ''b'']) {0} []))"
  by (simp add: demo_st_def demo_disk_def jsonl_append_def write_all_def sync_file_def sys_simps
      Let_def quoted_def encoding_def)

lemmas demo_simps = demo_st_def demo_disk_def demo_path_def

subsection \<open>Crashes\<close>

lemma crash_entry_durable:
  "crash w v \<Longrightarrow> fs_entries w p = fs_synced_entries w p \<Longrightarrow> fs_entries v p = fs_entries w p"
  unfolding crash_def by metis

lemma crash_synced_data: "crash w v \<Longrightarrow> fs_synced w i = fs_data w i \<Longrightarrow> fs_data v i = fs_data w i"
  unfolding crash_def crash_contents_def by (metis prefix_order.antisym)

lemma crash_contents_append:
  assumes "crash_contents s (s @ take n x) f"
  shows "\<exists>m. f = s @ take m x"
proof -
  from assms consider "f = s" | "f = s @ take n x" | "prefix s f" "prefix f (s @ take n x)"
    by (auto simp: crash_contents_def)
  then show ?thesis
  proof cases
    case 3
    then obtain t where t: "f = s @ t" by (auto simp: prefix_def)
    with 3(2) have "prefix t (take n x)" by simp
    then have "t = take (length t) x"
      by (metis append_eq_conv_conj prefix_def take_is_prefix prefix_order.trans)
    with t show ?thesis by blast
  qed (auto intro: exI [of _ 0])
qed

text \<open>What a later process reads where an append was torn off: a tear between two characters is discarded, one
  inside a character is reported.\<close>

lemma read_torn_append:
  assumes ok: "\<forall>q \<in> set rs. codec_ok c q" "codec_ok c r" and torn: "codec_torn c r"
  shows "parse_jsonl c p (render c rs @ take m (encoding c r @ [newline])) \<in> {Ok rs, Ok (rs @ [r])}
     \<or> (\<exists>x. \<not> from_utf8 (take m (encoding c r)) \<and>
          parse_jsonl c p (render c rs @ take m (encoding c r @ [newline])) = Err (IoError InvalidData x))"
proof -
  let ?b = "encoding c r"
  from ok(2) obtain b: "to_vec c r = Ok ?b" "from_str c ?b = Ok r" "newline \<notin> set ?b"
    "str_trim ?b \<noteq> []" "from_utf8 ?b" by (elim codec_okE)
  show ?thesis
  proof (cases "m \<le> length ?b")
    case True
    then have t: "take m (?b @ [newline]) = take m ?b" by simp
    have nl: "newline \<notin> set (take m ?b)" using b(3) by (meson in_set_takeD)
    show ?thesis
    proof (cases "m = length ?b")
      case True
      with b show ?thesis unfolding t parse_jsonl_render [OF ok(1) nl] by simp
    next
      case False
      with \<open>m \<le> length ?b\<close> torn b(1) obtain e where "from_str c (take m ?b) = Err e"
        unfolding codec_torn_def by (metis le_neq_implies_less)
      then show ?thesis unfolding t parse_jsonl_render [OF ok(1) nl] by simp
    qed
  next
    case False
    then have "render c rs @ take m (?b @ [newline]) = render c (rs @ [r])" by simp
    then show ?thesis using parse_jsonl_render_exact [of "rs @ [r]" c p] ok by simp
  qed
qed

lemma reread_acknowledged:
  assumes "store_ok c (st, w)" and "entry_durable (st, w)" and "codec_ok c r"
    and "jsonl_append c r (st, w) = (Ok (), (st', w'))"
    and "crash w' v" and "fs_script v = []"
  shows "read_jsonl c (js_path st) v = (Ok (js_records st @ [r]), v)"
proof -
  note a = jsonl_append_Ok [OF assms(4)]
  have st': "store_ok c (st', w')" by (rule jsonl_append_store_ok [OF assms(1,3,4)])
  have e: "fs_entries v (js_path st) = Some (js_file st)"
    using crash_entry_durable [OF assms(5), of "js_path st"] a assms(1,2)
    by (simp add: store_ok_def entry_durable_def)
  have "fs_data v (js_file st) = render c (js_records st @ [r])"
    using crash_synced_data [OF assms(5), of "js_file st"] a assms(1) by (simp add: store_ok_def)
  with read_jsonl_no_script [OF assms(6) e, of c] st' parse_jsonl_render_exact [of "js_records st @ [r]" c] a
  show ?thesis by (simp add: store_ok_def)
qed

text \<open>C2: durable by acknowledgement. When \<open>append\<close> returns \<open>Ok\<close> the store is still in step with
  the disk, and whatever a power loss then keeps of the unsynced state, rereading the file yields
  the earlier records followed by the new one.\<close>

theorem append_durable:
  assumes "store_ok c (st, w)" and "entry_durable (st, w)" and "codec_ok c r"
    and "jsonl_append c r (st, w) = (Ok (), (st', w'))"
    and "crash w' v" and "fs_script v = []"
  shows "store_ok c (st', w')
       \<and> fst (read_jsonl c (js_path st) v) = Ok (js_records st @ [r])"
  using reread_acknowledged [OF assms] jsonl_append_store_ok [OF assms(1,3,4)] by simp

theorem append_durable_witness:
  "fst (read_jsonl quoted demo_path
     (demo_disk (render quoted [''a'', ''b'']) (render quoted [''a'', ''b'']) {} [])) = Ok [''a'', ''b'']"
  using append_durable [OF demo_store_ok demo_entry_durable _ demo_append_run demo_crash]
  by (simp add: quoted_ab demo_simps crash_contents_def)

text \<open>C3: crash recovery. Whatever happens to an append (any system call fails, the write stops
  after any number of bytes, the machine loses power at any point after it), rereading the file
  yields the earlier records, alone or followed by the whole new record: a torn last line is
  discarded and earlier records are never affected. The one exception is a write that stops inside a
  character of several bytes: the file is then reported as \<open>InvalidData\<close>; this cannot happen to a
  record whose encoding is ASCII. A failed append leaves the records in memory as they were.\<close>

theorem append_crash_atomic:
  assumes "store_ok c (st, w)" and "entry_durable (st, w)" and "codec_ok c r" and "codec_torn c r"
    and "jsonl_append c r (st, w) = (res, (st', w'))"
    and "crash w' v" and "fs_script v = []"
  shows "(fst (read_jsonl c (js_path st) v) \<in> {Ok (js_records st), Ok (js_records st @ [r])}
         \<or> (\<exists>n x. \<not> is_ok res \<and> \<not> from_utf8 (take n (encoding c r))
              \<and> fst (read_jsonl c (js_path st) v) = Err (IoError InvalidData x)))
       \<and> ((\<forall>b \<in> set (encoding c r). byte_val b < 128) \<longrightarrow>
            fst (read_jsonl c (js_path st) v) \<in> {Ok (js_records st), Ok (js_records st @ [r])})
       \<and> (is_ok res \<longrightarrow> js_records st' = js_records st @ [r])
       \<and> (\<not> is_ok res \<longrightarrow> st' = st)"
proof (cases res)
  case (Ok u)
  with assms(5) have run: "jsonl_append c r (st, w) = (Ok (), (st', w'))" by simp
  show ?thesis
    using reread_acknowledged [OF assms(1-3) run assms(6,7)] jsonl_append_Ok [OF run] Ok by simp
next
  case (Err e)
  note a = jsonl_append_Err [OF assms(5) [unfolded Err]]
  then obtain n where n: "fs_data w' (js_file st) =
      fs_data w (js_file st) @ take n (encoding c r @ [newline])" by auto
  have en: "fs_entries v (js_path st) = Some (js_file st)"
    using crash_entry_durable [OF assms(6), of "js_path st"] a assms(1,2)
    by (simp add: store_ok_def entry_durable_def)
  have "crash_contents (render c (js_records st))
      (render c (js_records st) @ take n (encoding c r @ [newline])) (fs_data v (js_file st))"
    using assms(1,6) a n by (auto simp: crash_def store_ok_def dest!: spec [of _ "js_file st"])
  from crash_contents_append [OF this] obtain m where
    m: "fs_data v (js_file st) = render c (js_records st) @ take m (encoding c r @ [newline])" by blast
  have ascii: "(\<forall>b \<in> set (encoding c r). byte_val b < 128) \<Longrightarrow> from_utf8 (take m (encoding c r))"
    by (intro from_utf8_ascii) (auto dest: in_set_takeD)
  from read_torn_append [OF _ assms(3,4), of "js_records st" "js_path st" m] assms(1) ascii
    read_jsonl_no_script [OF assms(7) en, of c] m a Err
  show ?thesis by (auto simp: store_ok_def)
qed

lemma demo_torn_run:
  "jsonl_append quoted ''b''
     (demo_st [''a''], demo_disk (render quoted [''a'']) (render quoted [''a'']) {0} [Short 2 e])
   = (Err e, (demo_st [''a''],
       demo_disk (render quoted [''a'']) (render quoted [''a''] @ [CHR 0x22, CHR ''b'']) {0} []))"
  by (simp add: demo_st_def demo_disk_def jsonl_append_def write_all_def Let_def quoted_def
      encoding_def)

theorem append_crash_atomic_witness:
  "fst (read_jsonl quoted demo_path (demo_disk (render quoted [''a''] @ [CHR 0x22, CHR ''b''])
     (render quoted [''a''] @ [CHR 0x22, CHR ''b'']) {} [])) \<in> {Ok [''a''], Ok [''a'', ''b'']}"
  using append_crash_atomic [OF demo_store_ok demo_entry_durable _ quoted_torn demo_torn_run demo_crash]
  by (simp add: quoted_ab demo_simps crash_contents_def render_quoted)

subsection \<open>Rewriting and emptying the store\<close>

lemma jsonl_replace_all_result:
  assumes ok: "store_ok c (st, w)" and kept: "\<forall>r \<in> set kept. codec_ok c r"
    and run: "jsonl_replace_all c kept (st, w) = (res, (st', w'))"
  shows "(is_ok res \<longrightarrow> store_ok c (st', w') \<and> js_records st' = kept \<and> js_path st' = js_path st
            \<and> (path_parent (js_path st) \<noteq> [] \<longrightarrow> entry_durable (st', w')))
       \<and> (\<not> is_ok res \<longrightarrow> st' = st)"
proof (cases "compact_jsonl c (js_path st) kept w")
  case (Pair r v)
  note cr = compact_jsonl_result [OF ok Pair]
  show ?thesis
  proof (cases r)
    case (Err e)
    with Pair run show ?thesis by (auto simp: jsonl_replace_all_def)
  next
    case (Ok i)
    with Pair run have res: "is_ok res" "st' = st\<lparr>js_file := i, js_records := kept\<rparr>"
      "w' = drop_handle (js_file st) v" by (auto simp: jsonl_replace_all_def)
    from cr Ok have i: "i \<noteq> js_file st" "fs_entries v (js_path st) = Some i" "i \<in> fs_locks v"
      "fs_data v i = render c kept" "fs_synced v i = fs_data v i" "fs_ok v"
      "path_parent (js_path st) \<noteq> [] \<longrightarrow> fs_synced_entries v (js_path st) = Some i" by auto
    have "fs_ok w'" using fs_ok_cong [OF i(6)] res(3) by (simp add: drop_handle_def)
    with res i ok kept show ?thesis by (simp add: store_ok_def entry_durable_def drop_handle_def)
  qed
qed

lemma jsonl_replace_all_crash:
  assumes ok: "store_ok c (st, w)" "entry_durable (st, w)"
    and kept: "\<forall>r \<in> set kept. codec_ok c r"
    and run: "jsonl_replace_all c kept (st, w) = (res, (st', w'))"
    and v: "crash w' v" "fs_script v = []"
  shows "fst (read_jsonl c (js_path st) v) \<in> {Ok (js_records st), Ok kept}"
proof -
  let ?p = "js_path st"
  obtain r u where c: "compact_jsonl c ?p kept w = (r, u)" by force
  note cr = compact_jsonl_result [OF ok(1) c]
  have w': "same_files u w'"
    using run c by (auto simp: jsonl_replace_all_def drop_handle_def same_files_def
      split: result.splits)
  have old: "fs_data v (js_file st) = render c (js_records st)"
    using crash_synced_data [OF v(1), of "js_file st"] cr w' ok(1)
    by (simp add: same_files_def store_ok_def)
  have ent: "fs_entries v ?p = fs_entries u ?p \<or> fs_entries v ?p = fs_synced_entries u ?p"
    using v(1) w' unfolding crash_def same_files_def by metis
  have se: "fs_synced_entries w ?p = Some (js_file st)"
    using ok(2) by (simp add: entry_durable_def)
  consider "fs_entries v ?p = Some (js_file st)"
    | i where "fs_entries v ?p = Some i" "fs_data u i = render c kept" "fs_synced u i = fs_data u i"
    using cr ent se by metis
  then show ?thesis
  proof cases
    case 1
    with read_jsonl_no_script [OF v(2) 1, of c] old parse_jsonl_render_exact [of "js_records st" c] ok(1)
    show ?thesis by (simp add: store_ok_def)
  next
    case 2
    then have "fs_data v i = render c kept"
      using crash_synced_data [OF v(1), of i] w' by (simp add: same_files_def)
    with read_jsonl_no_script [OF v(2) 2(1), of c] parse_jsonl_render_exact [OF kept] show ?thesis by simp
  qed
qed

lemma jsonl_retain_cases:
  assumes "jsonl_retain c keep_fn (st, w) = (res, (st', w'))"
  obtains (same) "length (keep_fn (js_records st)) \<ge> length (js_records st)" "res = Ok 0"
      "st' = st" "w' = w"
  | (compacted) r where "length (keep_fn (js_records st)) < length (js_records st)"
      "jsonl_replace_all c (keep_fn (js_records st)) (st, w) = (r, (st', w'))"
      "is_ok r \<longleftrightarrow> is_ok res"
      "is_ok res \<longrightarrow> res = Ok (length (js_records st) - length (keep_fn (js_records st)))"
  using assms
  by (cases "jsonl_replace_all c (keep_fn (js_records st)) (st, w)";
      cases "fst (jsonl_replace_all c (keep_fn (js_records st)) (st, w))")
     (auto simp: jsonl_retain_def Let_def split: if_splits)

lemma jsonl_prune_retain: "jsonl_prune c policy stamp s = jsonl_retain c (\<lambda>rs. keep policy rs stamp) s"
  by (simp add: jsonl_prune_def jsonl_retain_def)

lemma reread_no_change:
  assumes "store_ok c (st, w)" "entry_durable (st, w)" "crash w v" "fs_script v = []"
  shows "read_jsonl c (js_path st) v = (Ok (js_records st), v)"
proof -
  have e: "fs_entries v (js_path st) = Some (js_file st)"
    using crash_entry_durable [OF assms(3), of "js_path st"] assms(1,2)
    by (simp add: store_ok_def entry_durable_def)
  have "fs_data v (js_file st) = render c (js_records st)"
    using crash_synced_data [OF assms(3), of "js_file st"] assms(1) by (simp add: store_ok_def)
  with read_jsonl_no_script [OF assms(4) e, of c] parse_jsonl_render_exact [of "js_records st" c]
    assms(1) show ?thesis by (simp add: store_ok_def)
qed

text \<open>C4: a retention sweep is atomic. Whatever system call of the compaction fails and whatever a
  power loss then keeps, rereading the file yields either all the old records or exactly the
  survivors; on success the store is in step with the disk again and holds the survivors, and on
  failure its memory is unchanged.\<close>

theorem retain_crash_atomic:
  assumes "store_ok c (st, w)" and "entry_durable (st, w)"
    and "\<forall>r \<in> set (keep_fn (js_records st)). codec_ok c r"
    and "subseq (keep_fn (js_records st)) (js_records st)"
    and "jsonl_retain c keep_fn (st, w) = (res, (st', w'))"
    and "crash w' v" and "fs_script v = []"
  shows "fst (read_jsonl c (js_path st) v) \<in> {Ok (js_records st), Ok (keep_fn (js_records st))}
       \<and> (is_ok res \<longrightarrow> store_ok c (st', w') \<and> js_records st' = keep_fn (js_records st))
       \<and> (\<not> is_ok res \<longrightarrow> st' = st)"
  using assms(5)
proof (cases rule: jsonl_retain_cases)
  case same
  with assms(4) have "keep_fn (js_records st) = js_records st"
    by (metis subseq_length_diff subseq_same_length_eq order_antisym)
  with same reread_no_change [OF assms(1,2) _ assms(7)] assms(1,6) show ?thesis by simp
next
  case (compacted r)
  from jsonl_replace_all_crash [OF assms(1-3) compacted(2) assms(6,7)]
    jsonl_replace_all_result [OF assms(1,3) compacted(2)] compacted(3)
  show ?thesis by blast
qed

theorem retain_crash_atomic_witness:
  "fst (read_jsonl quoted demo_path
     (demo_disk (render quoted [''a'', ''b'']) (render quoted [''a'', ''b'']) {} []))
     \<in> {Ok [''a'', ''b''], Ok [''b'']}"
proof -
  obtain w' where run: "jsonl_retain quoted (drop 1)
     (demo_st [''a'', ''b''], demo_disk (render quoted [''a'', ''b'']) (render quoted [''a'', ''b'']) {0}
        [Fail (IoError Other [])])
     = (Err (IoError Other []), (demo_st [''a'', ''b''], w'))" "w' = demo_disk (render quoted [''a'', ''b''])
        (render quoted [''a'', ''b'']) {0} []"
    by (simp add: jsonl_retain_def jsonl_replace_all_def compact_jsonl_def write_compacted_def
        open_truncate_def attempt_def demo_simps Let_def)
  from retain_crash_atomic [OF demo_store_ok demo_entry_durable _ _ run(1)] demo_crash run(2)
  show ?thesis by (simp add: quoted_ab demo_st_def demo_disk_def crash_contents_def)
qed

lemma jsonl_drain_Ok:
  assumes "jsonl_drain (st, w) = (Ok rs, (st', w'))"
  shows "rs = js_records st \<and> st' = st\<lparr>js_records := []\<rparr>
       \<and> fs_data w' = (fs_data w)(js_file st := []) \<and> fs_synced w' (js_file st) = []
       \<and> fs_entries w' = fs_entries w \<and> fs_synced_entries w' = fs_synced_entries w
       \<and> fs_locks w' = fs_locks w \<and> fs_next w' = fs_next w"
  using assms
  by (auto simp: jsonl_drain_def and_then_eq_Ok split: prod.splits result.splits
      dest!: set_len_0_Ok sync_file_Ok)

lemma jsonl_drain_Err:
  assumes "jsonl_drain (st, w) = (Err e, (st', w'))"
  shows "st' = st \<and> fs_synced w' = fs_synced w \<and> fs_entries w' = fs_entries w
       \<and> fs_synced_entries w' = fs_synced_entries w
       \<and> (fs_data w' = fs_data w \<or> fs_data w' = (fs_data w)(js_file st := []))"
  using assms
  by (auto simp: jsonl_drain_def and_then_eq_Err same_files_def split: prod.splits result.splits
      dest!: set_len_0_Ok set_len_0_Err sync_file_Err)

text \<open>C22: draining is atomic with respect to a crash. A drain that succeeds hands out every record,
  leaves the store empty and in step with the disk, and a later process finds no record; a drain
  that fails keeps the records in memory, and after a power loss a later process finds all of them
  or none.\<close>

theorem drain_crash_atomic:
  assumes "store_ok c (st, w)" and "entry_durable (st, w)"
    and "jsonl_drain (st, w) = (res, (st', w'))"
    and "crash w' v" and "fs_script v = []"
  shows "case res of
      Ok rs \<Rightarrow> rs = js_records st \<and> store_ok c (st', w') \<and> js_records st' = []
               \<and> fst (read_jsonl c (js_path st) v) = Ok []
    | Err _ \<Rightarrow> st' = st \<and> fst (read_jsonl c (js_path st) v) \<in> {Ok (js_records st), Ok []}"
proof (cases res)
  case (Ok rs)
  note d = jsonl_drain_Ok [OF assms(3) [unfolded Ok]]
  then have st': "store_ok c (st', w')" "entry_durable (st', w')"
    using assms(1,2) fs_ok_cong [of w w'] by (simp_all add: store_ok_def entry_durable_def)
  from reread_no_change [OF st' assms(4,5)] st' d Ok show ?thesis by simp
next
  case (Err e)
  note d = jsonl_drain_Err [OF assms(3) [unfolded Err]]
  have e: "fs_entries v (js_path st) = Some (js_file st)"
    using crash_entry_durable [OF assms(4), of "js_path st"] d assms(1,2)
    by (simp add: store_ok_def entry_durable_def)
  have "crash_contents (fs_synced w' (js_file st)) (fs_data w' (js_file st)) (fs_data v (js_file st))"
    using assms(4) by (simp add: crash_def)
  with d assms(1) have "fs_data v (js_file st) = render c (js_records st) \<or> fs_data v (js_file st) = []"
    by (auto simp: crash_contents_def store_ok_def intro: prefix_order.antisym)
  with read_jsonl_no_script [OF assms(5) e, of c] parse_jsonl_render_exact [of "js_records st" c]
    parse_jsonl_render_exact [of "[]" c] assms(1) d Err
  show ?thesis by (auto simp: store_ok_def)
qed

theorem drain_crash_atomic_witness:
  "fst (read_jsonl quoted demo_path (demo_disk [] [] {} [])) = Ok []"
proof -
  have run: "jsonl_drain (demo_st [''a''], demo_disk (render quoted [''a'']) (render quoted [''a'']) {0} [])
     = (Ok [''a''], (demo_st [], demo_disk [] [] {0} []))"
    by (simp add: jsonl_drain_def set_len_0_def sync_file_def sys_simps demo_simps)
  from drain_crash_atomic [OF demo_store_ok demo_entry_durable run demo_crash]
  show ?thesis by (simp add: quoted_ab demo_simps crash_contents_def)
qed

subsection \<open>Opening\<close>

lemma read_jsonl_not_locked_out:
  "fs_script w = [] \<Longrightarrow> fs_entries w p = None \<Longrightarrow> read_jsonl c p w = (Ok [], w)"
  by (simp add: read_jsonl_def fs_read_def sys_simps)

lemma jsonl_open_OkE:
  assumes "jsonl_open c p w = (Ok st, v)"
  obtains rs w0 w1 i w2 existing where "read_jsonl c p w = (Ok rs, w0)" "same_files w w1 \<and> fs_locks w1 = fs_locks w"
    "open_locked_append p w1 = (Ok i, w2)" "st = \<lparr>js_path = p, js_records = rs, js_file = i\<rparr>"
    "if existing then v = w2 \<and> fs_entries w1 p \<noteq> None else sync_parent_dir p w2 = (Ok (), v)"
proof -
  from assms obtain rs w0 where r: "read_jsonl c p w = (Ok rs, w0)" by (auto simp: jsonl_open_def and_then_eq_Ok)
  obtain b w1 where e: "path_exists p w0 = (b, w1)" by force
  from path_exists_result [OF e] read_jsonl_files [OF r] have "same_files w w1 \<and> fs_locks w1 = fs_locks w"
    "b \<longrightarrow> fs_entries w1 p \<noteq> None" by (auto simp: same_files_def)
  with assms r e show thesis
    by (auto simp: jsonl_open_def and_then_eq_Ok Let_def intro!: that split: if_splits prod.splits result.splits)
qed

lemma jsonl_open_new:
  assumes "jsonl_open c p w = (Ok st, v)" and "fs_ok w" and "fs_entries w p = None"
    and "with_extension p ''compact'' \<noteq> p"
  shows "store_ok c (st, v) \<and> js_records st = [] \<and> js_path st = p
       \<and> (path_parent p \<noteq> [] \<longrightarrow> entry_durable (st, v))"
proof -
  from assms(1) obtain rs w0 w1 i w2 ex where r: "read_jsonl c p w = (Ok rs, w0)" and f: "same_files w w1 \<and> fs_locks w1 = fs_locks w"
    and o: "open_locked_append p w1 = (Ok i, w2)"
    and st: "st = \<lparr>js_path = p, js_records = rs, js_file = i\<rparr>"
    and fin: "if ex then v = w2 \<and> fs_entries w1 p \<noteq> None else sync_parent_dir p w2 = (Ok (), v)"
    by (elim jsonl_open_OkE)
  have new: "fs_entries w1 p = None" using f assms(3) by (simp add: same_files_def)
  have rs: "rs = []" using read_jsonl_Ok [OF r] assms(3) by auto
  from open_locked_append_Ok [OF o] new have o': "i = fs_next w1" "fs_entries w2 = (fs_entries w1)(p \<mapsto> i)"
    "fs_data w2 = (fs_data w1)(i := [])" "fs_synced w2 = (fs_synced w1)(i := [])"
    "fs_next w2 = Suc (fs_next w1)" "fs_locks w2 = insert i (fs_locks w1)" by auto
  have "fs_ok w1" using fs_ok_cong [OF assms(2)] f by (simp add: same_files_def)
  then have ok2: "fs_ok w2" using o' unfolding fs_ok_def
    by (auto simp: less_Suc_eq split: if_splits)
  from fin new have sd: "sync_parent_dir p w2 = (Ok (), v)" by (simp split: if_splits)
  note s = sync_parent_dir_result [OF sd]
  have "fs_ok v" using fs_ok_cong [OF ok2] s by simp
  with s o' st rs assms(4) show ?thesis by (simp add: store_ok_def entry_durable_def)
qed

text \<open>C23: one writer. While a store is open, opening its path again fails, whatever the system
  calls do, and leaves the store in step with the disk; when nothing else fails the error is
  \<open>WouldBlock\<close>.\<close>

theorem single_writer:
  assumes "store_ok c (st, w)" and "jsonl_open c (js_path st) w = (res, w')"
  shows "\<not> is_ok res \<and> store_ok c (st, w')
       \<and> (fs_script w = [] \<longrightarrow> (\<exists>e. res = Err e \<and> io_kind e = WouldBlock))"
proof -
  let ?p = "js_path st"
  have w: "fs_entries w ?p = Some (js_file st)" "js_file st \<in> fs_locks w"
    using assms(1) by (auto simp: store_ok_def)
  obtain r w1 where r: "read_jsonl c ?p w = (r, w1)" by force
  note f = read_jsonl_files [OF r]
  have w1: "fs_entries w1 ?p = Some (js_file st)" "js_file st \<in> fs_locks w1"
    using f w by (auto simp: same_files_def)
  have ok1: "store_ok c (st, w1)" using assms(1) f fs_ok_cong [of w w1]
    by (simp add: store_ok_def same_files_def)
  show ?thesis
  proof (cases r)
    case (Err e)
    moreover from Err r have "fs_script w \<noteq> []"
      using read_jsonl_no_script [OF _ w(1), of c] parse_jsonl_render_exact [of "js_records st" c] assms(1)
      by (auto simp: store_ok_def)
    ultimately show ?thesis using assms(2) r ok1 by (auto simp: jsonl_open_def)
  next
    case (Ok rs)
    obtain b u where x: "path_exists ?p w1 = (b, u)" by force
    have u: "fs_entries u ?p = Some (js_file st)" "js_file st \<in> fs_locks u" "store_ok c (st, u)"
      using path_exists_result [OF x] w1 ok1 fs_ok_cong [of w1 u] by (auto simp: store_ok_def)
    obtain e w2 where o: "open_locked_append ?p u = (Err e, w2)"
      using open_locked_append_locked [OF u(1,2)] by (cases "open_locked_append ?p u") auto
    with Ok r x assms(2) have res: "res = Err e" "w' = w2" by (simp_all add: jsonl_open_def Let_def)
    have "store_ok c (st, w2)" using open_locked_append_Err_existing [OF o u(1)] u(3) fs_ok_cong [of u w2]
      by (simp add: store_ok_def same_files_def)
    moreover have "fs_script w = [] \<longrightarrow> io_kind e = WouldBlock"
    proof
      assume sc: "fs_script w = []"
      then have "w1 = w" using r read_jsonl_no_script [OF sc w(1), of c] by simp
      then have "u = w" using x sc by (simp add: sys_simps)
      with o w sc show "io_kind e = WouldBlock"
        by (auto simp: open_locked_append_def open_append_def try_lock_exclusive_def sys_simps locked_error_def)
    qed
    ultimately show ?thesis using res by simp
  qed
qed

theorem single_writer_witness:
  "\<exists>e. fst (jsonl_open quoted demo_path
        (demo_disk (render quoted [''a'']) (render quoted [''a'']) {0} [])) = Err e
     \<and> io_kind e = WouldBlock"
  using single_writer [OF demo_store_ok [of "[''a'']" "[]"] surjective_pairing]
  by (simp add: quoted_ab demo_st_def demo_disk_def)

text \<open>Reopening. After the process that holds a store ends, opening its path yields the same
  records in the same order, and the new store is in step with the disk.\<close>

theorem reopen_roundtrip:
  assumes "store_ok c (st, w)" and "fs_script w = []"
  shows "jsonl_open c (js_path st) (drop_handle (js_file st) w) = (Ok st, w) \<and> store_ok c (st, w)"
proof -
  let ?w = "drop_handle (js_file st) w"
  have w: "fs_entries ?w (js_path st) = Some (js_file st)" "fs_script ?w = []"
    "js_file st \<notin> fs_locks ?w" "?w\<lparr>fs_locks := insert (js_file st) (fs_locks ?w)\<rparr> = w"
    using assms by (auto simp: store_ok_def drop_handle_def insert_absorb)
  have "read_jsonl c (js_path st) ?w = (Ok (js_records st), ?w)"
    using read_jsonl_no_script [OF w(2,1), of c] parse_jsonl_render_exact [of "js_records st" c] assms(1)
    by (simp add: store_ok_def drop_handle_def)
  with w assms(1) show ?thesis
    by (simp add: jsonl_open_def open_locked_append_def open_append_def
        try_lock_exclusive_def sys_simps)
qed

theorem reopen_roundtrip_witness:
  "jsonl_open quoted demo_path
     (drop_handle 0 (demo_disk (render quoted [''a'', ''b'']) (render quoted [''a'', ''b'']) {0} []))
   = (Ok (demo_st [''a'', ''b'']),
      demo_disk (render quoted [''a'', ''b'']) (render quoted [''a'', ''b'']) {0} [])"
  using reopen_roundtrip [OF demo_store_ok [of "[''a'', ''b'']" "[]"]]
  by (simp add: quoted_ab demo_st_def demo_disk_def)

lemma filter_enumerate_not_Nil:
  "\<exists>l \<in> set ls. P l \<Longrightarrow> filter (\<lambda>(_, l). P l) (List.enumerate k ls) \<noteq> []"
  by (induction ls arbitrary: k) auto

lemma parse_jsonl_corrupt:
  assumes "\<forall>r \<in> set rs. codec_ok c r"
    and "newline \<notin> set bad" "carriage_return \<notin> set bad" "from_utf8 bad" "str_trim bad \<noteq> []"
    and "from_str c bad = Err e" and "from_utf8 rest"
    and "rest = [] \<or> last rest = newline \<or> (\<exists>l \<in> set (str_lines rest). str_trim l \<noteq> [])"
  shows "parse_jsonl c p (render c rs @ bad @ newline # rest) = Err (json_line_error p (length rs) e)"
proof -
  let ?b = "render c rs @ bad @ newline # rest" and ?ls = "map (encoding c) rs"
  let ?nb = "\<lambda>(_, line). str_trim line \<noteq> []"
  from assms(1) have ls: "\<forall>l \<in> set ?ls. newline \<notin> set l \<and> carriage_return \<notin> set l"
    "\<forall>l \<in> set ?ls. from_utf8 l" by (auto elim: codec_okE)
  have lines: "str_lines ?b = ?ls @ bad # str_lines rest"
    using ls(1) assms(2,3) by (induction rs) (auto simp: str_lines_line strip_cr_id)
  have utf: "from_utf8 ?b"
    using from_utf8_lines [OF ls(2)] assms(4,7) by (simp add: render_def from_utf8_append)
  have tail: "filter ?nb (List.enumerate (Suc (length rs)) (str_lines rest)) \<noteq> [] \<or> last ?b = newline"
    using assms(8) filter_enumerate_not_Nil [of "str_lines rest" "\<lambda>l. str_trim l \<noteq> []"] by auto
  show ?thesis
    unfolding parse_jsonl_def Let_def lines
    using tail utf assms(5,6)
    by (auto simp: enumerate_append_eq filter_enumerate_encodings [OF assms(1)]
        parse_lines_records [OF assms(1)] simp del: map_map)
qed

text \<open>C24: corruption is reported, not skipped. When a line that is not the torn last one does not
  decode (it ends in a newline, or a later line is not blank), reading the file fails with
  \<open>InvalidData\<close> and names the line.\<close>

theorem corrupt_line_reported:
  assumes "\<forall>r \<in> set rs. codec_ok c r"
    and "newline \<notin> set bad" "carriage_return \<notin> set bad" "from_utf8 bad" "str_trim bad \<noteq> []"
    and "from_str c bad = Err e" and "from_utf8 rest"
    and "rest = [] \<or> last rest = newline \<or> (\<exists>l \<in> set (str_lines rest). str_trim l \<noteq> [])"
  shows "parse_jsonl c p (render c rs @ bad @ newline # rest) = Err (json_line_error p (length rs) e)"
  by (rule parse_jsonl_corrupt [OF assms])

theorem corrupt_line_reported_witness:
  "parse_jsonl quoted demo_path (render quoted [''a''] @ ''junk'' @ newline # render quoted [''b''])
   = Err (json_line_error demo_path 1 ''syntax'')"
  using corrupt_line_reported [of "[''a'']" quoted "''junk''" "''syntax''" "render quoted [''b'']" demo_path]
  by (simp add: quoted_ab render_quoted str_trim_not_blank ws_len_ascii del: render_simps)
     (simp add: quoted_def)

subsection \<open>Where the store does less than its comments say\<close>

text \<open>C39: a torn tail is not repaired. Opening a file whose last line is torn off yields the complete
  records and leaves the fragment in place, so the next append continues that line: the append is
  acknowledged, yet after any crash the file no longer opens, since the joined line does not
  decode.\<close>

theorem append_after_torn_tail_poisons:
  assumes "fs_entries w0 p = Some i" and "fs_synced_entries w0 p = Some i"
    and "fs_data w0 i = render c rs @ t" and "\<forall>q \<in> set rs. codec_ok c q" and "codec_ok c r"
    and "newline \<notin> set t" "carriage_return \<notin> set t" "from_utf8 t" "str_trim (t @ encoding c r) \<noteq> []"
    and "from_str c t = Err e0" and "from_str c (t @ encoding c r) = Err e"
    and "fs_script w0 = []" and "jsonl_open c p w0 = (Ok st, w)"
    and "jsonl_append c r (st, w) = (Ok (), (st', w'))"
    and "crash w' v" and "fs_script v = []"
  shows "js_records st' = rs @ [r]
       \<and> fst (read_jsonl c p v) = Err (json_line_error p (length rs) e)"
proof -
  from assms(13) obtain qs w1 where r: "read_jsonl c p w0 = (Ok qs, w1)"
    and o: "open_locked_append p w1 = (Ok (js_file st), w)" and st: "js_records st = qs"
    using read_jsonl_no_script [OF assms(12,1), of c] path_exists_no_script [OF assms(12), of p] assms(1)
    by (auto simp: jsonl_open_def and_then_eq_Ok Let_def)
  have w1: "w1 = w0" "qs = rs"
    using r read_jsonl_no_script [OF assms(12,1), of c] parse_jsonl_render [OF assms(4,6), of p]
      assms(3,8,10) by (auto split: if_splits)
  have f: "js_file st = i" "same_files w0 w" using open_locked_append_Ok [OF o] w1 assms(1) by auto
  note a = jsonl_append_Ok [OF assms(14)]
  have ev: "fs_entries v p = Some i"
    using crash_entry_durable [OF assms(15), of p] a f assms(1,2) by (simp add: same_files_def)
  have dv: "fs_data v i = render c rs @ (t @ encoding c r) @ newline # []"
    using crash_synced_data [OF assms(15), of i] a f assms(3) by (simp add: same_files_def)
  from assms(5) have enc: "newline \<notin> set (encoding c r)" "carriage_return \<notin> set (encoding c r)"
    "from_utf8 (encoding c r)" by (auto elim: codec_okE)
  have "parse_jsonl c p (fs_data v i) = Err (json_line_error p (length rs) e)"
    unfolding dv using assms(6-8) enc
    by (intro parse_jsonl_corrupt [OF assms(4)] assms(9,11)) (auto simp: from_utf8_append)
  with read_jsonl_no_script [OF assms(16) ev, of c] a st w1 show ?thesis by simp
qed

theorem append_after_torn_tail_poisons_witness:
  "\<exists>st w w'. jsonl_open quoted demo_path
       (demo_disk (render quoted [''a''] @ [CHR 0x22]) (render quoted [''a''] @ [CHR 0x22]) {} []) = (Ok st, w)
     \<and> jsonl_append quoted ''b'' (st, w) = (Ok (), (demo_st [''a'', ''b''], w'))
     \<and> fst (read_jsonl quoted demo_path (w'\<lparr>fs_locks := {}\<rparr>))
         = Err (json_line_error demo_path 1 ''syntax'')"
proof -
  let ?d = "render quoted [''a''] @ [CHR 0x22]" and ?d' = "render quoted [''a''] @ CHR 0x22 # render quoted [''b'']"
  have "from_str quoted [CHR 0x22] = Err ''syntax''" by (simp add: quoted_def)
  then have "parse_jsonl quoted demo_path ?d = Ok [''a'']"
    using parse_jsonl_render [of "[''a'']" quoted "[CHR 0x22]" demo_path] by (simp add: quoted_ab)
  then have rd: "read_jsonl quoted demo_path (demo_disk ?d ?d {} []) = (Ok [''a''], demo_disk ?d ?d {} [])"
    using read_jsonl_no_script [of "demo_disk ?d ?d {} []" demo_path 0 quoted] by (simp add: demo_disk_def)
  have o: "jsonl_open quoted demo_path (demo_disk ?d ?d {} []) = (Ok (demo_st [''a'']), demo_disk ?d ?d {0} [])"
    unfolding jsonl_open_def rd
    by (simp add: path_exists_def open_locked_append_def open_append_def try_lock_exclusive_def
        attempt_def demo_st_def demo_disk_def)
  have a: "jsonl_append quoted ''b'' (demo_st [''a''], demo_disk ?d ?d {0} [])
      = (Ok (), (demo_st [''a'', ''b''], demo_disk ?d' ?d' {0} []))"
    by (simp add: demo_st_def demo_disk_def jsonl_append_def write_all_def sync_file_def sys_simps
      Let_def quoted_def encoding_def)
  have c: "crash (demo_disk ?d' ?d' {0} []) ((demo_disk ?d' ?d' {0} [])\<lparr>fs_locks := {}\<rparr>)"
    using demo_crash [of ?d' ?d' ?d' "{0}" "[]"] by (simp add: crash_contents_def demo_disk_def)
  have "fst (read_jsonl quoted demo_path ((demo_disk ?d' ?d' {0} [])\<lparr>fs_locks := {}\<rparr>))
      = Err (json_line_error demo_path 1 ''syntax'')"
    using append_after_torn_tail_poisons [OF _ _ _ _ _ _ _ _ _ _ _ _ o a c, of 0 "[''a'']" "[CHR 0x22]" "''syntax''" "''syntax''"]
    by (simp add: demo_disk_def quoted_ab render_quoted str_trim_not_blank ws_len_ascii del: render_simps)
       (simp add: quoted_def)
  with o a show ?thesis by blast
qed

text \<open>C13: a compaction that fails after its rename detaches the store. The store keeps its old handle,
  which the path no longer names: a later append is acknowledged and visible in memory, but a
  process that rereads the path finds only the compacted records.\<close>

theorem append_after_failed_compaction_lost:
  assumes "store_ok c (st, w)" and "\<forall>q \<in> set kept. codec_ok c q"
    and "jsonl_replace_all c kept (st, w) = (Err e, (st1, w1))"
    and "fs_entries w1 (js_path st) \<noteq> Some (js_file st)"
    and "jsonl_append c r (st1, w1) = (Ok (), (st2, w2))"
  shows "js_records st2 = js_records st @ [r]
       \<and> fst (read_jsonl c (js_path st) (w2\<lparr>fs_script := []\<rparr>)) = Ok kept"
proof -
  from assms(3) obtain x where c: "compact_jsonl c (js_path st) kept w = (Err x, w1)" and st1: "st1 = st"
    by (auto simp: jsonl_replace_all_def split: prod.splits result.splits)
  from compact_jsonl_result [OF assms(1) c] assms(4) obtain i where i: "i \<noteq> js_file st"
    "fs_entries w1 (js_path st) = Some i" "fs_data w1 i = render c kept" by auto
  note a = jsonl_append_Ok [OF assms(5) [unfolded st1]]
  let ?v = "w2\<lparr>fs_script := []\<rparr>"
  have v: "fs_entries ?v (js_path st) = Some i" "fs_data ?v i = render c kept" using a i by simp_all
  from read_jsonl_no_script [OF _ v(1), of c] v(2) parse_jsonl_render_exact [OF assms(2)] a
  show ?thesis by simp
qed

theorem append_after_failed_compaction_lost_witness:
  "\<exists>w1 w2 e. jsonl_replace_all quoted [''b''] (demo_st [''a'', ''b''],
        demo_disk (render quoted [''a'', ''b'']) (render quoted [''a'', ''b'']) {0}
          [Succeed, Succeed, Succeed, Succeed, Succeed, Fail (IoError Other ''EIO'')])
        = (Err e, (demo_st [''a'', ''b''], w1))
     \<and> jsonl_append quoted ''a'' (demo_st [''a'', ''b''], w1) = (Ok (), (demo_st [''a'', ''b'', ''a''], w2))
     \<and> fst (read_jsonl quoted demo_path (w2\<lparr>fs_script := []\<rparr>)) = Ok [''b'']"
proof -
  let ?d = "render quoted [''a'', ''b'']"
  let ?w = "demo_disk ?d ?d {0} [Succeed, Succeed, Succeed, Succeed, Succeed, Fail (IoError Other ''EIO'')]"
  obtain w1 where run: "jsonl_replace_all quoted [''b''] (demo_st [''a'', ''b''], ?w)
        = (Err (IoError Other ''EIO''), (demo_st [''a'', ''b''], w1))"
      and ent: "fs_entries w1 demo_path = Some 1" and sc: "fs_script w1 = []"
    by (simp add: jsonl_replace_all_def compact_jsonl_def write_compacted_def open_truncate_def
        write_all_def sync_file_def fs_rename_def sync_parent_dir_def open_dir_def attempt_def Let_def
        demo_simps with_extension_def file_name_def file_stem_def path_parent_def quoted_def)
  obtain w2 where app: "jsonl_append quoted ''a'' (demo_st [''a'', ''b''], w1)
      = (Ok (), (demo_st [''a'', ''b'', ''a''], w2))"
    using sc by (simp add: jsonl_append_def quoted_def write_all_def sync_file_def attempt_def Let_def
        demo_st_def)
  from append_after_failed_compaction_lost [OF demo_store_ok _ run _ app] run app ent
  show ?thesis by (auto simp: quoted_ab demo_st_def)
qed

text \<open>C40: a store without a directory part in its path is not durable at first. When the file is new and its path
  is a bare name, as both default paths are, the directory that holds the new name is not flushed: an append is
  acknowledged, and yet there is a crash after which the file is gone and the store opens empty.\<close>

theorem bare_path_append_lost:
  assumes "path_parent p = []" and "fs_entries w p = None" and "fs_synced_entries w p = None"
    and "jsonl_open c p w = (Ok st, w1)" and "jsonl_append c r (st, w1) = (Ok (), (st', w2))"
  shows "js_records st' = [r] \<and> (\<exists>v. crash w2 v \<and> fs_script v = [] \<and> read_jsonl c p v = (Ok [], v))"
proof -
  from assms(4) obtain rs u0 u i u' ex where r: "read_jsonl c p w = (Ok rs, u0)" and f: "same_files w u \<and> fs_locks u = fs_locks w"
    and o: "open_locked_append p u = (Ok i, u')" and st: "st = \<lparr>js_path = p, js_records = rs, js_file = i\<rparr>"
    and fin: "if ex then w1 = u' \<and> fs_entries u p \<noteq> None else sync_parent_dir p u' = (Ok (), w1)"
    by (elim jsonl_open_OkE)
  have rs: "rs = []" using read_jsonl_Ok [OF r] assms(2) by auto
  have w1: "w1 = u'" using fin assms(1) by (auto simp: sync_parent_dir_def split: if_splits)
  have "fs_synced_entries w1 p = None"
    using f open_locked_append_Ok [OF o] assms(2,3) w1 by (auto simp: same_files_def)
  then have lost: "fs_synced_entries w2 p = None" using jsonl_append_Ok [OF assms(5)] by simp
  let ?v = "w2\<lparr>fs_entries := fs_synced_entries w2, fs_synced := fs_data w2, fs_locks := {}, fs_script := []\<rparr>"
  have "crash w2 ?v" by (auto simp: crash_def crash_contents_def)
  moreover have "read_jsonl c p ?v = (Ok [], ?v)" using lost by (simp add: read_jsonl_def fs_read_def sys_simps)
  ultimately show ?thesis using jsonl_append_Ok [OF assms(5)] st rs by (intro conjI exI [of _ ?v]) simp_all
qed

theorem bare_path_append_lost_witness:
  "\<exists>w1 w2 v. jsonl_open quoted ''triggerlane-events.jsonl'' empty_fs
        = (Ok \<lparr>js_path = ''triggerlane-events.jsonl'', js_records = [], js_file = 0\<rparr>, w1)
     \<and> jsonl_append quoted ''a'' (\<lparr>js_path = ''triggerlane-events.jsonl'', js_records = [], js_file = 0\<rparr>, w1)
        = (Ok (), (\<lparr>js_path = ''triggerlane-events.jsonl'', js_records = [''a''], js_file = 0\<rparr>, w2))
     \<and> crash w2 v \<and> read_jsonl quoted ''triggerlane-events.jsonl'' v = (Ok [], v)"
proof -
  let ?p = "''triggerlane-events.jsonl''"
  let ?st = "\<lparr>js_path = ?p, js_records = [], js_file = 0\<rparr>" and ?st' = "\<lparr>js_path = ?p, js_records = [''a''], js_file = 0\<rparr>"
  have p: "path_parent ?p = []" by (simp add: path_parent_def)
  obtain w1 where o: "jsonl_open quoted ?p empty_fs = (Ok ?st, w1)" and s: "fs_script w1 = []"
    by (simp add: jsonl_open_def read_jsonl_def fs_read_def open_locked_append_def open_append_def try_lock_exclusive_def
        sync_parent_dir_def path_exists_def p sys_simps empty_fs_def)
  obtain w2 where a: "jsonl_append quoted ''a'' (?st, w1) = (Ok (), (?st', w2))"
    using s by (simp add: jsonl_append_def quoted_def write_all_def sync_file_def attempt_def Let_def)
  from bare_path_append_lost [OF p _ _ o a] obtain v where "crash w2 v" "read_jsonl quoted ?p v = (Ok [], v)"
    by (auto simp: empty_fs_def)
  with o a show ?thesis by blast
qed

text \<open>A torn line is discarded only when the tear falls between two characters. For a record whose encoding
  has a character outside ASCII, a write that stops inside that character leaves a file that is not UTF-8: after
  the crash the store, with all its earlier records, does not open any more. So the exception in
  \<open>append_crash_atomic\<close> cannot be dropped.\<close>

theorem torn_character_blocks_open:
  assumes ok: "store_ok c (st, w)" and r: "codec_ok c r"
    and wide: "\<exists>b \<in> set (encoding c r). \<not> byte_val b < 128"
  shows "\<exists>k w' v m. jsonl_append c r (st, w\<lparr>fs_script := [Short k e]\<rparr>) = (Err e, (st, w'))
     \<and> crash w' v \<and> fs_script v = []
     \<and> fst (jsonl_open c (js_path st) v) = Err (IoError InvalidData m)"
proof -
  from split_list_first_prop [OF wide] obtain xs b ys where split: "encoding c r = xs @ b # ys"
    "\<not> byte_val b < 128" "\<forall>x \<in> set xs. byte_val x < 128" by auto
  let ?t = "xs @ [b]" and ?k = "Suc (length xs)" and ?i = "js_file st"
  define w' where "w' = w\<lparr>fs_script := [], fs_data := (fs_data w)(?i := render c (js_records st) @ ?t)\<rparr>"
  define v where "v = w'\<lparr>fs_locks := {}, fs_synced := fs_data w', fs_synced_entries := fs_entries w'\<rparr>"
  from r obtain enc: "to_vec c r = Ok (encoding c r)" "newline \<notin> set (encoding c r)" by (elim codec_okE)
  have recs: "\<forall>q \<in> set (js_records st). codec_ok c q" and data: "fs_data w ?i = render c (js_records st)"
    and ent: "fs_entries w (js_path st) = Some ?i" using ok by (auto simp: store_ok_def)
  have run: "jsonl_append c r (st, w\<lparr>fs_script := [Short ?k e]\<rparr>) = (Err e, (st, w'))"
    by (simp add: jsonl_append_def enc write_all_def Let_def split(1) data w'_def)
  have bad: "\<not> from_utf8 ?t" using split by (simp add: from_utf8_append from_utf8_ascii)
  have "fst (read_jsonl c (js_path st) v) = parse_jsonl c (js_path st) (render c (js_records st) @ ?t)"
    using read_jsonl_no_script [of v "js_path st" ?i c] ent by (simp add: v_def w'_def)
  also have "\<dots> = Err (IoError InvalidData (''invalid UTF-8 in '' @ js_path st @ '': '' @
      utf8_error_to_string (render c (js_records st) @ ?t)))"
    using parse_jsonl_render [OF recs, of ?t] bad enc(2) split(1) by simp
  finally have rd: "fst (read_jsonl c (js_path st) v) = \<dots>" .
  have "crash w' v" by (auto simp: crash_def crash_contents_def v_def)
  moreover have "fs_script v = []" by (simp add: v_def w'_def)
  moreover from rd have "\<exists>m. fst (jsonl_open c (js_path st) v) = Err (IoError InvalidData m)"
    by (cases "read_jsonl c (js_path st) v") (simp add: jsonl_open_def)
  ultimately show ?thesis using run by blast
qed

theorem torn_character_blocks_open_witness:
  "\<exists>k w' v m. jsonl_append quoted [CHR 0xC3, CHR 0xA9]
       (demo_st [''a''], demo_disk (render quoted [''a'']) (render quoted [''a'']) {0} [Short k (IoError Other ''EIO'')])
       = (Err (IoError Other ''EIO''), (demo_st [''a''], w'))
     \<and> crash w' v \<and> fs_script v = [] \<and> fst (jsonl_open quoted demo_path v) = Err (IoError InvalidData m)"
proof -
  have "codec_ok quoted [CHR 0xC3, CHR 0xA9]"
    by (simp add: codec_ok_def quoted_def ws_len_ascii byte_in_def)
  moreover have "encoding quoted [CHR 0xC3, CHR 0xA9] = [CHR 0x22, CHR 0xC3, CHR 0xA9, CHR 0x22]"
    by (simp add: encoding_def quoted_def)
  ultimately show ?thesis
    using torn_character_blocks_open [OF demo_store_ok [of "[''a'']" "[]"], of "[CHR 0xC3, CHR 0xA9]" "IoError Other ''EIO''"]
    by (simp add: quoted_ab demo_st_def demo_disk_def del: render_simps)
qed

text \<open>A drain whose flush fails empties the file but not the store. The truncation is done, the
  error is returned and the records stay in memory, but a process that rereads the path finds
  nothing.\<close>

theorem drain_failed_flush_loses_file:
  assumes "store_ok c (st, w)" and "fs_script w = Succeed # Fail e # rest"
    and "jsonl_drain (st, w) = (res, (st', w'))"
  shows "res = Err e \<and> js_records st' = js_records st
       \<and> fst (read_jsonl c (js_path st) (w'\<lparr>fs_script := []\<rparr>)) = Ok []"
proof -
  have run: "res = Err e" "st' = st" "fs_entries w' = fs_entries w" "fs_data w' (js_file st) = []"
    using assms(2,3) by (auto simp: jsonl_drain_def set_len_0_def sync_file_def attempt_def Let_def)
  have ent: "fs_entries (w'\<lparr>fs_script := []\<rparr>) (js_path st) = Some (js_file st)"
    using assms(1) run by (simp add: store_ok_def)
  from read_jsonl_no_script [OF _ ent, of c] parse_jsonl_render_exact [of "[]" c] run show ?thesis by simp
qed

theorem drain_failed_flush_loses_file_witness:
  "\<exists>w'. jsonl_drain (demo_st [''a''], demo_disk (render quoted [''a'']) (render quoted [''a'']) {0}
          [Succeed, Fail (IoError Other ''EIO'')])
        = (Err (IoError Other ''EIO''), (demo_st [''a''], w'))
      \<and> fst (read_jsonl quoted demo_path (w'\<lparr>fs_script := []\<rparr>)) = Ok []"
proof -
  let ?w = "demo_disk (render quoted [''a'']) (render quoted [''a'']) {0} [Succeed, Fail (IoError Other ''EIO'')]"
  have run: "jsonl_drain (demo_st [''a''], ?w)
     = (Err (IoError Other ''EIO''), (demo_st [''a''], demo_disk (render quoted [''a'']) [] {0} []))"
    by (simp add: jsonl_drain_def set_len_0_def sync_file_def attempt_def demo_simps)
  with drain_failed_flush_loses_file [OF demo_store_ok _ run] show ?thesis
    by (simp add: quoted_ab demo_st_def demo_disk_def)
qed

end
