(* ===== verification/Event_Stores.thy ===== *)
theory Event_Stores
  imports Jsonl_Durability
begin

text \<open>
  The event stores of \<open>crates/triggerlane-storage/src/lib.rs\<close>: the trait \<open>EventStore\<close> as a record of
  operations, \<open>InMemoryEventStore\<close>, and \<open>FileEventStore\<close> over two \<open>JsonlStore\<close>s that share the disk,
  the event log and the journal of delivered ids. The locale \<open>event_store\<close> states what every
  implementation promises of the events it retains and of the delivered ids; both implementations
  interpret it. A mutex-guarded method is one atomic step. A \<open>HashSet\<close> is a set, and the list its
  iterator yields is taken in ascending order.
\<close>

subsection \<open>The trait\<close>

record 's event_store_ops =
  es_append :: "event_envelope \<Rightarrow> 's \<Rightarrow> (unit, io_error) result \<times> 's"
  es_get :: "event_id \<Rightarrow> 's \<Rightarrow> event_envelope option"
  es_all :: "'s \<Rightarrow> event_envelope list"
  es_mark_delivered :: "event_id \<Rightarrow> 's \<Rightarrow> (unit, io_error) result \<times> 's"
  es_undelivered :: "'s \<Rightarrow> event_envelope list"
  es_enforce_retention :: "auto_retention \<Rightarrow> timestamp \<Rightarrow> 's \<Rightarrow> (nat, io_error) result \<times> 's"
  es_len :: "'s \<Rightarrow> nat"
  es_size_bytes :: "'s \<Rightarrow> nat"
  es_prune :: "manual_retention \<Rightarrow> 's \<Rightarrow> (nat, io_error) result \<times> 's"

text \<open>The trait with its default methods: an implementation that gives only the required ones. It does not track
  delivery and retains everything; the two stores of the crate override all of them.\<close>

definition provided_event_store_ops ::
  "(event_envelope \<Rightarrow> 's \<Rightarrow> (unit, io_error) result \<times> 's) \<Rightarrow> (event_id \<Rightarrow> 's \<Rightarrow> event_envelope option)
     \<Rightarrow> ('s \<Rightarrow> event_envelope list) \<Rightarrow> (manual_retention \<Rightarrow> 's \<Rightarrow> (nat, io_error) result \<times> 's) \<Rightarrow> 's event_store_ops" where
  "provided_event_store_ops app get all prune =
     \<lparr>es_append = app, es_get = get, es_all = all, es_mark_delivered = (\<lambda>_ s. (Ok (), s)), es_undelivered = all,
      es_enforce_retention = (\<lambda>_ _ s. (Ok 0, s)), es_len = (\<lambda>s. length (all s)), es_size_bytes = (\<lambda>_. 0),
      es_prune = prune\<rparr>"

text \<open>The provided methods of the trait that no implementation overrides.\<close>

definition es_is_empty :: "('s, 'm) event_store_ops_scheme \<Rightarrow> 's \<Rightarrow> bool" where
  "es_is_empty ops s \<longleftrightarrow> es_len ops s = 0"

definition find_by_idempotency_key ::
  "('s, 'm) event_store_ops_scheme \<Rightarrow> string \<Rightarrow> 's \<Rightarrow> event_envelope option" where
  "find_by_idempotency_key ops key s =
     List.find (\<lambda>event. idempotency_key (ev_metadata event) = Some key) (es_all ops s)"

subsection \<open>The in-memory store\<close>

record in_memory_event_store =
  im_events :: "event_envelope list"
  im_delivered :: "event_id set"

definition im_new :: in_memory_event_store where
  "im_new = \<lparr>im_events = [], im_delivered = {}\<rparr>"

definition im_append ::
  "event_envelope \<Rightarrow> in_memory_event_store \<Rightarrow> (unit, io_error) result \<times> in_memory_event_store" where
  "im_append event s = (Ok (), s\<lparr>im_events := im_events s @ [event]\<rparr>)"

definition im_get :: "event_id \<Rightarrow> in_memory_event_store \<Rightarrow> event_envelope option" where
  "im_get i s = List.find (\<lambda>event. ev_id event = i) (im_events s)"

definition im_mark_delivered ::
  "event_id \<Rightarrow> in_memory_event_store \<Rightarrow> (unit, io_error) result \<times> in_memory_event_store" where
  "im_mark_delivered i s = (Ok (), s\<lparr>im_delivered := insert i (im_delivered s)\<rparr>)"

definition im_undelivered :: "in_memory_event_store \<Rightarrow> event_envelope list" where
  "im_undelivered s = filter (\<lambda>event. ev_id event \<notin> im_delivered s) (im_events s)"

definition im_enforce_retention ::
  "event_envelope encoder \<Rightarrow> auto_retention \<Rightarrow> timestamp \<Rightarrow> in_memory_event_store
     \<Rightarrow> (nat, io_error) result \<times> in_memory_event_store" where
  "im_enforce_retention enc policy now s =
     (if is_unbounded policy then (Ok 0, s)
      else
        let kept = retain_events enc (im_events s) (im_delivered s) policy now;
            removed = length (im_events s) - length kept;
            kept_ids = set (map ev_id kept)
        in if removed > 0
           then (Ok removed, s\<lparr>im_delivered := {i \<in> im_delivered s. i \<in> kept_ids}, im_events := kept\<rparr>)
           else (Ok removed, s))"

definition im_prune ::
  "manual_retention \<Rightarrow> in_memory_event_store \<Rightarrow> (nat, io_error) result \<times> in_memory_event_store" where
  "im_prune policy s =
     (let kept = keep policy (im_events s) ev_timestamp
      in (Ok (length (im_events s) - length kept), s\<lparr>im_events := kept\<rparr>))"

definition im_store :: "event_envelope encoder \<Rightarrow> in_memory_event_store event_store_ops" where
  "im_store enc =
     \<lparr>es_append = im_append, es_get = im_get, es_all = im_events,
      es_mark_delivered = im_mark_delivered, es_undelivered = im_undelivered,
      es_enforce_retention = im_enforce_retention enc, es_len = (\<lambda>s. length (im_events s)),
      es_size_bytes = (\<lambda>_. 0), es_prune = im_prune\<rparr>"

subsection \<open>The file store\<close>

record file_event_store =
  fe_inner :: "event_envelope jsonl_store"
  fe_delivered :: "event_id jsonl_store"
  fe_delivered_set :: "event_id set"
  fe_fs :: fs

text \<open>The two codecs of the file store: \<open>serde_json\<close> at the two record types.\<close>

type_synonym event_codecs = "event_envelope codec \<times> event_id codec"

definition delivered_path :: "string \<Rightarrow> string" where
  "delivered_path p = p @ ''.delivered''"

text \<open>A call on one of the two files of the store, on the disk they share.\<close>

definition on_inner ::
  "(event_envelope jsonl \<Rightarrow> ('a, io_error) result \<times> event_envelope jsonl) \<Rightarrow> file_event_store
     \<Rightarrow> ('a, io_error) result \<times> file_event_store" where
  "on_inner f s = (case f (fe_inner s, fe_fs s) of
     (r, (st, w)) \<Rightarrow> (r, s\<lparr>fe_inner := st, fe_fs := w\<rparr>))"

definition on_delivered ::
  "(event_id jsonl \<Rightarrow> ('a, io_error) result \<times> event_id jsonl) \<Rightarrow> file_event_store
     \<Rightarrow> ('a, io_error) result \<times> file_event_store" where
  "on_delivered f s = (case f (fe_delivered s, fe_fs s) of
     (r, (st, w)) \<Rightarrow> (r, s\<lparr>fe_delivered := st, fe_fs := w\<rparr>))"

definition fe_open :: "event_codecs \<Rightarrow> string \<Rightarrow> fs \<Rightarrow> (file_event_store, io_error) result \<times> fs" where
  "fe_open cs p w =
     and_then (jsonl_open (fst cs) p w) (\<lambda>inner w.
       case jsonl_open (snd cs) (delivered_path (js_path inner)) w of
         (Err e, w) \<Rightarrow> (Err e, drop_handle (js_file inner) w)
       | (Ok delivered, w) \<Rightarrow>
           (Ok \<lparr>fe_inner = inner, fe_delivered = delivered,
                fe_delivered_set = set (jsonl_all (delivered, w)), fe_fs = w\<rparr>, w))"

definition fe_append ::
  "event_codecs \<Rightarrow> event_envelope \<Rightarrow> file_event_store \<Rightarrow> (unit, io_error) result \<times> file_event_store"
where
  "fe_append cs event s = on_inner (jsonl_append (fst cs) event) s"

definition fe_all :: "file_event_store \<Rightarrow> event_envelope list" where
  "fe_all s = jsonl_all (fe_inner s, fe_fs s)"

definition fe_get :: "event_id \<Rightarrow> file_event_store \<Rightarrow> event_envelope option" where
  "fe_get i s = jsonl_find (\<lambda>event. ev_id event = i) (fe_inner s, fe_fs s)"

definition fe_mark_delivered ::
  "event_codecs \<Rightarrow> event_id \<Rightarrow> file_event_store \<Rightarrow> (unit, io_error) result \<times> file_event_store" where
  "fe_mark_delivered cs i s =
     (if i \<in> fe_delivered_set s then (Ok (), s)
      else and_then (on_delivered (jsonl_append (snd cs) i) s) (\<lambda>_ s.
             (Ok (), s\<lparr>fe_delivered_set := insert i (fe_delivered_set s)\<rparr>)))"

definition fe_undelivered :: "file_event_store \<Rightarrow> event_envelope list" where
  "fe_undelivered s = filter (\<lambda>event. ev_id event \<notin> fe_delivered_set s) (fe_all s)"

definition fe_enforce_retention ::
  "event_codecs \<Rightarrow> auto_retention \<Rightarrow> timestamp \<Rightarrow> file_event_store
     \<Rightarrow> (nat, io_error) result \<times> file_event_store" where
  "fe_enforce_retention cs policy now s =
     (if is_unbounded policy then (Ok 0, s)
      else
        let delivered = fe_delivered_set s;
            select = (\<lambda>events. retain_events (to_vec (fst cs)) events delivered policy now);
            kept_ids = set (map ev_id (select (fe_all s)))
        in and_then (on_inner (jsonl_retain (fst cs) select) s) (\<lambda>removed s.
             if removed > 0
             then let kept_delivered = filter (\<lambda>i. i \<in> kept_ids) (sorted_list_of_set delivered)
                  in and_then (on_delivered (jsonl_replace_all (snd cs) kept_delivered) s) (\<lambda>_ s.
                       (Ok removed, s\<lparr>fe_delivered_set := set kept_delivered\<rparr>))
             else (Ok removed, s)))"

definition fe_prune ::
  "event_codecs \<Rightarrow> manual_retention \<Rightarrow> file_event_store \<Rightarrow> (nat, io_error) result \<times> file_event_store"
where
  "fe_prune cs policy s = on_inner (jsonl_prune (fst cs) policy ev_timestamp) s"

definition fe_len :: "file_event_store \<Rightarrow> nat" where
  "fe_len s = jsonl_len (fe_inner s, fe_fs s)"

definition fe_size_bytes :: "file_event_store \<Rightarrow> nat" where
  "fe_size_bytes s =
     jsonl_size_bytes (fe_inner s, fe_fs s) + jsonl_size_bytes (fe_delivered s, fe_fs s)"

definition fe_store :: "event_codecs \<Rightarrow> file_event_store event_store_ops" where
  "fe_store cs =
     \<lparr>es_append = fe_append cs, es_get = fe_get, es_all = fe_all,
      es_mark_delivered = fe_mark_delivered cs, es_undelivered = fe_undelivered,
      es_enforce_retention = fe_enforce_retention cs, es_len = fe_len,
      es_size_bytes = fe_size_bytes, es_prune = fe_prune cs\<rparr>"

subsection \<open>The contract\<close>

text \<open>What every event store promises, whether its calls succeed or fail: the events in append order,
  the delivered ids, and how each operation changes them. The parameter \<open>delivered\<close> is the
  abstraction of a state to its set of delivered ids.\<close>

locale event_store =
  fixes ops :: "'s event_store_ops"
    and enc :: "event_envelope encoder"
    and delivered :: "'s \<Rightarrow> event_id set"
  assumes append_Ok: "es_append ops e s = (Ok u, s') \<Longrightarrow>
      es_all ops s' = es_all ops s @ [e] \<and> delivered s' = delivered s"
    and append_Err: "es_append ops e s = (Err x, s') \<Longrightarrow>
      es_all ops s' = es_all ops s \<and> delivered s' = delivered s"
    and get_eq: "es_get ops i s = List.find (\<lambda>e. ev_id e = i) (es_all ops s)"
    and mark_Ok: "es_mark_delivered ops i s = (Ok u, s') \<Longrightarrow>
      es_all ops s' = es_all ops s \<and> delivered s' = insert i (delivered s)"
    and mark_Err: "es_mark_delivered ops i s = (Err x, s') \<Longrightarrow>
      es_all ops s' = es_all ops s \<and> delivered s' = delivered s"
    and undelivered_eq: "es_undelivered ops s = filter (\<lambda>e. ev_id e \<notin> delivered s) (es_all ops s)"
    and retention_Ok: "finite (delivered s) \<Longrightarrow> es_enforce_retention ops p now s = (Ok n, s') \<Longrightarrow>
      es_all ops s' = retain_events enc (es_all ops s) (delivered s) p now
      \<and> n = length (es_all ops s) - length (es_all ops s')
      \<and> delivered s' = (if n = 0 then delivered s else delivered s \<inter> ev_id ` set (es_all ops s'))"
    and retention_Err: "es_enforce_retention ops p now s = (Err x, s') \<Longrightarrow>
      delivered s' = delivered s
      \<and> es_all ops s' \<in> {es_all ops s, retain_events enc (es_all ops s) (delivered s) p now}"
    and len_eq: "es_len ops s = length (es_all ops s)"
    and prune_Ok: "es_prune ops m s = (Ok n, s') \<Longrightarrow>
      es_all ops s' = keep m (es_all ops s) ev_timestamp
      \<and> n = length (es_all ops s) - length (es_all ops s') \<and> delivered s' = delivered s"
    and prune_Err: "es_prune ops m s = (Err x, s') \<Longrightarrow>
      es_all ops s' = es_all ops s \<and> delivered s' = delivered s"
begin

lemma append_all:
  "es_append ops e s = (r, s') \<Longrightarrow>
     es_all ops s' = (if is_ok r then es_all ops s @ [e] else es_all ops s)
     \<and> delivered s' = delivered s"
  by (cases r) (auto dest: append_Ok append_Err)

lemma mark_delivered_state:
  "es_mark_delivered ops i s = (r, s') \<Longrightarrow>
     es_all ops s' = es_all ops s
     \<and> delivered s' = (if is_ok r then insert i (delivered s) else delivered s)"
  by (cases r) (auto dest: mark_Ok mark_Err)

lemma in_undelivered_iff:
  "e \<in> set (es_undelivered ops s) \<longleftrightarrow> e \<in> set (es_all ops s) \<and> ev_id e \<notin> delivered s"
  by (auto simp: undelivered_eq)

lemma undelivered_append:
  "es_append ops e s = (Ok u, s') \<Longrightarrow> ev_id e \<notin> delivered s \<Longrightarrow>
     es_undelivered ops s' = es_undelivered ops s @ [e]"
  using append_Ok [of e s u s'] by (simp add: undelivered_eq)

lemma undelivered_mark:
  "es_mark_delivered ops i s = (Ok u, s') \<Longrightarrow>
     es_undelivered ops s' = filter (\<lambda>e. ev_id e \<noteq> i) (es_undelivered ops s)"
  using mark_Ok [of i s u s'] by (auto simp: undelivered_eq intro: filter_cong)

lemma undelivered_retention:
  assumes "finite (delivered s)" and "es_enforce_retention ops p now s = (Ok n, s')"
  shows "es_undelivered ops s' =
     filter (\<lambda>e. ev_id e \<notin> delivered s) (retain_events enc (es_all ops s) (delivered s) p now)"
  using retention_Ok [OF assms] by (auto simp: undelivered_eq intro!: filter_cong)

lemma find_key_append:
  "es_append ops e s = (Ok u, s') \<Longrightarrow> idempotency_key (ev_metadata e) = Some k \<Longrightarrow>
     find_by_idempotency_key ops k s' =
       (case find_by_idempotency_key ops k s of None \<Rightarrow> Some e | Some x \<Rightarrow> Some x)"
  using append_Ok [of e s u s'] by (simp add: find_by_idempotency_key_def find_append split: option.split)

lemma get_append:
  "es_append ops e s = (Ok u, s') \<Longrightarrow>
     es_get ops i s' = (case es_get ops i s of
        Some x \<Rightarrow> Some x | None \<Rightarrow> if ev_id e = i then Some e else None)"
  using append_Ok [of e s u s'] by (simp add: get_eq find_append split: option.split)

end

subsection \<open>Both implementations keep the contract\<close>

lemma keep_all_same_length: "length (keep m xs f) \<ge> length xs \<Longrightarrow> keep m xs f = xs"
  using keep_subseq [of m xs f] by (metis subseq_length_diff subseq_same_length_eq order_antisym)

lemma retain_events_same_length:
  "length (retain_events enc es d p now) \<ge> length es \<Longrightarrow> retain_events enc es d p now = es"
  using retain_events_subseq [of enc es d p now]
  by (metis subseq_length_diff subseq_same_length_eq order_antisym)

lemma im_retention:
  assumes "im_enforce_retention enc p now s = (r, s')"
  shows "im_events s' = retain_events enc (im_events s) (im_delivered s) p now
       \<and> r = Ok (length (im_events s) - length (im_events s'))
       \<and> im_delivered s' = (if r = Ok 0 then im_delivered s else im_delivered s \<inter> ev_id ` set (im_events s'))"
proof (cases "is_unbounded p")
  case True
  with assms show ?thesis by (auto simp: im_enforce_retention_def retain_events_unbounded)
next
  case False
  show ?thesis
  proof (cases "length (retain_events enc (im_events s) (im_delivered s) p now) < length (im_events s)")
    case True
    with False assms show ?thesis by (auto simp: im_enforce_retention_def Let_def)
  next
    case len: False
    with retain_events_same_length [of "im_events s" enc "im_delivered s" p now] False assms
    show ?thesis by (auto simp: im_enforce_retention_def Let_def)
  qed
qed

lemma im_store_laws:
  "es_append (im_store enc) = im_append" "es_all (im_store enc) = im_events"
  "es_mark_delivered (im_store enc) = im_mark_delivered" "es_prune (im_store enc) = im_prune"
  "es_enforce_retention (im_store enc) = im_enforce_retention enc"
  "es_get (im_store enc) i s = List.find (\<lambda>e. ev_id e = i) (im_events s)"
  "es_len (im_store enc) s = length (im_events s)"
  "es_undelivered (im_store enc) s = filter (\<lambda>e. ev_id e \<notin> im_delivered s) (im_events s)"
  by (simp_all add: im_store_def im_get_def im_undelivered_def)

interpretation im: event_store "im_store enc" enc im_delivered for enc
proof (unfold_locales, unfold im_store_laws, goal_cases)
  case (7 s p now n s')
  from im_retention [OF 7(2)] show ?case by simp
next
  case (8 p now s x s')
  from im_retention [OF 8] show ?case by simp
qed (auto simp: im_append_def im_mark_delivered_def im_prune_def Let_def)

text \<open>The file store's calls in terms of the records in memory.\<close>

lemma jsonl_append_memory:
  assumes "jsonl_append c r s = (res, s')"
  shows "js_records (fst s') = (if is_ok res then js_records (fst s) @ [r] else js_records (fst s))"
proof (cases s)
  case (Pair st w)
  show ?thesis
  proof (cases res)
    case (Ok u)
    with assms Pair jsonl_append_Ok [of c r st w u "fst s'" "snd s'"] show ?thesis by simp
  next
    case (Err e)
    with assms Pair jsonl_append_Err [of c r st w e "fst s'" "snd s'"] show ?thesis by simp
  qed
qed

lemma jsonl_replace_all_memory:
  "jsonl_replace_all c kept s = (res, s') \<Longrightarrow>
     js_records (fst s') = (if is_ok res then kept else js_records (fst s))"
  by (auto simp: jsonl_replace_all_def split: prod.splits result.splits)

lemma jsonl_retain_memory:
  assumes "jsonl_retain c f s = (res, s')" and "subseq (f (js_records (fst s))) (js_records (fst s))"
  shows "js_records (fst s') = (if is_ok res then f (js_records (fst s)) else js_records (fst s))
       \<and> (\<forall>n. res = Ok n \<longrightarrow> n = length (js_records (fst s)) - length (js_records (fst s')))"
proof -
  obtain st w st' w' where s: "s = (st, w)" "s' = (st', w')" by (cases s, cases s') blast
  from assms(1) [unfolded s] show ?thesis
  proof (cases rule: jsonl_retain_cases)
    case same
    with assms(2) s have "f (js_records st) = js_records st"
      by (metis fst_conv subseq_length_diff subseq_same_length_eq order_antisym)
    with same s show ?thesis by simp
  next
    case (compacted r)
    with jsonl_replace_all_memory [OF compacted(2)] s show ?thesis by (cases res) auto
  qed
qed

lemma fe_append_memory:
  "fe_append cs e s = (r, s') \<Longrightarrow>
     fe_all s' = (if is_ok r then fe_all s @ [e] else fe_all s)
     \<and> fe_delivered_set s' = fe_delivered_set s"
  by (auto simp: fe_append_def on_inner_def fe_all_def jsonl_all_def split: prod.splits
      dest!: jsonl_append_memory)

lemma fe_mark_delivered_memory:
  "fe_mark_delivered cs i s = (r, s') \<Longrightarrow>
     fe_all s' = fe_all s
     \<and> fe_delivered_set s' = (if is_ok r then insert i (fe_delivered_set s) else fe_delivered_set s)"
  by (cases r)
     (auto simp: fe_mark_delivered_def on_delivered_def fe_all_def jsonl_all_def and_then_eq_Ok
      and_then_eq_Err split: prod.splits if_splits)

lemma on_inner_retain_memory:
  assumes "on_inner (jsonl_retain c f) s = (r, s')" and "\<And>es. subseq (f es) es"
  shows "fe_all s' = (if is_ok r then f (fe_all s) else fe_all s)
     \<and> (\<forall>n. r = Ok n \<longrightarrow> n = length (fe_all s) - length (fe_all s'))
     \<and> fe_delivered_set s' = fe_delivered_set s"
proof -
  obtain st w where j: "jsonl_retain c f (fe_inner s, fe_fs s) = (r, (st, w))"
    and s': "s' = s\<lparr>fe_inner := st, fe_fs := w\<rparr>"
    using assms(1) by (auto simp: on_inner_def split: prod.splits)
  from jsonl_retain_memory [OF j] assms(2) s' show ?thesis
    by (cases r) (simp_all add: fe_all_def jsonl_all_def)
qed

lemma fe_prune_memory:
  assumes "fe_prune cs m s = (r, s')"
  shows "fe_all s' = (if is_ok r then keep m (fe_all s) ev_timestamp else fe_all s)
     \<and> (\<forall>n. r = Ok n \<longrightarrow> n = length (fe_all s) - length (fe_all s'))
     \<and> fe_delivered_set s' = fe_delivered_set s"
  using on_inner_retain_memory [OF assms [unfolded fe_prune_def jsonl_prune_retain] keep_subseq] .

text \<open>The three ways a bounded sweep ends after the log has been compacted or left alone.\<close>

lemma fe_retention_cases:
  assumes "fe_enforce_retention cs p now s = (r, s')" and "\<not> is_unbounded p"
  obtains n s1 where "on_inner (jsonl_retain (fst cs) (\<lambda>es. retain_events (to_vec (fst cs)) es (fe_delivered_set s) p now)) s
      = (Ok n, s1)" "n > 0" "is_ok r \<Longrightarrow> r = Ok n" "fe_all s' = fe_all s1"
      "fe_delivered_set s' = (if is_ok r then set (filter
          (\<lambda>i. i \<in> set (map ev_id (retain_events (to_vec (fst cs)) (fe_all s) (fe_delivered_set s) p now)))
          (sorted_list_of_set (fe_delivered_set s))) else fe_delivered_set s1)"
  | "on_inner (jsonl_retain (fst cs) (\<lambda>es. retain_events (to_vec (fst cs)) es (fe_delivered_set s) p now)) s = (r, s')"
      "r = Ok 0 \<or> \<not> is_ok r"
proof -
  let ?f = "\<lambda>es. retain_events (to_vec (fst cs)) es (fe_delivered_set s) p now"
  let ?kd = "filter (\<lambda>i. i \<in> set (map ev_id (?f (fe_all s)))) (sorted_list_of_set (fe_delivered_set s))"
  obtain r1 s1 where i: "on_inner (jsonl_retain (fst cs) ?f) s = (r1, s1)" by force
  obtain r2 s2 where d: "on_delivered (jsonl_replace_all (snd cs) ?kd) s1 = (r2, s2)" by force
  then have frame: "fe_all s2 = fe_all s1" "fe_delivered_set s2 = fe_delivered_set s1"
    by (auto simp: on_delivered_def fe_all_def jsonl_all_def split: prod.splits)
  show thesis
  proof (cases "\<exists>n > 0. r1 = Ok n")
    case True
    then obtain n where n: "r1 = Ok n" "n > 0" by blast
    with i d assms have "and_then (r2, s2) (\<lambda>_ s. (Ok n, s\<lparr>fe_delivered_set := set ?kd\<rparr>)) = (r, s')"
      by (simp add: fe_enforce_retention_def Let_def)
    then have fin: "if is_ok r then r = Ok n \<and> s' = s2\<lparr>fe_delivered_set := set ?kd\<rparr> else s' = s2"
      by (cases r2) auto
    have "fe_all s' = fe_all s1" using fin frame(1) by (auto simp: fe_all_def jsonl_all_def split: if_splits)
    moreover have "fe_delivered_set s' = (if is_ok r then set ?kd else fe_delivered_set s1)"
      using fin frame(2) by (cases r) simp_all
    ultimately show thesis using that(1) [of n s1] i n fin by (cases r) simp_all
  next
    case False
    with i assms have eq: "r = r1" "s' = s1" by (cases r1; simp add: fe_enforce_retention_def Let_def)+
    have "r = Ok 0 \<or> \<not> is_ok r" using False by (cases r1) (auto simp: eq)
    moreover have "on_inner (jsonl_retain (fst cs) ?f) s = (r, s')" using i by (simp only: eq)
    ultimately show thesis by (rule that(2) [rotated])
  qed
qed

lemma fe_retention_memory:
  assumes "fe_enforce_retention cs p now s = (r, s')"
  shows "case r of
      Ok n \<Rightarrow> fe_all s' = retain_events (to_vec (fst cs)) (fe_all s) (fe_delivered_set s) p now
        \<and> n = length (fe_all s) - length (fe_all s')
        \<and> fe_delivered_set s' = (if n = 0 then fe_delivered_set s
             else set (sorted_list_of_set (fe_delivered_set s)) \<inter> ev_id ` set (fe_all s'))
    | Err e \<Rightarrow> fe_delivered_set s' = fe_delivered_set s
        \<and> fe_all s' \<in> {fe_all s, retain_events (to_vec (fst cs)) (fe_all s) (fe_delivered_set s) p now}"
proof (cases "is_unbounded p")
  case True
  with assms show ?thesis by (auto simp: fe_enforce_retention_def retain_events_unbounded)
next
  case False
  note mem = on_inner_retain_memory [OF _ retain_events_subseq]
  from assms False show ?thesis
  proof (cases rule: fe_retention_cases)
    case (1 n s1)
    from mem [OF 1(1)] 1 show ?thesis by (cases r) auto
  next
    case 2
    from mem [OF 2(1)] 2(2) show ?thesis by (cases r) auto
  qed
qed

lemma fe_store_laws:
  "es_append (fe_store cs) = fe_append cs" "es_all (fe_store cs) = fe_all"
  "es_mark_delivered (fe_store cs) = fe_mark_delivered cs" "es_prune (fe_store cs) = fe_prune cs"
  "es_enforce_retention (fe_store cs) = fe_enforce_retention cs"
  "es_get (fe_store cs) i s = List.find (\<lambda>e. ev_id e = i) (fe_all s)"
  "es_len (fe_store cs) s = length (fe_all s)"
  "es_undelivered (fe_store cs) s = filter (\<lambda>e. ev_id e \<notin> fe_delivered_set s) (fe_all s)"
  by (simp_all add: fe_store_def fe_get_def fe_undelivered_def fe_len_def jsonl_find_def
      jsonl_len_def fe_all_def jsonl_all_def)

interpretation fe: event_store "fe_store cs" "to_vec (fst cs)" fe_delivered_set for cs
proof (unfold_locales, unfold fe_store_laws, goal_cases)
  case (7 s p now n s')
  from fe_retention_memory [OF 7(2)] 7(1) show ?case by (simp split: if_splits)
next
  case (8 p now s x s')
  from fe_retention_memory [OF 8] show ?case by simp
qed ((drule fe_append_memory fe_mark_delivered_memory fe_prune_memory, simp) | simp)+

end
