(* ===== verification/Dead_Trigger_Queues.thy ===== *)
theory Dead_Trigger_Queues
  imports Event_Stores
begin

text \<open>
  The dead-trigger queues of \<open>crates/triggerlane-storage/src/lib.rs\<close>: the trait \<open>DeadTriggerQueue\<close> as
  a record of operations, \<open>InMemoryDeadTriggerQueue\<close> and \<open>FileDeadTriggerQueue\<close>. The locale
  \<open>dead_trigger_queue\<close> states what every implementation promises; both interpret it.
\<close>

subsection \<open>The trait\<close>

record 'q dead_trigger_ops =
  dq_record :: "dead_trigger_record \<Rightarrow> 'q \<Rightarrow> (unit, io_error) result \<times> 'q"
  dq_all :: "'q \<Rightarrow> dead_trigger_record list"
  dq_drain :: "'q \<Rightarrow> (dead_trigger_record list, io_error) result \<times> 'q"
  dq_prune :: "manual_retention \<Rightarrow> 'q \<Rightarrow> (nat, io_error) result \<times> 'q"
  dq_len :: "'q \<Rightarrow> nat"
  dq_size_bytes :: "'q \<Rightarrow> nat"
  dq_enforce_retention :: "auto_retention \<Rightarrow> timestamp \<Rightarrow> 'q \<Rightarrow> (nat, io_error) result \<times> 'q"

text \<open>The trait with its default methods.\<close>

definition provided_dead_trigger_ops ::
  "(dead_trigger_record \<Rightarrow> 'q \<Rightarrow> (unit, io_error) result \<times> 'q) \<Rightarrow> ('q \<Rightarrow> dead_trigger_record list)
     \<Rightarrow> ('q \<Rightarrow> (dead_trigger_record list, io_error) result \<times> 'q)
     \<Rightarrow> (manual_retention \<Rightarrow> 'q \<Rightarrow> (nat, io_error) result \<times> 'q) \<Rightarrow> ('q \<Rightarrow> nat) \<Rightarrow> 'q dead_trigger_ops" where
  "provided_dead_trigger_ops record all drain prune len =
     \<lparr>dq_record = record, dq_all = all, dq_drain = drain, dq_prune = prune, dq_len = len, dq_size_bytes = (\<lambda>_. 0),
      dq_enforce_retention = (\<lambda>_ _ q. (Ok 0, q))\<rparr>"

definition dq_is_empty :: "('q, 'm) dead_trigger_ops_scheme \<Rightarrow> 'q \<Rightarrow> bool" where
  "dq_is_empty ops q \<longleftrightarrow> dq_len ops q = 0"

definition dt_timestamp :: "dead_trigger_record \<Rightarrow> timestamp" where
  "dt_timestamp r = ev_timestamp (dt_event r)"

subsection \<open>The in-memory queue\<close>

type_synonym in_memory_queue = "dead_trigger_record list"

definition imq_record ::
  "dead_trigger_record \<Rightarrow> in_memory_queue \<Rightarrow> (unit, io_error) result \<times> in_memory_queue" where
  "imq_record r q = (Ok (), q @ [r])"

definition imq_drain :: "in_memory_queue \<Rightarrow> (dead_trigger_record list, io_error) result \<times> in_memory_queue"
where
  "imq_drain q = (Ok q, [])"

definition imq_prune :: "manual_retention \<Rightarrow> in_memory_queue \<Rightarrow> (nat, io_error) result \<times> in_memory_queue"
where
  "imq_prune policy q =
     (let kept = keep policy q dt_timestamp in (Ok (length q - length kept), kept))"

definition imq_enforce_retention ::
  "dead_trigger_record encoder \<Rightarrow> auto_retention \<Rightarrow> timestamp \<Rightarrow> in_memory_queue
     \<Rightarrow> (nat, io_error) result \<times> in_memory_queue" where
  "imq_enforce_retention enc policy now q =
     (if is_unbounded policy then (Ok 0, q)
      else
        let kept = retain_dead_triggers enc q policy now;
            removed = length q - length kept
        in if removed > 0 then (Ok removed, kept) else (Ok removed, q))"

definition im_queue :: "dead_trigger_record encoder \<Rightarrow> in_memory_queue dead_trigger_ops" where
  "im_queue enc =
     \<lparr>dq_record = imq_record, dq_all = (\<lambda>q. q), dq_drain = imq_drain, dq_prune = imq_prune,
      dq_len = length, dq_size_bytes = (\<lambda>_. 0), dq_enforce_retention = imq_enforce_retention enc\<rparr>"

subsection \<open>The file queue\<close>

type_synonym file_queue = "dead_trigger_record jsonl"
type_synonym queue_codec = "dead_trigger_record codec"

definition fq_open :: "queue_codec \<Rightarrow> string \<Rightarrow> fs \<Rightarrow> (dead_trigger_record jsonl_store, io_error) result \<times> fs"
where
  "fq_open c p w = jsonl_open c p w"

definition fq_record ::
  "queue_codec \<Rightarrow> dead_trigger_record \<Rightarrow> file_queue \<Rightarrow> (unit, io_error) result \<times> file_queue" where
  "fq_record c r q = jsonl_append c r q"

definition fq_drain :: "file_queue \<Rightarrow> (dead_trigger_record list, io_error) result \<times> file_queue" where
  "fq_drain q = jsonl_drain q"

definition fq_prune ::
  "queue_codec \<Rightarrow> manual_retention \<Rightarrow> file_queue \<Rightarrow> (nat, io_error) result \<times> file_queue" where
  "fq_prune c policy q = jsonl_prune c policy dt_timestamp q"

definition fq_enforce_retention ::
  "queue_codec \<Rightarrow> auto_retention \<Rightarrow> timestamp \<Rightarrow> file_queue \<Rightarrow> (nat, io_error) result \<times> file_queue" where
  "fq_enforce_retention c policy now q =
     (if is_unbounded policy then (Ok 0, q)
      else jsonl_retain c (\<lambda>records. retain_dead_triggers (to_vec c) records policy now) q)"

definition file_dead_trigger_queue :: "queue_codec \<Rightarrow> file_queue dead_trigger_ops" where
  "file_dead_trigger_queue c =
     \<lparr>dq_record = fq_record c, dq_all = jsonl_all, dq_drain = fq_drain, dq_prune = fq_prune c,
      dq_len = jsonl_len, dq_size_bytes = jsonl_size_bytes,
      dq_enforce_retention = fq_enforce_retention c\<rparr>"

subsection \<open>The contract\<close>

locale dead_trigger_queue =
  fixes qops :: "'q dead_trigger_ops"
    and qenc :: "dead_trigger_record encoder"
  assumes record_Ok: "dq_record qops r q = (Ok u, q') \<Longrightarrow> dq_all qops q' = dq_all qops q @ [r]"
    and record_Err: "dq_record qops r q = (Err x, q') \<Longrightarrow> dq_all qops q' = dq_all qops q"
    and drain_Ok: "dq_drain qops q = (Ok rs, q') \<Longrightarrow> rs = dq_all qops q \<and> dq_all qops q' = []"
    and drain_Err: "dq_drain qops q = (Err x, q') \<Longrightarrow> dq_all qops q' = dq_all qops q"
    and prune_Ok: "dq_prune qops m q = (Ok n, q') \<Longrightarrow>
      dq_all qops q' = keep m (dq_all qops q) dt_timestamp
      \<and> n = length (dq_all qops q) - length (dq_all qops q')"
    and prune_Err: "dq_prune qops m q = (Err x, q') \<Longrightarrow> dq_all qops q' = dq_all qops q"
    and retention_Ok: "dq_enforce_retention qops p now q = (Ok n, q') \<Longrightarrow>
      dq_all qops q' = retain_dead_triggers qenc (dq_all qops q) p now
      \<and> n = length (dq_all qops q) - length (dq_all qops q')"
    and retention_Err: "dq_enforce_retention qops p now q = (Err x, q') \<Longrightarrow>
      dq_all qops q' = dq_all qops q"
    and len_eq: "dq_len qops q = length (dq_all qops q)"
begin

lemma record_all:
  "dq_record qops r q = (res, q') \<Longrightarrow>
     dq_all qops q' = (if is_ok res then dq_all qops q @ [r] else dq_all qops q)"
  by (cases res) (auto dest: record_Ok record_Err)

lemma drain_then_record:
  "dq_drain qops q = (Ok rs, q1) \<Longrightarrow> dq_record qops r q1 = (Ok u, q2) \<Longrightarrow> dq_all qops q2 = [r]"
  using drain_Ok [of q rs q1] record_Ok [of r q1 u q2] by simp

lemma retention_shrinks:
  "dq_enforce_retention qops p now q = (res, q') \<Longrightarrow> subseq (dq_all qops q') (dq_all qops q)"
  by (cases res) (auto dest!: retention_Ok retention_Err simp: retain_dead_triggers_subseq)

end

subsection \<open>Both implementations keep the contract\<close>

lemma retain_dead_triggers_same_length:
  "length (retain_dead_triggers enc rs p now) \<ge> length rs \<Longrightarrow> retain_dead_triggers enc rs p now = rs"
  using retain_dead_triggers_subseq [of enc rs p now]
  by (metis subseq_length_diff subseq_same_length_eq order_antisym)

interpretation imq: dead_trigger_queue "im_queue enc" enc for enc
  by unfold_locales
    (auto simp: im_queue_def imq_record_def imq_drain_def imq_prune_def imq_enforce_retention_def
      Let_def retain_dead_triggers_unbounded retain_dead_triggers_same_length split: if_splits)

lemma fq_retention_memory:
  assumes "fq_enforce_retention c p now q = (r, q')"
  shows "jsonl_all q' =
       (if is_ok r then retain_dead_triggers (to_vec c) (jsonl_all q) p now else jsonl_all q)
     \<and> (\<forall>n. r = Ok n \<longrightarrow> n = length (jsonl_all q) - length (jsonl_all q'))"
proof (cases "is_unbounded p")
  case True
  with assms show ?thesis by (auto simp: fq_enforce_retention_def retain_dead_triggers_unbounded)
next
  case False
  let ?f = "\<lambda>records. retain_dead_triggers (to_vec c) records p now"
  from False assms have "jsonl_retain c ?f q = (r, q')" by (simp add: fq_enforce_retention_def)
  from jsonl_retain_memory [OF this] retain_dead_triggers_subseq show ?thesis
    by (cases r) (simp_all add: jsonl_all_def)
qed

lemma fq_prune_memory:
  assumes "fq_prune c m q = (r, q')"
  shows "jsonl_all q' = (if is_ok r then keep m (jsonl_all q) dt_timestamp else jsonl_all q)
     \<and> (\<forall>n. r = Ok n \<longrightarrow> n = length (jsonl_all q) - length (jsonl_all q'))"
  using jsonl_retain_memory [OF assms [unfolded fq_prune_def jsonl_prune_retain]]
  by (cases r) (simp_all add: jsonl_all_def keep_subseq)

lemma fq_drain_memory:
  "fq_drain q = (r, q') \<Longrightarrow>
     (\<forall>rs. r = Ok rs \<longrightarrow> rs = jsonl_all q) \<and> jsonl_all q' = (if is_ok r then [] else jsonl_all q)"
  by (cases q; cases q'; cases r)
     (auto simp: fq_drain_def jsonl_all_def dest!: jsonl_drain_Ok jsonl_drain_Err)

lemma file_queue_ops:
  "dq_record (file_dead_trigger_queue c) = jsonl_append c"
  "dq_all (file_dead_trigger_queue c) = jsonl_all"
  "dq_drain (file_dead_trigger_queue c) = fq_drain"
  "dq_prune (file_dead_trigger_queue c) = fq_prune c"
  "dq_enforce_retention (file_dead_trigger_queue c) = fq_enforce_retention c"
  "dq_len (file_dead_trigger_queue c) q = length (jsonl_all q)"
  by (simp_all add: file_dead_trigger_queue_def fq_record_def fun_eq_iff jsonl_len_def jsonl_all_def)

interpretation fq: dead_trigger_queue "file_dead_trigger_queue c" "to_vec c" for c
  by (unfold_locales; unfold file_queue_ops)
     ((drule fq_drain_memory fq_prune_memory fq_retention_memory
         jsonl_append_memory [folded jsonl_all_def], simp) | simp)+

end
