(* ===== verification/Runtime.thy ===== *)
theory Runtime
  imports Registry Dead_Trigger_Queues
begin

text \<open>
  \<open>TriggerRuntime\<close> of \<open>crates/triggerlane-runtime/src/lib.rs\<close>: handling an event, submission with
  retries, the dead-trigger retry pass, replay, traces and metrics. The \<open>worklane-core\<close> crate is a
  parameter, a \<open>broker_api\<close> over a broker state: lane validation, \<open>enqueue\<close>, \<open>pending_count\<close>, and the
  construction and printing of its errors. A job id is its printed form. The awaited broker call is
  one step; metrics, log lines and sleeps are appended to logs in the state, a histogram without the
  measured duration.
\<close>

subsection \<open>The broker\<close>

record 'l new_job =
  nj_lane :: 'l
  nj_kind :: string
  nj_payload :: bytes
  nj_max_attempts :: u32
  nj_unique_key :: "string option"

record ('b, 'l, 'e) broker_api =
  lane_try_from :: "string \<Rightarrow> ('l, string) result"
  enqueue :: "'l new_job \<Rightarrow> 'b \<Rightarrow> (string, 'e) result \<times> 'b"
  pending_count :: "'l \<Rightarrow> 'b \<Rightarrow> (nat, 'e) result \<times> 'b"
  broker_error :: "string \<Rightarrow> 'e"
  broker_error_to_string :: "'e \<Rightarrow> string"

subsection \<open>Reports, traces, metrics\<close>

record handle_report =
  hr_submitted :: "string list"
  hr_failed :: "dead_trigger_record list"

record dead_trigger_retry_report =
  rr_drained :: nat
  rr_events_retried :: nat
  rr_recovered :: nat
  rr_still_failed :: nat
  rr_submitted :: "string list"

record replay_filter =
  rf_event_type :: "string option"
  rf_source :: "source option"

record replay_event_report =
  re_event_id :: string
  re_report :: handle_report

record trigger_trace =
  tr_event_id :: string
  tr_event_type :: event_type
  tr_source :: source
  tr_matched_triggers :: "string list"
  tr_submitted :: "string list"
  tr_failure_count :: nat

datatype log_level = Warn | Info | Debug

datatype trace_sink = NoopTraceSink | InMemoryTraceSink | LoggingTraceSink

datatype metric =
    Counter string "(string \<times> string) list"
  | Gauge string "(string \<times> string) list" nat
  | Histogram string

datatype runtime_error = Binding binding_error | Storage io_error

datatype replay_error = EventNotFound string | Runtime runtime_error

subsection \<open>The runtime\<close>

record ('b, 'l, 'e, 'q) trigger_runtime =
  rt_uuid :: uuid_api
  rt_registry :: trigger_registry
  rt_broker :: "('b, 'l, 'e) broker_api"
  rt_dead_triggers :: "'q dead_trigger_ops"
  rt_options :: runtime_options
  rt_trace_sink :: trace_sink

record ('b, 'q) rt_state =
  st_broker :: 'b
  st_queue :: 'q
  st_observed_lanes :: "string set"
  st_traces :: "trigger_trace list"
  st_log :: "(log_level \<times> trigger_trace) list"
  st_metrics :: "metric list"
  st_slept :: "std_duration list"

definition binding_error_to_string :: "binding_error \<Rightarrow> string" where
  "binding_error_to_string e = (case e of Rejected m \<Rightarrow> ''binding rejected event: '' @ m)"

definition emit :: "metric \<Rightarrow> ('b, 'q) rt_state \<Rightarrow> ('b, 'q) rt_state" where
  "emit m s = s\<lparr>st_metrics := st_metrics s @ [m]\<rparr>"

definition sink_record :: "trace_sink \<Rightarrow> trigger_trace \<Rightarrow> ('b, 'q) rt_state \<Rightarrow> ('b, 'q) rt_state" where
  "sink_record sink trace s = (case sink of
     NoopTraceSink \<Rightarrow> s
   | InMemoryTraceSink \<Rightarrow> s\<lparr>st_traces := st_traces s @ [trace]\<rparr>
   | LoggingTraceSink \<Rightarrow>
       s\<lparr>st_log := st_log s @ [(if tr_failure_count trace > 0 then Warn else Info, trace)]\<rparr>)"

definition from_event_report ::
  "uuid_api \<Rightarrow> event_envelope \<Rightarrow> string list \<Rightarrow> handle_report \<Rightarrow> trigger_trace" where
  "from_event_report u event matched report =
     \<lparr>tr_event_id = event_id_to_string u (ev_id event), tr_event_type = ev_type event,
      tr_source = ev_source event, tr_matched_triggers = matched,
      tr_submitted = hr_submitted report, tr_failure_count = length (hr_failed report)\<rparr>"

definition source_debug :: "source \<Rightarrow> string" where
  "source_debug s = (case s of
     Http \<Rightarrow> ''Http'' | GitHub \<Rightarrow> ''GitHub'' | Discord \<Rightarrow> ''Discord'' | Slack \<Rightarrow> ''Slack''
   | Cron \<Rightarrow> ''Cron'' | Manual \<Rightarrow> ''Manual'')"

definition record_dead_trigger_depth ::
  "('b, 'l, 'e, 'q) trigger_runtime \<Rightarrow> ('b, 'q) rt_state \<Rightarrow> ('b, 'q) rt_state" where
  "record_dead_trigger_depth rt s =
     emit (Gauge ''triggerlane_dead_triggers'' [] (dq_len (rt_dead_triggers rt) (st_queue s))) s"

text \<open>A fresh runtime state; installing a dead-trigger queue publishes its depth.\<close>

definition rt_new :: "'b \<Rightarrow> 'q \<Rightarrow> ('b, 'q) rt_state" where
  "rt_new b q = \<lparr>st_broker = b, st_queue = q, st_observed_lanes = {}, st_traces = [], st_log = [],
                 st_metrics = [], st_slept = []\<rparr>"

definition with_dead_trigger_queue ::
  "'q \<Rightarrow> ('b, 'l, 'e, 'q) trigger_runtime \<Rightarrow> ('b, 'q) rt_state \<Rightarrow> ('b, 'q) rt_state" where
  "with_dead_trigger_queue q rt s = record_dead_trigger_depth rt (s\<lparr>st_queue := q\<rparr>)"

subsection \<open>Submission\<close>

text \<open>The loop of \<open>enqueue_with_retries\<close> from attempt \<open>n\<close> with \<open>left + 1\<close> attempts left; the
  error of the last attempt is the result when all fail.\<close>

fun submit_attempts ::
  "('b, 'l, 'e, 'q) trigger_runtime \<Rightarrow> 'l new_job \<Rightarrow> nat \<Rightarrow> nat \<Rightarrow> ('b, 'q) rt_state
     \<Rightarrow> (string, 'e) result \<times> ('b, 'q) rt_state" where
  "submit_attempts rt new_job n left s =
     (let delay = (if n > 0
                   then submission_backoff_delay (word_of_nat n) (submission_backoff (rt_options rt))
                   else 0);
          s = (if delay \<noteq> 0 then s\<lparr>st_slept := st_slept s @ [delay]\<rparr> else s)
      in case enqueue (rt_broker rt) new_job (st_broker s) of
           (Ok job_id, b) \<Rightarrow> (Ok job_id, s\<lparr>st_broker := b\<rparr>)
         | (Err e, b) \<Rightarrow>
             (case left of
                0 \<Rightarrow> (Err e, s\<lparr>st_broker := b\<rparr>)
              | Suc left' \<Rightarrow> submit_attempts rt new_job (Suc n) left' (s\<lparr>st_broker := b\<rparr>)))"

declare submit_attempts.simps [simp del]

definition new_job_of :: "'l \<Rightarrow> worklane_job \<Rightarrow> string \<Rightarrow> 'l new_job" where
  "new_job_of lane job key =
     \<lparr>nj_lane = lane, nj_kind = job_kind job, nj_payload = job_payload job,
      nj_max_attempts = job_max_attempts job, nj_unique_key = Some key\<rparr>"

definition enqueue_with_retries ::
  "('b, 'l, 'e, 'q) trigger_runtime \<Rightarrow> worklane_job \<Rightarrow> string \<Rightarrow> ('b, 'q) rt_state
     \<Rightarrow> (string, 'e) result \<times> ('b, 'q) rt_state" where
  "enqueue_with_retries rt job unique_key s =
     (case lane_try_from (rt_broker rt) (job_lane job) of
        Err e \<Rightarrow> (Err (broker_error (rt_broker rt)
                    (''invalid worklane lane '' @ debug_str (job_lane job) @ '': '' @ e)), s)
      | Ok lane \<Rightarrow>
          let s = s\<lparr>st_observed_lanes := insert (job_lane job) (st_observed_lanes s)\<rparr>;
              attempts = max (max_submission_attempts (rt_options rt)) 1
          in submit_attempts rt (new_job_of lane job unique_key) 0 (unat attempts - 1) s)"

subsection \<open>Handling an event\<close>

definition record_dead_trigger ::
  "('b, 'l, 'e, 'q) trigger_runtime \<Rightarrow> event_envelope \<Rightarrow> string \<Rightarrow> string \<Rightarrow> ('b, 'q) rt_state
     \<Rightarrow> (dead_trigger_record, runtime_error) result \<times> ('b, 'q) rt_state" where
  "record_dead_trigger rt event name err s =
     (let record = \<lparr>dt_event = event, dt_trigger_name = name, dt_error = err\<rparr>
      in case dq_record (rt_dead_triggers rt) record (st_queue s) of
           (Ok _, q) \<Rightarrow> (Ok record, s\<lparr>st_queue := q\<rparr>)
         | (Err e, q) \<Rightarrow> (Err (Storage e), s\<lparr>st_queue := q\<rparr>))"

definition event_identity :: "uuid_api \<Rightarrow> event_envelope \<Rightarrow> string" where
  "event_identity u event = (case idempotency_key (ev_metadata event) of
     Some key \<Rightarrow> key | None \<Rightarrow> event_id_to_string u (ev_id event))"

definition unique_key :: "uuid_api \<Rightarrow> event_envelope \<Rightarrow> registered_trigger \<Rightarrow> string" where
  "unique_key u event r = event_identity u event @ '':'' @ rg_name r"

text \<open>The body of the loop over the matching registrations: a job id or a dead-trigger record.\<close>

definition handle_one ::
  "('b, 'l, 'e, 'q) trigger_runtime \<Rightarrow> event_envelope \<Rightarrow> registered_trigger \<Rightarrow> ('b, 'q) rt_state
     \<Rightarrow> (string + dead_trigger_record, runtime_error) result \<times> ('b, 'q) rt_state" where
  "handle_one rt event r s =
     (let label = [(''trigger'', rg_name r)];
          s = emit (Counter ''triggerlane_trigger_matches_total'' label) s;
          failed = (\<lambda>err s.
            and_then (record_dead_trigger rt event (rg_name r) err
                        (emit (Counter ''triggerlane_trigger_failures_total'' label) s))
              (\<lambda>record s. (Ok (Inr record), s)))
      in case rg_bind r event of
           Ok job \<Rightarrow>
             (case enqueue_with_retries rt job (unique_key (rt_uuid rt) event r) s of
                (Ok job_id, s) \<Rightarrow>
                  (Ok (Inl job_id), emit (Counter ''triggerlane_jobs_submitted_total'' label) s)
              | (Err e, s) \<Rightarrow> failed (broker_error_to_string (rt_broker rt) e) s)
         | Err e \<Rightarrow> failed (binding_error_to_string e) s)"

fun handle_loop ::
  "('b, 'l, 'e, 'q) trigger_runtime \<Rightarrow> event_envelope \<Rightarrow> registered_trigger list \<Rightarrow> handle_report
     \<Rightarrow> ('b, 'q) rt_state \<Rightarrow> (handle_report, runtime_error) result \<times> ('b, 'q) rt_state" where
  "handle_loop rt event [] report s = (Ok report, s)"
| "handle_loop rt event (r # rs) report s =
     and_then (handle_one rt event r s) (\<lambda>outcome s.
       handle_loop rt event rs
         (case outcome of
            Inl job_id \<Rightarrow> report\<lparr>hr_submitted := hr_submitted report @ [job_id]\<rparr>
          | Inr record \<Rightarrow> report\<lparr>hr_failed := hr_failed report @ [record]\<rparr>) s)"

definition handle ::
  "('b, 'l, 'e, 'q) trigger_runtime \<Rightarrow> event_envelope \<Rightarrow> ('b, 'q) rt_state
     \<Rightarrow> (handle_report, runtime_error) result \<times> ('b, 'q) rt_state" where
  "handle rt event s =
     (let matched = matching (rt_registry rt) event
      in and_then (handle_loop rt event matched \<lparr>hr_submitted = [], hr_failed = []\<rparr> s) (\<lambda>report s.
           let s = emit (Counter ''triggerlane_events_handled_total''
                     [(''source'', source_debug (ev_source event)),
                      (''event_type'', as_str (ev_type event))]) s;
               s = emit (Histogram ''triggerlane_handle_duration_seconds'') s;
               s = record_dead_trigger_depth rt s
           in (Ok report, sink_record (rt_trace_sink rt)
                 (from_event_report (rt_uuid rt) event (map rg_name matched) report) s)))"

subsection \<open>Retention and metrics\<close>

definition enforce_dead_trigger_retention ::
  "('b, 'l, 'e, 'q) trigger_runtime \<Rightarrow> auto_retention \<Rightarrow> timestamp \<Rightarrow> ('b, 'q) rt_state
     \<Rightarrow> (nat, io_error) result \<times> ('b, 'q) rt_state" where
  "enforce_dead_trigger_retention rt policy now s =
     (case dq_enforce_retention (rt_dead_triggers rt) policy now (st_queue s) of
        (Err e, q) \<Rightarrow> (Err e, s\<lparr>st_queue := q\<rparr>)
      | (Ok removed, q) \<Rightarrow>
          let s = s\<lparr>st_queue := q\<rparr>
          in (Ok removed, if removed > 0 then record_dead_trigger_depth rt s else s))"

definition record_store_metrics ::
  "('b, 'l, 'e, 'q) trigger_runtime \<Rightarrow> 's event_store_ops \<Rightarrow> 's \<Rightarrow> ('b, 'q) rt_state
     \<Rightarrow> ('b, 'q) rt_state" where
  "record_store_metrics rt es store s =
     emit (Gauge ''triggerlane_dead_trigger_bytes'' [] (dq_size_bytes (rt_dead_triggers rt) (st_queue s)))
    (emit (Gauge ''triggerlane_dead_triggers'' [] (dq_len (rt_dead_triggers rt) (st_queue s)))
    (emit (Gauge ''triggerlane_event_store_bytes'' [] (es_size_bytes es store))
    (emit (Gauge ''triggerlane_event_store_records'' [] (es_len es store)) s)))"

fun broker_metrics_loop ::
  "('b, 'l, 'e, 'q) trigger_runtime \<Rightarrow> string list \<Rightarrow> ('b, 'q) rt_state \<Rightarrow> ('b, 'q) rt_state" where
  "broker_metrics_loop rt [] s = s"
| "broker_metrics_loop rt (lane # lanes) s =
     broker_metrics_loop rt lanes
       (case lane_try_from (rt_broker rt) lane of
          Err _ \<Rightarrow> s
        | Ok parsed \<Rightarrow>
            (case pending_count (rt_broker rt) parsed (st_broker s) of
               (Ok pending, b) \<Rightarrow>
                 emit (Gauge ''triggerlane_broker_pending'' [(''lane'', lane)] pending) (s\<lparr>st_broker := b\<rparr>)
             | (Err _, b) \<Rightarrow> s\<lparr>st_broker := b\<rparr>))"

text \<open>The lanes come out of a hash set: any enumeration \<open>lanes\<close> of the observed set.\<close>

definition record_broker_metrics ::
  "('b, 'l, 'e, 'q) trigger_runtime \<Rightarrow> (string set \<Rightarrow> string list) \<Rightarrow> ('b, 'q) rt_state
     \<Rightarrow> ('b, 'q) rt_state" where
  "record_broker_metrics rt enumerate_lanes s =
     broker_metrics_loop rt (enumerate_lanes (st_observed_lanes s)) s"

subsection \<open>Replay\<close>

definition replay_by_id ::
  "('b, 'l, 'e, 'q) trigger_runtime \<Rightarrow> 's event_store_ops \<Rightarrow> 's \<Rightarrow> event_id \<Rightarrow> ('b, 'q) rt_state
     \<Rightarrow> (handle_report, replay_error) result \<times> ('b, 'q) rt_state" where
  "replay_by_id rt es store i s =
     (case es_get es i store of
        None \<Rightarrow> (Err (EventNotFound (event_id_to_string (rt_uuid rt) i)), s)
      | Some event \<Rightarrow> apfst (map_err Runtime) (handle rt event s))"

definition filter_matches :: "replay_filter \<Rightarrow> event_envelope \<Rightarrow> bool" where
  "filter_matches f event \<longleftrightarrow>
     (case rf_event_type f of None \<Rightarrow> True | Some wanted \<Rightarrow> as_str (ev_type event) = wanted)
     \<and> (case rf_source f of None \<Rightarrow> True | Some wanted \<Rightarrow> ev_source event = wanted)"

definition preview_range ::
  "'s event_store_ops \<Rightarrow> 's \<Rightarrow> timestamp \<Rightarrow> timestamp \<Rightarrow> replay_filter \<Rightarrow> event_envelope list" where
  "preview_range es store start stop f =
     filter (filter_matches f)
       (filter (\<lambda>event. ev_timestamp event \<ge> start \<and> ev_timestamp event < stop) (es_all es store))"

fun replay_loop ::
  "('b, 'l, 'e, 'q) trigger_runtime \<Rightarrow> event_envelope list \<Rightarrow> replay_event_report list \<Rightarrow> ('b, 'q) rt_state
     \<Rightarrow> (replay_event_report list, replay_error) result \<times> ('b, 'q) rt_state" where
  "replay_loop rt [] events s = (Ok events, s)"
| "replay_loop rt (event # rest) events s =
     and_then (apfst (map_err Runtime) (handle rt event s)) (\<lambda>report s.
       replay_loop rt rest
         (events @ [\<lparr>re_event_id = event_id_to_string (rt_uuid rt) (ev_id event), re_report = report\<rparr>]) s)"

definition replay_range ::
  "('b, 'l, 'e, 'q) trigger_runtime \<Rightarrow> 's event_store_ops \<Rightarrow> 's \<Rightarrow> timestamp \<Rightarrow> timestamp \<Rightarrow> replay_filter
     \<Rightarrow> ('b, 'q) rt_state \<Rightarrow> (replay_event_report list, replay_error) result \<times> ('b, 'q) rt_state" where
  "replay_range rt es store start stop f s =
     replay_loop rt
       (filter (filter_matches f)
          (filter (\<lambda>event. ev_timestamp event \<ge> start \<and> ev_timestamp event < stop) (es_all es store)))
       [] s"

subsection \<open>The dead-trigger retry pass\<close>

text \<open>The vector \<open>order\<close> and the maps \<open>events\<close> and \<open>failed_triggers\<close>, keyed by the printed event id, as
  one association list in order of first occurrence. A later record of an id replaces its event.\<close>

type_synonym retry_group = "(string \<times> event_envelope \<times> string set) list"

fun group_record :: "uuid_api \<Rightarrow> retry_group \<Rightarrow> dead_trigger_record \<Rightarrow> retry_group" where
  "group_record u [] r = [(event_id_to_string u (ev_id (dt_event r)), dt_event r, {dt_trigger_name r})]"
| "group_record u ((i, event, names) # g) r =
     (if i = event_id_to_string u (ev_id (dt_event r))
      then (i, dt_event r, insert (dt_trigger_name r) names) # g
      else (i, event, names) # group_record u g r)"

fun retry_loop ::
  "('b, 'l, 'e, 'q) trigger_runtime \<Rightarrow> retry_group \<Rightarrow> dead_trigger_retry_report \<Rightarrow> ('b, 'q) rt_state
     \<Rightarrow> (dead_trigger_retry_report, runtime_error) result \<times> ('b, 'q) rt_state" where
  "retry_loop rt [] report s = (Ok report, s)"
| "retry_loop rt ((i, event, previously_failed) # rest) report s =
     and_then (handle rt event s) (\<lambda>outcome s.
       let now_failed = set (map dt_trigger_name (hr_failed outcome))
       in retry_loop rt rest
            (report\<lparr>rr_events_retried := rr_events_retried report + 1,
                    rr_submitted := rr_submitted report @ hr_submitted outcome,
                    rr_still_failed := rr_still_failed report + card (previously_failed \<inter> now_failed),
                    rr_recovered := rr_recovered report + card (previously_failed - now_failed)\<rparr>) s)"

definition retry_dead_triggers ::
  "('b, 'l, 'e, 'q) trigger_runtime \<Rightarrow> ('b, 'q) rt_state
     \<Rightarrow> (dead_trigger_retry_report, runtime_error) result \<times> ('b, 'q) rt_state" where
  "retry_dead_triggers rt s =
     (case dq_drain (rt_dead_triggers rt) (st_queue s) of
        (Err e, q) \<Rightarrow> (Err (Storage e), s\<lparr>st_queue := q\<rparr>)
      | (Ok drained, q) \<Rightarrow>
          and_then (retry_loop rt (foldl (group_record (rt_uuid rt)) [] drained)
                      \<lparr>rr_drained = length drained, rr_events_retried = 0, rr_recovered = 0,
                       rr_still_failed = 0, rr_submitted = []\<rparr> (s\<lparr>st_queue := q\<rparr>))
            (\<lambda>report s. (Ok report, record_dead_trigger_depth rt s)))"

subsection \<open>What the runtime relies on\<close>

text \<open>Worklane's unique keys: \<open>view b\<close> maps the unique keys the broker knows to the ids of their jobs.
  A successful \<open>enqueue\<close> makes the key known under the returned id and forgets no key, a failing one
  changes none, and a known key is answered with its id without a new job.\<close>

definition broker_dedups :: "('b, 'l, 'e) broker_api \<Rightarrow> ('b \<Rightarrow> string \<rightharpoonup> string) \<Rightarrow> bool" where
  "broker_dedups api view \<longleftrightarrow>
     (\<forall>nj b k. nj_unique_key nj = Some k \<longrightarrow>
        (case enqueue api nj b of
           (Ok i, b') \<Rightarrow> view b' k = Some i \<and> view b \<subseteq>\<^sub>m view b'
         | (Err _, b') \<Rightarrow> view b' = view b)
        \<and> (\<forall>i. view b k = Some i \<longrightarrow> enqueue api nj b = (Ok i, b)))"

text \<open>A small broker of this kind: it rejects the next \<open>n\<close> calls, then keeps an association list of
  unique keys and job ids.\<close>

definition list_broker :: "(nat \<times> (string \<times> string) list, string, string) broker_api" where
  "list_broker =
     \<lparr>lane_try_from = (\<lambda>l. if l = [] then Err ''empty lane'' else Ok l),
      enqueue = (\<lambda>nj b. case b of (n, jobs) \<Rightarrow>
        (case nj_unique_key nj of
           None \<Rightarrow> (Ok ''job'', b)
         | Some k \<Rightarrow>
             (case map_of jobs k of
                Some i \<Rightarrow> (Ok i, b)
              | None \<Rightarrow> if n > 0 then (Err ''broker down'', (n - 1, jobs))
                        else (Ok (''job '' @ k), (0, (k, ''job '' @ k) # jobs))))),
      pending_count = (\<lambda>_ b. (Ok (length (snd b)), b)),
      broker_error = (\<lambda>m. m),
      broker_error_to_string = (\<lambda>m. m)\<rparr>"

definition demo_event :: event_envelope where
  "demo_event = envelope_new (EventId 7) 0 Http ''event.demo'' ''payload''"

definition demo_trigger :: "string \<Rightarrow> string \<Rightarrow> registered_trigger" where
  "demo_trigger name lane =
     registered_trigger_new name 0 (\<lambda>_. True) (bind_job (worklane_job_binding_new lane ''kind'' 3))"

definition demo_runtime ::
  "registered_trigger list \<Rightarrow> 'q dead_trigger_ops \<Rightarrow> (nat \<times> (string \<times> string) list, string, string, 'q) trigger_runtime"
where
  "demo_runtime rs qops =
     \<lparr>rt_uuid = unary_uuid, rt_registry = foldl register [] rs, rt_broker = list_broker,
      rt_dead_triggers = qops,
      rt_options = \<lparr>max_submission_attempts = 3, submission_backoff = from_millis 100\<rparr>,
      rt_trace_sink = NoopTraceSink\<rparr>"

text \<open>A file queue on a fresh disk, with a codec that writes every record as an empty object.\<close>

definition blank_codec :: "dead_trigger_record codec" where
  "blank_codec = \<lparr>to_vec = (\<lambda>_. Ok ''{}''), from_str = (\<lambda>_. Err ''missing field'')\<rparr>"

definition blank_queue :: "dead_trigger_record list \<Rightarrow> sys list \<Rightarrow> file_queue" where
  "blank_queue rs script =
     (\<lparr>js_path = ''dead.jsonl'', js_records = rs, js_file = 0\<rparr>, empty_fs\<lparr>fs_script := script\<rparr>)"

end
