(* ===== verification/Runtime_Properties.thy ===== *)
theory Runtime_Properties
  imports Runtime
begin

text \<open>
  What handling an event guarantees: the submission schedule, that every matched trigger ends as a job
  or as a dead-trigger record, when handling fails, that a replay is absorbed by a broker that
  deduplicates by unique key, and what a retry pass reports and keeps. The lemmas that depend on the
  queue are proved in the context of the locale \<open>dead_trigger_queue\<close>.
\<close>

subsection \<open>Submission\<close>

text \<open>The broker after \<open>k\<close> enqueue calls with the same job.\<close>

primrec after_enqueues :: "('b, 'l, 'e) broker_api \<Rightarrow> 'l new_job \<Rightarrow> nat \<Rightarrow> 'b \<Rightarrow> 'b" where
  "after_enqueues api nj 0 b = b"
| "after_enqueues api nj (Suc k) b = after_enqueues api nj k (snd (enqueue api nj b))"

text \<open>The reply to call \<open>j\<close> of a series, and the sleeps before the attempts \<open>n\<close> to \<open>n + k\<close>.\<close>

abbreviation reply ::
  "('b, 'l, 'e, 'q) trigger_runtime \<Rightarrow> 'l new_job \<Rightarrow> 'b \<Rightarrow> nat \<Rightarrow> (string, 'e) result" where
  "reply rt nj b j \<equiv> fst (enqueue (rt_broker rt) nj (after_enqueues (rt_broker rt) nj j b))"

abbreviation sleeps :: "('b, 'l, 'e, 'q) trigger_runtime \<Rightarrow> nat \<Rightarrow> nat \<Rightarrow> std_duration list" where
  "sleeps rt n k \<equiv> filter (\<lambda>d. d \<noteq> 0)
     (map (\<lambda>j. submission_backoff_delay (word_of_nat j) (submission_backoff (rt_options rt))) [n..<n + Suc k])"

lemma sleeps_Suc: "sleeps rt n (Suc k) = sleeps rt n 0 @ sleeps rt (Suc n) k"
  by (simp add: upt_conv_Cons del: upt_Suc)

lemma submit_attempts_step:
  assumes "enqueue (rt_broker rt) nj (st_broker s) = (r, b)"
  shows "submit_attempts rt nj n left s =
     (let s' = s\<lparr>st_slept := st_slept s @ sleeps rt n 0, st_broker := b\<rparr>
      in if is_ok r \<or> left = 0 then (r, s') else submit_attempts rt nj (Suc n) (left - 1) s')"
  using assms by (cases r; cases left) (auto simp: submit_attempts.simps [of _ _ n] Let_def)

lemma submit_attempts_schedule:
  assumes "submit_attempts rt nj n left s = (r, s')"
  shows "\<exists>k \<le> left. (\<forall>j < k. \<not> is_ok (reply rt nj (st_broker s) j)) \<and> r = reply rt nj (st_broker s) k
      \<and> (is_ok r \<or> k = left)
      \<and> s' = s\<lparr>st_broker := after_enqueues (rt_broker rt) nj (Suc k) (st_broker s),
               st_slept := st_slept s @ sleeps rt n k\<rparr>"
  using assms
proof (induction left arbitrary: n s)
  case (0 n s)
  obtain r1 b where e: "enqueue (rt_broker rt) nj (st_broker s) = (r1, b)" by force
  from 0 e show ?case by (auto simp: submit_attempts_step [OF e] Let_def)
next
  case (Suc left n s)
  obtain r1 b where e: "enqueue (rt_broker rt) nj (st_broker s) = (r1, b)" by force
  show ?case
  proof (cases "is_ok r1")
    case True
    with Suc.prems e show ?thesis by (intro exI [of _ 0]) (auto simp: submit_attempts_step [OF e] Let_def)
  next
    case False
    let ?s = "s\<lparr>st_slept := st_slept s @ sleeps rt n 0, st_broker := b\<rparr>"
    from False Suc.prems have "submit_attempts rt nj (Suc n) left ?s = (r, s')"
      by (auto simp: submit_attempts_step [OF e] Let_def simp del: upt_Suc)
    from Suc.IH [OF this] obtain k where k: "k \<le> left" "\<forall>j < k. \<not> is_ok (reply rt nj b j)" "r = reply rt nj b k"
      "is_ok r \<or> k = left" "s' = ?s\<lparr>st_broker := after_enqueues (rt_broker rt) nj (Suc k) b,
         st_slept := st_slept ?s @ sleeps rt (Suc n) k\<rparr>" by auto
    have "\<not> is_ok (reply rt nj (st_broker s) j)" if "j < Suc k" for j
      using that k(2) e False by (cases j) auto
    with k e sleeps_Suc [of rt n k] show ?thesis by (intro exI [of _ "Suc k"]) (simp del: upt_Suc)
  qed
qed

text \<open>C30: the submission schedule. A job for a valid lane is offered to the broker at least once and at
  most \<open>max(1, max_submission_attempts)\<close> times, always the same job with the same unique key; the
  offers before the last one failed, the result is the last answer, and a failure means that all
  attempts were used. The sleeps are the backoff delays of the retries, none of them before the first
  attempt and none longer than 30 seconds.\<close>

theorem enqueue_with_retries_schedule:
  assumes "lane_try_from (rt_broker rt) (job_lane job) = Ok lane"
    and "enqueue_with_retries rt job key s = (r, s')"
  shows "\<exists>k < unat (max (max_submission_attempts (rt_options rt)) 1).
      (let api = rt_broker rt; nj = new_job_of lane job key; b = st_broker s in
        (\<forall>j < k. \<not> is_ok (fst (enqueue api nj (after_enqueues api nj j b))))
        \<and> r = fst (enqueue api nj (after_enqueues api nj k b))
        \<and> (is_ok r \<or> Suc k = unat (max (max_submission_attempts (rt_options rt)) 1))
        \<and> st_broker s' = after_enqueues api nj (Suc k) b
        \<and> st_slept s' = st_slept s @ filter (\<lambda>d. d \<noteq> 0)
             (map (\<lambda>j. submission_backoff_delay (word_of_nat j) (submission_backoff (rt_options rt))) [1..<Suc k])
        \<and> (\<forall>d \<in> set (drop (length (st_slept s)) (st_slept s')). d \<le> from_secs 30))"
proof -
  let ?n = "unat (max (max_submission_attempts (rt_options rt)) 1)"
  let ?nj = "new_job_of lane job key"
  let ?delay = "\<lambda>j. submission_backoff_delay (word_of_nat j) (submission_backoff (rt_options rt))"
  have "(1 :: u32) \<le> max (max_submission_attempts (rt_options rt)) 1" by simp
  then have n: "0 < ?n" by (metis One_nat_def Suc_le_eq unat_1 word_le_nat_alt)
  from assms have "submit_attempts rt ?nj 0 (?n - 1)
      (s\<lparr>st_observed_lanes := insert (job_lane job) (st_observed_lanes s)\<rparr>) = (r, s')"
    by (simp add: enqueue_with_retries_def Let_def)
  from submit_attempts_schedule [OF this] obtain k where k: "k \<le> ?n - 1"
    "\<forall>j < k. \<not> is_ok (fst (enqueue (rt_broker rt) ?nj (after_enqueues (rt_broker rt) ?nj j (st_broker s))))"
    "r = fst (enqueue (rt_broker rt) ?nj (after_enqueues (rt_broker rt) ?nj k (st_broker s)))"
    "is_ok r \<or> k = ?n - 1" "st_broker s' = after_enqueues (rt_broker rt) ?nj (Suc k) (st_broker s)"
    "st_slept s' = st_slept s @ filter (\<lambda>d. d \<noteq> 0) (map ?delay [0..<Suc k])"
    by - (elim exE conjE, rule that, simp_all del: upt_Suc not_is_ok)
  have up: "[0..<Suc k] = 0 # [1..<Suc k]" by (simp add: upt_conv_Cons)
  have sl: "st_slept s' = st_slept s @ filter (\<lambda>d. d \<noteq> 0) (map ?delay [1..<Suc k])"
    unfolding k(6) up by simp
  have le: "\<forall>d \<in> set (drop (length (st_slept s)) (st_slept s')). d \<le> from_secs 30"
    unfolding sl using submission_backoff_delay_le [unfolded MAX_SUBMISSION_BACKOFF_def]
    by (auto simp del: upt_Suc)
  show ?thesis
    unfolding Let_def by (intro exI [of _ k] conjI k(2,3,5) sl le) (use k(1,4) n in linarith)+
qed

subsection \<open>Handling\<close>

definition report_add :: "handle_report \<Rightarrow> string list \<Rightarrow> dead_trigger_record list \<Rightarrow> handle_report" where
  "report_add r sub fl = r\<lparr>hr_submitted := hr_submitted r @ sub, hr_failed := hr_failed r @ fl\<rparr>"

lemma emit_simps [simp]:
  "st_queue (emit m s) = st_queue s" "st_broker (emit m s) = st_broker s"
  "st_observed_lanes (emit m s) = st_observed_lanes s"
  by (simp_all add: emit_def)

lemma sink_record_simps [simp]:
  "st_queue (sink_record k t s) = st_queue s" "st_broker (sink_record k t s) = st_broker s"
  by (simp_all add: sink_record_def split: trace_sink.split)

lemma record_depth_simps [simp]:
  "st_queue (record_dead_trigger_depth rt s) = st_queue s"
  "st_broker (record_dead_trigger_depth rt s) = st_broker s"
  by (simp_all add: record_dead_trigger_depth_def)

lemma enqueue_with_retries_queue:
  assumes "enqueue_with_retries rt job key s = (r, s')"
  shows "st_queue s' = st_queue s"
proof (cases "lane_try_from (rt_broker rt) (job_lane job)")
  case (Ok lane)
  with assms submit_attempts_schedule show ?thesis
    by (fastforce simp: enqueue_with_retries_def Let_def)
qed (use assms in \<open>simp add: enqueue_with_retries_def\<close>)

lemma record_dead_trigger_cases:
  assumes "record_dead_trigger rt e name err s = (res, s')"
  obtains (ok) u where "res = Ok \<lparr>dt_event = e, dt_trigger_name = name, dt_error = err\<rparr>"
      "dq_record (rt_dead_triggers rt) \<lparr>dt_event = e, dt_trigger_name = name, dt_error = err\<rparr> (st_queue s)
         = (Ok u, st_queue s')" "st_broker s' = st_broker s"
  | (err) x where "res = Err (Storage x)"
      "dq_record (rt_dead_triggers rt) \<lparr>dt_event = e, dt_trigger_name = name, dt_error = err\<rparr> (st_queue s)
         = (Err x, st_queue s')"
  using assms by (auto simp: record_dead_trigger_def Let_def split: prod.splits result.splits)

text \<open>The three ways a matched trigger ends.\<close>

lemma handle_one_cases:
  assumes "handle_one rt e r s = (res, s')"
  obtains (submitted) job id s1 s2 where "res = Ok (Inl id)" "rg_bind r e = Ok job"
      "enqueue_with_retries rt job (unique_key (rt_uuid rt) e r) s1 = (Ok id, s2)"
      "st_broker s1 = st_broker s" "st_broker s' = st_broker s2" "st_queue s' = st_queue s"
  | (failed) rec u where "res = Ok (Inr rec)" "dt_event rec = e" "dt_trigger_name rec = rg_name r"
      "dq_record (rt_dead_triggers rt) rec (st_queue s) = (Ok u, st_queue s')"
  | (storage) rec x where "res = Err (Storage x)" "dt_event rec = e" "dt_trigger_name rec = rg_name r"
      "dq_record (rt_dead_triggers rt) rec (st_queue s) = (Err x, st_queue s')"
proof -
  let ?l = "[(''trigger'', rg_name r)]"
  let ?s = "emit (Counter ''triggerlane_trigger_matches_total'' ?l) s"
  have fail: thesis if "and_then (record_dead_trigger rt e (rg_name r) err
       (emit (Counter ''triggerlane_trigger_failures_total'' ?l) t)) (\<lambda>record s. (Ok (Inr record), s)) = (res, s')"
      "st_queue t = st_queue s" for err t
  proof -
    obtain res1 s1 where rd: "record_dead_trigger rt e (rg_name r) err
       (emit (Counter ''triggerlane_trigger_failures_total'' ?l) t) = (res1, s1)" by force
    then show thesis
    proof (cases rule: record_dead_trigger_cases)
      case (ok u)
      with that rd show thesis by (intro failed) auto
    next
      case (err x)
      with that rd show thesis by (intro storage) auto
    qed
  qed
  show thesis
  proof (cases "rg_bind r e")
    case (Err x)
    with assms show thesis by (intro fail [of _ ?s]) (simp_all add: handle_one_def Let_def)
  next
    case (Ok job)
    obtain er s2 where en: "enqueue_with_retries rt job (unique_key (rt_uuid rt) e r) ?s = (er, s2)" by force
    note q = enqueue_with_retries_queue [OF en]
    show thesis
    proof (cases er)
      case (Err x)
      with assms Ok en q show thesis by (intro fail [of _ s2]) (simp_all add: handle_one_def Let_def)
    next
      case er: (Ok id)
      with assms Ok en q show thesis by (intro submitted [of id job ?s s2]) (auto simp: handle_one_def Let_def)
    qed
  qed
qed

context dead_trigger_queue
begin

lemma handle_loop_accounts:
  assumes "rt_dead_triggers rt = qops" and "handle_loop rt e rs rep s = (res, s')"
  shows "\<exists>sub fl. dq_all qops (st_queue s') = dq_all qops (st_queue s) @ fl
     \<and> (\<forall>r \<in> set fl. dt_event r = e) \<and> subseq (map dt_trigger_name fl) (map rg_name rs)
     \<and> (case res of
          Ok rep' \<Rightarrow> rep' = report_add rep sub fl \<and> length sub + length fl = length rs
        | Err x \<Rightarrow> length sub + length fl < length rs \<and> (\<exists>io. x = Storage io))"
  using assms(2)
proof (induction rs arbitrary: rep s)
  case Nil
  then show ?case by (intro exI [of _ "[]"]) (auto simp: report_add_def)
next
  case (Cons r rs)
  obtain r1 s1 where one: "handle_one rt e r s = (r1, s1)" by force
  then show ?case
  proof (cases rule: handle_one_cases)
    case (submitted job id t1 t2)
    with one Cons.prems have rest: "handle_loop rt e rs (rep\<lparr>hr_submitted := hr_submitted rep @ [id]\<rparr>) s1 = (res, s')"
      by simp
    from Cons.IH [OF rest] obtain sub fl where "dq_all qops (st_queue s') = dq_all qops (st_queue s1) @ fl"
      "\<forall>r \<in> set fl. dt_event r = e" "subseq (map dt_trigger_name fl) (map rg_name rs)"
      "case res of Ok rep' \<Rightarrow> rep' = report_add (rep\<lparr>hr_submitted := hr_submitted rep @ [id]\<rparr>) sub fl
           \<and> length sub + length fl = length rs
        | Err x \<Rightarrow> length sub + length fl < length rs \<and> (\<exists>io. x = Storage io)" by blast
    then show ?thesis using submitted(6)
      by (intro exI [of _ "id # sub"] exI [of _ fl]) (auto simp: report_add_def split: result.splits)
  next
    case (failed rec u)
    with one Cons.prems have rest: "handle_loop rt e rs (rep\<lparr>hr_failed := hr_failed rep @ [rec]\<rparr>) s1 = (res, s')"
      by simp
    have q: "dq_all qops (st_queue s1) = dq_all qops (st_queue s) @ [rec]"
      using record_Ok failed(4) assms(1) by simp
    from Cons.IH [OF rest] obtain sub fl where "dq_all qops (st_queue s') = dq_all qops (st_queue s1) @ fl"
      "\<forall>r \<in> set fl. dt_event r = e" "subseq (map dt_trigger_name fl) (map rg_name rs)"
      "case res of Ok rep' \<Rightarrow> rep' = report_add (rep\<lparr>hr_failed := hr_failed rep @ [rec]\<rparr>) sub fl
           \<and> length sub + length fl = length rs
        | Err x \<Rightarrow> length sub + length fl < length rs \<and> (\<exists>io. x = Storage io)" by blast
    then show ?thesis using failed(2,3) q
      by (intro exI [of _ sub] exI [of _ "rec # fl"]) (auto simp: report_add_def split: result.splits)
  next
    case (storage rec x)
    with one Cons.prems have "res = Err (Storage x)" "s' = s1" by simp_all
    then show ?thesis using record_Err storage(4) assms(1)
      by (intro exI [of _ "[]"]) auto
  qed
qed

lemma handle_accounts:
  assumes "rt_dead_triggers rt = qops" and "handle rt e s = (res, s')"
  shows "\<exists>fl. dq_all qops (st_queue s') = dq_all qops (st_queue s) @ fl
     \<and> (\<forall>r \<in> set fl. dt_event r = e)
     \<and> subseq (map dt_trigger_name fl) (map rg_name (matching (rt_registry rt) e))
     \<and> (case res of
          Ok rep \<Rightarrow> hr_failed rep = fl
            \<and> length (hr_submitted rep) + length fl = length (matching (rt_registry rt) e)
        | Err x \<Rightarrow> \<exists>io. x = Storage io)"
proof -
  let ?m = "matching (rt_registry rt) e"
  obtain r1 s1 where l: "handle_loop rt e ?m \<lparr>hr_submitted = [], hr_failed = []\<rparr> s = (r1, s1)" by force
  from handle_loop_accounts [OF assms(1) l] show ?thesis
    using assms(2) l by (cases r1) (fastforce simp: handle_def Let_def report_add_def)+
qed

end

theorem enqueue_with_retries_schedule_witness:
  "fst (enqueue_with_retries (demo_runtime [] (im_queue (\<lambda>_. Ok []))) (worklane_job_new ''l'' ''k'' [] 3) ''key''
      (rt_new (2, []) [])) = Ok ''job key''
   \<and> (\<exists>k < 3. st_slept (snd (enqueue_with_retries (demo_runtime [] (im_queue (\<lambda>_. Ok [])))
          (worklane_job_new ''l'' ''k'' [] 3) ''key'' (rt_new (2, []) [])))
        = filter (\<lambda>d. d \<noteq> 0) (map (\<lambda>j. submission_backoff_delay (word_of_nat j) (from_millis 100)) [1..<Suc k]))"
proof
  let ?rt = "demo_runtime [] (im_queue (\<lambda>_. Ok []))" and ?j = "worklane_job_new ''l'' ''k'' [] 3"
  let ?s = "rt_new (2, []) [] :: (nat \<times> (string \<times> string) list, in_memory_queue) rt_state"
  have m: "unat (max (max_submission_attempts (rt_options ?rt)) 1) = 3" by (simp add: demo_runtime_def)
  have l: "lane_try_from (rt_broker ?rt) (job_lane ?j) = Ok ''l''"
    by (simp add: demo_runtime_def list_broker_def worklane_job_new_def)
  show "fst (enqueue_with_retries ?rt ?j ''key'' ?s) = Ok ''job key''"
    using m l by (simp add: enqueue_with_retries_def Let_def)
      (simp add: submit_attempts.simps demo_runtime_def list_broker_def rt_new_def new_job_of_def Let_def
        eval_nat_numeral)
  obtain r s' where run: "enqueue_with_retries ?rt ?j ''key'' ?s = (r, s')" by force
  have o: "submission_backoff (rt_options ?rt) = from_millis 100" "st_slept ?s = []"
    by (simp_all add: demo_runtime_def rt_new_def)
  from enqueue_with_retries_schedule [OF l run, unfolded m Let_def o]
  show "\<exists>k < 3. st_slept (snd (enqueue_with_retries ?rt ?j ''key'' ?s))
        = filter (\<lambda>d. d \<noteq> 0) (map (\<lambda>j. submission_backoff_delay (word_of_nat j) (from_millis 100)) [1..<Suc k])"
    unfolding run snd_conv append_Nil by blast
qed

text \<open>C11: every match is accounted for. When handling an event succeeds, each matching trigger ended as a
  submitted job or as a dead-trigger record, so that one failing trigger never keeps another from being
  tried; the records of the report are exactly what the queue gained, they carry the event, and their
  triggers come in the order of the registry.\<close>

theorem handle_accounts_for_every_match:
  assumes "rt_dead_triggers rt = file_dead_trigger_queue c" and "handle rt e s = (Ok rep, s')"
  shows "length (hr_submitted rep) + length (hr_failed rep) = length (matching (rt_registry rt) e)
     \<and> jsonl_all (st_queue s') = jsonl_all (st_queue s) @ hr_failed rep
     \<and> (\<forall>r \<in> set (hr_failed rep). dt_event r = e)
     \<and> subseq (map dt_trigger_name (hr_failed rep)) (map rg_name (matching (rt_registry rt) e))"
  using fq.handle_accounts [OF assms] by (auto simp: file_queue_ops)

lemmas demo_eval = demo_runtime_def demo_trigger_def demo_event_def registered_trigger_new_def register_def
  matching_def handle_def handle_one_def bind_job_def worklane_job_binding_new_def worklane_job_new_def
  envelope_new_def default_metadata_def enqueue_with_retries_def submit_attempts.simps list_broker_def
  rt_new_def new_job_of_def record_dead_trigger_def unique_key_def emit_def sink_record_def
  record_dead_trigger_depth_def

theorem handle_accounts_for_every_match_witness:
  "\<exists>rep s'. handle (demo_runtime [demo_trigger ''a'' ''lane'', demo_trigger ''b'' []] (file_dead_trigger_queue blank_codec))
        demo_event (rt_new (0, []) (blank_queue [] [])) = (Ok rep, s')
     \<and> length (hr_submitted rep) + length (hr_failed rep) = 2
     \<and> jsonl_all (st_queue s') = hr_failed rep"
proof -
  let ?rt = "demo_runtime [demo_trigger ''a'' ''lane'', demo_trigger ''b'' []] (file_dead_trigger_queue blank_codec)"
  let ?s = "rt_new (0, []) (blank_queue [] []) :: (nat \<times> (string \<times> string) list, file_queue) rt_state"
  have q: "rt_dead_triggers ?rt = file_dead_trigger_queue blank_codec" by (simp add: demo_runtime_def)
  have m: "length (matching (rt_registry ?rt) demo_event) = 2"
    by (simp add: demo_runtime_def demo_trigger_def registered_trigger_new_def register_def matching_def)
  obtain rep s' where run: "handle ?rt demo_event ?s = (Ok rep, s')"
    by (simp add: demo_eval Let_def file_queue_ops blank_codec_def blank_queue_def jsonl_append_def
        write_all_def sync_file_def attempt_def empty_fs_def)
  from handle_accounts_for_every_match [OF q run] m have
    "length (hr_submitted rep) + length (hr_failed rep) = 2" "jsonl_all (st_queue s') = hr_failed rep"
    by (simp_all add: rt_new_def blank_queue_def jsonl_all_def)
  with run show ?thesis by blast
qed

text \<open>What can make handling fail. The only error of \<open>handle\<close> is a storage error of the dead-trigger
  queue: neither a rejected binding nor a broker failure surfaces as an error. The queue then has
  gained only records of this event.\<close>

theorem handle_fails_only_on_storage:
  assumes "rt_dead_triggers rt = file_dead_trigger_queue c" and "handle rt e s = (Err x, s')"
  shows "(\<exists>io. x = Storage io)
     \<and> (\<exists>fl. jsonl_all (st_queue s') = jsonl_all (st_queue s) @ fl \<and> (\<forall>r \<in> set fl. dt_event r = e))"
  using fq.handle_accounts [OF assms] by (auto simp: file_queue_ops)

theorem handle_fails_only_on_storage_witness:
  "\<exists>io s'. handle (demo_runtime [demo_trigger ''b'' []] (file_dead_trigger_queue blank_codec))
        demo_event (rt_new (0, []) (blank_queue [] [Fail (IoError Other ''EIO'')])) = (Err (Storage io), s')"
proof -
  let ?rt = "demo_runtime [demo_trigger ''b'' []] (file_dead_trigger_queue blank_codec)"
  let ?s = "rt_new (0, []) (blank_queue [] [Fail (IoError Other ''EIO'')])
    :: (nat \<times> (string \<times> string) list, file_queue) rt_state"
  have q: "rt_dead_triggers ?rt = file_dead_trigger_queue blank_codec" by (simp add: demo_runtime_def)
  obtain x s' where run: "handle ?rt demo_event ?s = (Err x, s')"
    by (simp add: demo_eval Let_def file_queue_ops blank_codec_def blank_queue_def jsonl_append_def
        write_all_def empty_fs_def)
  from handle_fails_only_on_storage [OF q run] run show ?thesis by auto
qed

subsection \<open>Replay under a deduplicating broker\<close>

lemma broker_dedups_step:
  assumes "broker_dedups api view" and "nj_unique_key nj = Some k" and "enqueue api nj b = (r, b')"
  shows "view b \<subseteq>\<^sub>m view b' \<and> (\<forall>i. r = Ok i \<longrightarrow> view b' k = Some i)"
proof -
  note d = assms(1) [unfolded broker_dedups_def, THEN spec, THEN spec, THEN spec, THEN mp, OF assms(2), of b]
  from d assms(3) show ?thesis by (cases r) auto
qed

lemma handle_loop_failed_grows:
  "handle_loop rt e rs r0 t = (Ok rep, s') \<Longrightarrow> prefix (hr_failed r0) (hr_failed rep)"
proof (induction rs arbitrary: r0 t)
  case (Cons q qs)
  then obtain o1 t1 where "handle_loop rt e qs (case o1 of Inl i \<Rightarrow> r0\<lparr>hr_submitted := hr_submitted r0 @ [i]\<rparr>
        | Inr rec \<Rightarrow> r0\<lparr>hr_failed := hr_failed r0 @ [rec]\<rparr>) t1 = (Ok rep, s')"
    by (auto simp: and_then_eq_Ok)
  from Cons.IH [OF this] show ?case by (cases o1) (auto simp: prefix_def)
qed simp

lemma submit_attempts_view:
  assumes "broker_dedups (rt_broker rt) view" and "nj_unique_key nj = Some k"
    and "submit_attempts rt nj n left s = (r, s')"
  shows "view (st_broker s) \<subseteq>\<^sub>m view (st_broker s') \<and> (\<forall>i. r = Ok i \<longrightarrow> view (st_broker s') k = Some i)"
  using assms(3)
proof (induction left arbitrary: n s)
  case (0 n s)
  obtain r1 b where e: "enqueue (rt_broker rt) nj (st_broker s) = (r1, b)" by force
  from broker_dedups_step [OF assms(1,2) e] 0 e show ?case
    by (cases r1) (auto simp: submit_attempts.simps [of _ _ _ 0] Let_def split: if_splits)
next
  case (Suc left n s)
  obtain r1 b where e: "enqueue (rt_broker rt) nj (st_broker s) = (r1, b)" by force
  note d = broker_dedups_step [OF assms(1,2) e]
  show ?case
  proof (cases r1)
    case (Ok u)
    with d e Suc.prems show ?thesis
      by (auto simp: submit_attempts.simps [of _ _ _ "Suc left"] Let_def split: if_splits)
  next
    case (Err x)
    with e Suc.prems obtain t where "submit_attempts rt nj (Suc n) left t = (r, s')" "st_broker t = b"
      by (auto simp: submit_attempts.simps [of _ _ _ "Suc left"] Let_def split: if_splits)
    from Suc.IH [OF this(1)] this(2) d show ?thesis using map_le_trans by blast
  qed
qed

text \<open>The state in which every trigger of a list has its job at the broker.\<close>

definition has_job ::
  "('b, 'l, 'e, 'q) trigger_runtime \<Rightarrow> (string \<rightharpoonup> string) \<Rightarrow> event_envelope \<Rightarrow> registered_trigger \<Rightarrow> string \<Rightarrow> bool"
where
  "has_job rt known e r i \<longleftrightarrow>
     (\<exists>job lane. rg_bind r e = Ok job \<and> lane_try_from (rt_broker rt) (job_lane job) = Ok lane
        \<and> known (unique_key (rt_uuid rt) e r) = Some i)"

lemma has_job_mono: "has_job rt m e r i \<Longrightarrow> m \<subseteq>\<^sub>m m' \<Longrightarrow> has_job rt m' e r i"
  unfolding has_job_def map_le_def by (metis domI)

lemma handle_one_view:
  assumes "broker_dedups (rt_broker rt) view" and "handle_one rt e r s = (Ok (Inl i), s')"
  shows "view (st_broker s) \<subseteq>\<^sub>m view (st_broker s') \<and> has_job rt (view (st_broker s')) e r i"
  using assms(2)
proof (cases rule: handle_one_cases)
  case (submitted job i' s1 s2)
  then have i: "i' = i" by simp
  from submitted(3) i obtain lane t n where l: "lane_try_from (rt_broker rt) (job_lane job) = Ok lane"
    and t: "submit_attempts rt (new_job_of lane job (unique_key (rt_uuid rt) e r)) 0 n t = (Ok i, s2)"
      "st_broker t = st_broker s1"
    by (auto simp: enqueue_with_retries_def Let_def split: result.splits)
  have "nj_unique_key (new_job_of lane job (unique_key (rt_uuid rt) e r)) = Some (unique_key (rt_uuid rt) e r)"
    by (simp add: new_job_of_def)
  from submit_attempts_view [OF assms(1) this t(1)] t(2) submitted l show ?thesis
    by (auto simp: has_job_def)
qed auto

lemma handle_loop_all_submitted:
  assumes "broker_dedups (rt_broker rt) view"
    and "handle_loop rt e rs rep s = (Ok rep', s')" and "hr_failed rep' = hr_failed rep"
  shows "\<exists>ids. rep' = rep\<lparr>hr_submitted := hr_submitted rep @ ids\<rparr>
       \<and> view (st_broker s) \<subseteq>\<^sub>m view (st_broker s')
       \<and> list_all2 (has_job rt (view (st_broker s')) e) rs ids"
  using assms(2,3)
proof (induction rs arbitrary: rep s)
  case (Cons r rs)
  then obtain o1 s1 where one: "handle_one rt e r s = (Ok o1, s1)"
    and rest: "handle_loop rt e rs (case o1 of Inl i \<Rightarrow> rep\<lparr>hr_submitted := hr_submitted rep @ [i]\<rparr>
        | Inr rec \<Rightarrow> rep\<lparr>hr_failed := hr_failed rep @ [rec]\<rparr>) s1 = (Ok rep', s')"
    by (auto simp: and_then_eq_Ok)
  show ?case
  proof (cases o1)
    case (Inl i)
    note v = handle_one_view [OF assms(1) one [unfolded Inl]]
    from Cons.IH [OF rest [unfolded Inl sum.case]] Cons.prems(2) obtain ids where
      "rep' = rep\<lparr>hr_submitted := (hr_submitted rep @ [i]) @ ids\<rparr>"
      "view (st_broker s1) \<subseteq>\<^sub>m view (st_broker s')"
      "list_all2 (has_job rt (view (st_broker s')) e) rs ids" by auto
    with v show ?thesis
      by (intro exI [of _ "i # ids"]) (auto intro: map_le_trans has_job_mono)
  next
    case (Inr rec)
    from handle_loop_failed_grows [OF rest] Cons.prems(2) Inr have False
      by (auto dest!: prefix_length_le)
    then show ?thesis ..
  qed
qed simp

lemma handle_one_again:
  assumes "broker_dedups (rt_broker rt) view" and "has_job rt (view (st_broker s)) e r i"
  shows "\<exists>s'. handle_one rt e r s = (Ok (Inl i), s') \<and> st_broker s' = st_broker s \<and> st_queue s' = st_queue s"
proof -
  from assms(2) obtain job lane where j: "rg_bind r e = Ok job"
    "lane_try_from (rt_broker rt) (job_lane job) = Ok lane"
    "view (st_broker s) (unique_key (rt_uuid rt) e r) = Some i" by (auto simp: has_job_def)
  have "enqueue (rt_broker rt) (new_job_of lane job (unique_key (rt_uuid rt) e r)) (st_broker s) = (Ok i, st_broker s)"
    using assms(1) j(3) unfolding broker_dedups_def by (simp add: new_job_of_def)
  then show ?thesis
    using j by (simp add: handle_one_def enqueue_with_retries_def Let_def submit_attempts.simps)
qed

lemma handle_loop_again:
  assumes "broker_dedups (rt_broker rt) view" and "list_all2 (has_job rt (view (st_broker s)) e) rs ids"
  shows "\<exists>s'. handle_loop rt e rs rep s = (Ok (rep\<lparr>hr_submitted := hr_submitted rep @ ids\<rparr>), s')
       \<and> st_broker s' = st_broker s \<and> st_queue s' = st_queue s"
  using assms(2)
proof (induction rs arbitrary: ids rep s)
  case (Cons r rs)
  then obtain i is' where ids: "ids = i # is'" "has_job rt (view (st_broker s)) e r i"
    "list_all2 (has_job rt (view (st_broker s)) e) rs is'" by (auto simp: list_all2_Cons1)
  from handle_one_again [OF assms(1) ids(2)] obtain s1 where s1: "handle_one rt e r s = (Ok (Inl i), s1)"
    "st_broker s1 = st_broker s" "st_queue s1 = st_queue s" by blast
  from Cons.IH [of s1 is' "rep\<lparr>hr_submitted := hr_submitted rep @ [i]\<rparr>"] ids s1 show ?case by auto
qed simp

text \<open>Every trigger an event matches has its job.\<close>

definition all_submitted :: "('b, 'l, 'e, 'q) trigger_runtime \<Rightarrow> (string \<rightharpoonup> string) \<Rightarrow> event_envelope \<Rightarrow> bool" where
  "all_submitted rt known e \<longleftrightarrow> (\<exists>ids. list_all2 (has_job rt known e) (matching (rt_registry rt) e) ids)"

lemma handle_all_submitted:
  assumes "broker_dedups (rt_broker rt) view" and "handle rt e s = (Ok rep, s')" and "hr_failed rep = []"
  obtains ids where "rep = \<lparr>hr_submitted = ids, hr_failed = []\<rparr>"
    "list_all2 (has_job rt (view (st_broker s')) e) (matching (rt_registry rt) e) ids"
proof -
  let ?m = "matching (rt_registry rt) e" and ?r = "\<lparr>hr_submitted = [], hr_failed = []\<rparr>"
  from assms(2) obtain s0 where l: "handle_loop rt e ?m ?r s = (Ok rep, s0)" "st_broker s' = st_broker s0"
    by (auto simp: handle_def Let_def and_then_eq_Ok)
  from handle_loop_all_submitted [OF assms(1) l(1)] assms(3) l(2) that show thesis by auto
qed

lemma handle_submitted:
  assumes "broker_dedups (rt_broker rt) view"
    and "list_all2 (has_job rt (view (st_broker t)) e) (matching (rt_registry rt) e) ids"
  shows "\<exists>t'. handle rt e t = (Ok \<lparr>hr_submitted = ids, hr_failed = []\<rparr>, t')
     \<and> st_broker t' = st_broker t \<and> st_queue t' = st_queue t"
  using handle_loop_again [OF assms, of "\<lparr>hr_submitted = [], hr_failed = []\<rparr>"] by (auto simp: handle_def Let_def)

lemma has_jobs_mono:
  "list_all2 (has_job rt m e) rs ids \<Longrightarrow> m \<subseteq>\<^sub>m m' \<Longrightarrow> list_all2 (has_job rt m' e) rs ids"
  by (auto elim!: list_all2_mono intro: has_job_mono)

text \<open>C19: a replay is absorbed. When an event was handled with every trigger submitted, handling it
  again with a broker that knows at least the same unique keys (after a crash, by replay, or in a
  retry pass) reports the same job ids, creates no job, and touches no dead-trigger record.\<close>

theorem replay_absorbed:
  assumes "broker_dedups (rt_broker rt) view"
    and "handle rt e s = (Ok rep, s1)" and "hr_failed rep = []"
    and "view (st_broker s1) \<subseteq>\<^sub>m view (st_broker t)"
  shows "fst (handle rt e t) = Ok rep \<and> st_broker (snd (handle rt e t)) = st_broker t
       \<and> st_queue (snd (handle rt e t)) = st_queue t"
proof -
  from handle_all_submitted [OF assms(1-3)] obtain ids where ids: "rep = \<lparr>hr_submitted = ids, hr_failed = []\<rparr>"
    "list_all2 (has_job rt (view (st_broker s1)) e) (matching (rt_registry rt) e) ids" by blast
  from handle_submitted [OF assms(1) has_jobs_mono [OF ids(2) assms(4)]] ids(1) show ?thesis by auto
qed

lemma list_broker_dedups: "broker_dedups list_broker (\<lambda>b. map_of (snd b))"
  by (auto simp: broker_dedups_def list_broker_def map_le_def split: option.splits if_splits prod.splits)

theorem replay_absorbed_witness:
  "fst (handle (demo_runtime [demo_trigger ''a'' ''lane''] (im_queue (\<lambda>_. Ok []))) demo_event
          (snd (handle (demo_runtime [demo_trigger ''a'' ''lane''] (im_queue (\<lambda>_. Ok []))) demo_event
                 (rt_new (0, []) []))))
   = fst (handle (demo_runtime [demo_trigger ''a'' ''lane''] (im_queue (\<lambda>_. Ok []))) demo_event
           (rt_new (0, []) []))"
proof -
  let ?rt = "demo_runtime [demo_trigger ''a'' ''lane''] (im_queue (\<lambda>_. Ok []))"
  let ?s = "rt_new (0, []) [] :: (nat \<times> (string \<times> string) list, in_memory_queue) rt_state"
  obtain rep s1 where run: "handle ?rt demo_event ?s = (Ok rep, s1)" "hr_failed rep = []"
    by (simp add: demo_eval Let_def)
  have "broker_dedups (rt_broker ?rt) (\<lambda>b. map_of (snd b))"
    using list_broker_dedups by (simp add: demo_runtime_def)
  from replay_absorbed [OF this run, of s1] run show ?thesis by simp
qed

subsection \<open>The retry pass\<close>

definition record_key :: "uuid_api \<Rightarrow> dead_trigger_record \<Rightarrow> string" where
  "record_key u r = event_id_to_string u (ev_id (dt_event r))"

definition group_pairs :: "retry_group \<Rightarrow> (string \<times> string) set" where
  "group_pairs g = (\<Union>(i, _, names) \<in> set g. (\<lambda>n. (i, n)) ` names)"

definition group_events :: "retry_group \<Rightarrow> event_envelope set" where
  "group_events g = (\<lambda>(_, e, _). e) ` set g"

lemma group_simps [simp]:
  "group_pairs [] = {}" "group_pairs ((i, e, ns) # g) = (\<lambda>n. (i, n)) ` ns \<union> group_pairs g"
  "group_events [] = {}" "group_events ((i, e, ns) # g) = insert e (group_events g)"
  by (simp_all add: group_pairs_def group_events_def)

lemma group_record_keys:
  "map fst (group_record u g r) = (if record_key u r \<in> set (map fst g) then map fst g else map fst g @ [record_key u r])"
  by (induction u g r rule: group_record.induct) (auto simp: record_key_def)

lemma group_record_ids:
  "\<forall>(i, e, ns) \<in> set g. i = event_id_to_string u (ev_id e) \<Longrightarrow>
     \<forall>(i, e, ns) \<in> set (group_record u g r). i = event_id_to_string u (ev_id e)"
  by (induction u g r rule: group_record.induct) auto

lemma group_record_pairs:
  "group_pairs (group_record u g r) = insert (record_key u r, dt_trigger_name r) (group_pairs g)"
  by (induction u g r rule: group_record.induct) (auto simp: record_key_def)

lemma group_record_events: "group_events (group_record u g r) \<subseteq> insert (dt_event r) (group_events g)"
  by (induction u g r rule: group_record.induct) auto

lemma group_record_finite:
  "\<forall>(i, e, ns) \<in> set g. finite ns \<Longrightarrow> \<forall>(i, e, ns) \<in> set (group_record u g r). finite ns"
  by (induction u g r rule: group_record.induct) auto

text \<open>The groups of a list of records: one per event id, in the order of the first record of each.\<close>

definition first_occurrences :: "'a list \<Rightarrow> 'a list" where
  "first_occurrences xs = rev (remdups (rev xs))"

lemma first_occurrences_simps [simp]:
  "first_occurrences [] = []"
  "first_occurrences (xs @ [x]) = (if x \<in> set xs then first_occurrences xs else first_occurrences xs @ [x])"
  "set (first_occurrences xs) = set xs" "distinct (first_occurrences xs)"
  by (simp_all add: first_occurrences_def)

lemma group_all:
  "map fst (foldl (group_record u) [] rs) = first_occurrences (map (record_key u) rs)
   \<and> (\<forall>(i, e, ns) \<in> set (foldl (group_record u) [] rs). i = event_id_to_string u (ev_id e))
   \<and> group_pairs (foldl (group_record u) [] rs) = (\<lambda>r. (record_key u r, dt_trigger_name r)) ` set rs
   \<and> group_events (foldl (group_record u) [] rs) \<subseteq> dt_event ` set rs
   \<and> (\<forall>(i, e, ns) \<in> set (foldl (group_record u) [] rs). finite ns)"
proof (induction rs rule: rev_induct)
  case (snoc r rs)
  let ?g = "foldl (group_record u) [] rs"
  from snoc have keys: "map fst ?g = first_occurrences (map (record_key u) rs)"
    and ids: "\<forall>(i, e, ns) \<in> set ?g. i = event_id_to_string u (ev_id e)"
    and fin: "\<forall>(i, e, ns) \<in> set ?g. finite ns"
    and rest: "group_pairs ?g = (\<lambda>r. (record_key u r, dt_trigger_name r)) ` set rs" "group_events ?g \<subseteq> dt_event ` set rs"
    by blast+
  have "map fst (group_record u ?g r) = first_occurrences (map (record_key u) (rs @ [r]))"
    unfolding group_record_keys keys by simp
  moreover note group_record_ids [OF ids, of r] group_record_finite [OF fin, of u r]
  moreover have "group_events (group_record u ?g r) \<subseteq> dt_event ` set (rs @ [r])"
    using group_record_events [of u ?g r] rest(2) by auto
  ultimately show ?case using rest(1) by (simp add: group_record_pairs)
qed simp

text \<open>The specification of a pass: handle a list of events, each once, in order.\<close>

primrec handle_all ::
  "('b, 'l, 'e, 'q) trigger_runtime \<Rightarrow> event_envelope list \<Rightarrow> ('b, 'q) rt_state
     \<Rightarrow> (handle_report list, runtime_error) result \<times> ('b, 'q) rt_state" where
  "handle_all rt [] s = (Ok [], s)"
| "handle_all rt (e # es) s =
     and_then (handle rt e s) (\<lambda>out s. and_then (handle_all rt es s) (\<lambda>outs s. (Ok (out # outs), s)))"

text \<open>The pairs of event id and trigger that failed in it.\<close>

definition failed_pairs :: "uuid_api \<Rightarrow> event_envelope list \<Rightarrow> handle_report list \<Rightarrow> (string \<times> string) set" where
  "failed_pairs u es outs =
     (\<Union>(e, out) \<in> set (zip es outs). (\<lambda>r. (event_id_to_string u (ev_id e), dt_trigger_name r)) ` set (hr_failed out))"

definition group_event_list :: "retry_group \<Rightarrow> event_envelope list" where
  "group_event_list g = map (\<lambda>(_, e, _). e) g"

lemma group_event_list_simps [simp]:
  "group_event_list [] = []" "group_event_list ((i, e, ns) # g) = e # group_event_list g"
  "set (group_event_list g) = group_events g" "length (group_event_list g) = length g"
  by (simp_all add: group_event_list_def group_events_def)

lemma group_event_list_ids:
  "\<forall>(i, e, ns) \<in> set g. i = event_id_to_string u (ev_id e) \<Longrightarrow>
     map (\<lambda>e. event_id_to_string u (ev_id e)) (group_event_list g) = map fst g"
  by (induction g) auto

text \<open>The loop handles exactly the events of its groups, and what it counts per group.\<close>

definition failed_names :: "handle_report \<Rightarrow> string set" where
  "failed_names out = dt_trigger_name ` set (hr_failed out)"

lemma retry_loop_handles:
  assumes "retry_loop rt g rep s = (Ok rep', s')"
  shows "\<exists>outs. handle_all rt (group_event_list g) s = (Ok outs, s') \<and> length outs = length g
     \<and> rr_drained rep' = rr_drained rep \<and> rr_events_retried rep' = rr_events_retried rep + length g
     \<and> rr_submitted rep' = rr_submitted rep @ concat (map hr_submitted outs)
     \<and> rr_still_failed rep' = rr_still_failed rep
          + sum_list (map (\<lambda>((_, _, ns), out). card (ns \<inter> failed_names out)) (zip g outs))
     \<and> rr_recovered rep' = rr_recovered rep
          + sum_list (map (\<lambda>((_, _, ns), out). card (ns - failed_names out)) (zip g outs))"
  using assms
proof (induction g arbitrary: rep s)
  case (Cons x g)
  obtain i e ns where x: "x = (i, e, ns)" by (cases x)
  from Cons.prems obtain out s1 where h: "handle rt e s = (Ok out, s1)" by (auto simp: x and_then_eq_Ok)
  with Cons.prems x obtain rep1 where rest: "retry_loop rt g rep1 s1 = (Ok rep', s')"
    and r: "rr_drained rep1 = rr_drained rep" "rr_events_retried rep1 = Suc (rr_events_retried rep)"
      "rr_submitted rep1 = rr_submitted rep @ hr_submitted out"
      "rr_still_failed rep1 = rr_still_failed rep + card (ns \<inter> failed_names out)"
      "rr_recovered rep1 = rr_recovered rep + card (ns - failed_names out)"
    by (auto simp: Let_def failed_names_def)
  from Cons.IH [OF rest] obtain outs where "handle_all rt (group_event_list g) s1 = (Ok outs, s')" "length outs = length g"
    "rr_drained rep' = rr_drained rep1" "rr_events_retried rep' = rr_events_retried rep1 + length g"
    "rr_submitted rep' = rr_submitted rep1 @ concat (map hr_submitted outs)"
    "rr_still_failed rep' = rr_still_failed rep1
       + sum_list (map (\<lambda>((_, _, ns), out). card (ns \<inter> failed_names out)) (zip g outs))"
    "rr_recovered rep' = rr_recovered rep1
       + sum_list (map (\<lambda>((_, _, ns), out). card (ns - failed_names out)) (zip g outs))" by blast
  with h r x show ?case by (intro exI [of _ "out # outs"]) simp
qed simp

text \<open>The sums over the groups are cardinalities of sets of pairs.\<close>

lemma group_counts:
  assumes "length outs = length g" and "distinct (map fst g)" and "\<forall>(i, e, ns) \<in> set g. finite ns"
    and "\<forall>(i, e, ns) \<in> set g. i = event_id_to_string u (ev_id e)"
  shows "sum_list (map (\<lambda>((_, _, ns), out). card (ns \<inter> failed_names out)) (zip g outs))
       = card (group_pairs g \<inter> failed_pairs u (group_event_list g) outs)
     \<and> sum_list (map (\<lambda>((_, _, ns), out). card (ns - failed_names out)) (zip g outs))
       = card (group_pairs g - failed_pairs u (group_event_list g) outs)"
  using assms
proof (induction g outs rule: list_induct2')
  case (4 x g out outs)
  obtain i e ns where x: "x = (i, e, ns)" by (cases x)
  let ?F = "failed_pairs u (group_event_list g) outs" and ?P = "group_pairs g" and ?N = "(\<lambda>n. (i, n)) ` ns"
  let ?O = "(\<lambda>n. (i, n)) ` failed_names out"
  have i: "i = event_id_to_string u (ev_id e)" "i \<notin> set (map fst g)" using "4.prems"(2,4) by (auto simp: x)
  have F: "failed_pairs u (group_event_list (x # g)) (out # outs) = ?O \<union> ?F"
    by (auto simp: x failed_pairs_def failed_names_def i(1))
  have fst: "fst ` ?P \<subseteq> set (map fst g)" by (force simp: group_pairs_def)
  have fstF: "fst ` ?F \<subseteq> set (map fst g)"
  proof -
    have "fst ` ?F \<subseteq> set (map (\<lambda>e. event_id_to_string u (ev_id e)) (group_event_list g))"
      by (auto simp: failed_pairs_def dest!: set_zip_leftD)
    then show ?thesis using group_event_list_ids [of g u] "4.prems"(4) by simp
  qed
  have apart: "(\<lambda>n. (i, n)) ` A \<inter> B = {}" if "fst ` B \<subseteq> set (map fst g)" for A :: "string set" and B :: "(string \<times> string) set"
  proof -
    have "i \<notin> fst ` B" using that i(2) by blast
    then show ?thesis by force
  qed
  note dis = apart [OF fstF, of ns] apart [OF fst, of "failed_names out"] apart [OF fst, of ns]
  have fin: "finite ns" "finite ?P" using "4.prems"(3) by (auto simp: x group_pairs_def)
  have "(?N \<union> ?P) \<inter> (?O \<union> ?F) = (\<lambda>n. (i, n)) ` (ns \<inter> failed_names out) \<union> ?P \<inter> ?F"
    "(?N \<union> ?P) - (?O \<union> ?F) = (\<lambda>n. (i, n)) ` (ns - failed_names out) \<union> (?P - ?F)" using dis by auto
  moreover have "card ((\<lambda>n. (i, n)) ` A \<union> B) = card A + card B" if "A \<subseteq> ns" "B \<subseteq> ?P" for A B
  proof -
    have "(\<lambda>n. (i, n)) ` A \<inter> B = {}" using dis(3) that by blast
    then show ?thesis
      using that fin by (subst card_Un_disjoint) (auto simp: card_image inj_on_def intro: finite_subset)
  qed
  ultimately show ?case using "4.IH" "4.prems" unfolding F by (simp add: x)
qed simp_all

context dead_trigger_queue
begin

lemma handle_all_queue:
  assumes "rt_dead_triggers rt = qops"
  shows "handle_all rt es s = (Ok outs, s') \<Longrightarrow>
     dq_all qops (st_queue s') = dq_all qops (st_queue s) @ concat (map hr_failed outs)"
proof (induction es arbitrary: s outs)
  case (Cons e es)
  then obtain out s1 outs1 where h: "handle rt e s = (Ok out, s1)" "handle_all rt es s1 = (Ok outs1, s')" "outs = out # outs1"
    by (auto simp: and_then_eq_Ok)
  from handle_accounts [OF assms h(1)] Cons.IH [OF h(2)] h(3) show ?case by auto
qed simp

lemma retry_loop_error:
  assumes "rt_dead_triggers rt = qops" and "retry_loop rt g rep s = (Err x, s')"
  shows "\<exists>pre post fl. g = pre @ post \<and> pre \<noteq> [] \<and> dq_all qops (st_queue s') = dq_all qops (st_queue s) @ fl
     \<and> (\<forall>r \<in> set fl. dt_event r \<in> group_events pre)"
  using assms(2)
proof (induction g arbitrary: rep s)
  case (Cons y g)
  obtain i e ns where y: "y = (i, e, ns)" by (cases y)
  obtain r1 s1 where h: "handle rt e s = (r1, s1)" by force
  from handle_accounts [OF assms(1) h] obtain fl1 where
    fl1: "dq_all qops (st_queue s1) = dq_all qops (st_queue s) @ fl1" "\<forall>r \<in> set fl1. dt_event r = e" by blast
  show ?case
  proof (cases r1)
    case (Err z)
    with h y Cons.prems have "s' = s1" by simp
    with fl1 y show ?thesis by (intro exI [of _ "[y]"] exI [of _ g] exI [of _ fl1]) auto
  next
    case (Ok out)
    with Cons.prems h y obtain rep1 where "retry_loop rt g rep1 s1 = (Err x, s')" by (auto simp: Let_def)
    from Cons.IH [OF this] obtain pre post fl where "g = pre @ post"
      "dq_all qops (st_queue s') = dq_all qops (st_queue s1) @ fl" "\<forall>r \<in> set fl. dt_event r \<in> group_events pre" by blast
    with fl1 y show ?thesis by (intro exI [of _ "y # pre"] exI [of _ post] exI [of _ "fl1 @ fl"]) auto
  qed
qed simp

lemma retry_pass:
  assumes "rt_dead_triggers rt = qops" and "retry_dead_triggers rt s = (Ok rep, s')"
  shows "let rs = dq_all qops (st_queue s); u = rt_uuid rt; pairs = (\<lambda>r. (record_key u r, dt_trigger_name r)) ` set rs in
     \<exists>q es outs t. dq_drain qops (st_queue s) = (Ok rs, q) \<and> handle_all rt es (s\<lparr>st_queue := q\<rparr>) = (Ok outs, t)
       \<and> s' = record_dead_trigger_depth rt t
       \<and> map (\<lambda>e. event_id_to_string u (ev_id e)) es = first_occurrences (map (record_key u) rs)
       \<and> set es \<subseteq> dt_event ` set rs
       \<and> dq_all qops (st_queue s') = concat (map hr_failed outs)
       \<and> rr_drained rep = length rs \<and> rr_events_retried rep = length es
       \<and> rr_submitted rep = concat (map hr_submitted outs)
       \<and> rr_still_failed rep = card (pairs \<inter> failed_pairs u es outs)
       \<and> rr_recovered rep = card (pairs - failed_pairs u es outs)"
proof -
  let ?rs = "dq_all qops (st_queue s)" and ?u = "rt_uuid rt"
  let ?g = "foldl (group_record ?u) [] ?rs"
  let ?r0 = "\<lparr>rr_drained = length ?rs, rr_events_retried = 0, rr_recovered = 0, rr_still_failed = 0, rr_submitted = []\<rparr>"
  from assms obtain rs q where dr: "dq_drain qops (st_queue s) = (Ok rs, q)"
    by (auto simp: retry_dead_triggers_def split: prod.splits result.splits)
  from drain_Ok [OF dr] dr have d: "dq_drain qops (st_queue s) = (Ok ?rs, q)" "dq_all qops q = []" by auto
  with assms obtain t where l: "retry_loop rt ?g ?r0 (s\<lparr>st_queue := q\<rparr>) = (Ok rep, t)" "s' = record_dead_trigger_depth rt t"
    by (auto simp: retry_dead_triggers_def and_then_eq_Ok)
  from retry_loop_handles [OF l(1)] obtain outs where
    h: "handle_all rt (group_event_list ?g) (s\<lparr>st_queue := q\<rparr>) = (Ok outs, t)" "length outs = length ?g"
      "rr_drained rep = length ?rs" "rr_events_retried rep = length ?g" "rr_submitted rep = concat (map hr_submitted outs)"
      "rr_still_failed rep = sum_list (map (\<lambda>((_, _, ns), out). card (ns \<inter> failed_names out)) (zip ?g outs))"
      "rr_recovered rep = sum_list (map (\<lambda>((_, _, ns), out). card (ns - failed_names out)) (zip ?g outs))" by auto
  note g = group_all [of ?u ?rs]
  then have ids: "\<forall>(i, e, ns) \<in> set ?g. i = event_id_to_string ?u (ev_id e)" and fin: "\<forall>(i, e, ns) \<in> set ?g. finite ns"
    and pairs: "group_pairs ?g = (\<lambda>r. (record_key ?u r, dt_trigger_name r)) ` set ?rs"
    and keys: "map fst ?g = first_occurrences (map (record_key ?u) ?rs)" and sub: "group_events ?g \<subseteq> dt_event ` set ?rs" by blast+
  have "distinct (map fst ?g)" unfolding keys by simp
  note counts = group_counts [OF h(2) this fin ids, folded h(6,7), unfolded pairs]
  from handle_all_queue [OF assms(1) h(1)] d(2) l(2) have "dq_all qops (st_queue s') = concat (map hr_failed outs)" by simp
  with d(1) h(1,3-5) l(2) counts group_event_list_ids [OF ids] keys sub show ?thesis
    unfolding Let_def by (intro exI [of _ q] exI [of _ "group_event_list ?g"] exI [of _ outs] exI [of _ t]) simp
qed

lemma retry_pass_error:
  assumes "rt_dead_triggers rt = qops" and "retry_dead_triggers rt s = (Err x, s')"
    and "is_ok (fst (dq_drain qops (st_queue s)))"
  shows "\<exists>pre post. foldl (group_record (rt_uuid rt)) [] (dq_all qops (st_queue s)) = pre @ post \<and> pre \<noteq> []
     \<and> (\<forall>r \<in> set (dq_all qops (st_queue s')). dt_event r \<in> group_events pre)"
proof -
  let ?rs = "dq_all qops (st_queue s)"
  let ?g = "foldl (group_record (rt_uuid rt)) [] ?rs"
  let ?r0 = "\<lparr>rr_drained = length ?rs, rr_events_retried = 0, rr_recovered = 0, rr_still_failed = 0, rr_submitted = []\<rparr>"
  from assms(3) obtain rs q where dr: "dq_drain qops (st_queue s) = (Ok rs, q)"
    by (cases "dq_drain qops (st_queue s)") (auto simp: is_ok_iff)
  from drain_Ok [OF dr] dr have d: "dq_drain qops (st_queue s) = (Ok ?rs, q)" "dq_all qops q = []" by auto
  with assms have l: "retry_loop rt ?g ?r0 (s\<lparr>st_queue := q\<rparr>) = (Err x, s')"
    by (auto simp: retry_dead_triggers_def and_then_eq_Err)
  from retry_loop_error [OF assms(1) l] d(2) show ?thesis by (auto intro: exI)
qed

end

text \<open>C32: what a successful retry pass does. It drains the queue, handles each distinct failed event exactly once,
  in the order of the first record of each, and nothing else; a pair of event and trigger that was in the queue
  counts as still failed when that handling recorded it again and as recovered otherwise, each pair once (a
  record that repeats a pair is drained but not counted); the jobs it reports are those of the handlings, and
  afterwards the queue holds exactly the failures of the handlings.\<close>

theorem retry_pass_report:
  assumes "rt_dead_triggers rt = file_dead_trigger_queue c" and "retry_dead_triggers rt s = (Ok rep, s')"
  shows "let rs = jsonl_all (st_queue s); u = rt_uuid rt; pairs = (\<lambda>r. (record_key u r, dt_trigger_name r)) ` set rs in
     \<exists>q es outs t. jsonl_drain (st_queue s) = (Ok rs, q) \<and> handle_all rt es (s\<lparr>st_queue := q\<rparr>) = (Ok outs, t)
       \<and> s' = record_dead_trigger_depth rt t
       \<and> map (\<lambda>e. event_id_to_string u (ev_id e)) es = first_occurrences (map (record_key u) rs)
       \<and> set es \<subseteq> dt_event ` set rs
       \<and> jsonl_all (st_queue s') = concat (map hr_failed outs)
       \<and> rr_drained rep = length rs \<and> rr_events_retried rep = length es
       \<and> rr_submitted rep = concat (map hr_submitted outs)
       \<and> rr_still_failed rep = card (pairs \<inter> failed_pairs u es outs)
       \<and> rr_recovered rep = card (pairs - failed_pairs u es outs)"
  using fq.retry_pass [OF assms] unfolding file_queue_ops fq_drain_def .

theorem retry_pass_report_witness:
  "\<exists>rep s'. retry_dead_triggers (demo_runtime [demo_trigger ''b'' ''lane''] (file_dead_trigger_queue blank_codec))
        (rt_new (0, []) (blank_queue
           [\<lparr>dt_event = demo_event, dt_trigger_name = ''b'', dt_error = []\<rparr>,
            \<lparr>dt_event = demo_event, dt_trigger_name = ''b'', dt_error = []\<rparr>] [])) = (Ok rep, s')
     \<and> rr_drained rep = 2 \<and> rr_events_retried rep = 1 \<and> rr_recovered rep + rr_still_failed rep = 1"
proof -
  let ?rt = "demo_runtime [demo_trigger ''b'' ''lane''] (file_dead_trigger_queue blank_codec)"
  let ?r = "\<lparr>dt_event = demo_event, dt_trigger_name = ''b'', dt_error = []\<rparr>"
  let ?s = "rt_new (0, []) (blank_queue [?r, ?r] []) :: (nat \<times> (string \<times> string) list, file_queue) rt_state"
  have q: "rt_dead_triggers ?rt = file_dead_trigger_queue blank_codec" by (simp add: demo_runtime_def)
  have all: "jsonl_all (st_queue ?s) = [?r, ?r]" by (simp add: rt_new_def blank_queue_def jsonl_all_def)
  obtain rep s' where run: "retry_dead_triggers ?rt ?s = (Ok rep, s')"
    by (simp add: retry_dead_triggers_def demo_eval Let_def file_queue_ops fq_drain_def jsonl_drain_def
        blank_codec_def blank_queue_def set_len_0_def sync_file_def attempt_def empty_fs_def)
  let ?pair = "(record_key (rt_uuid ?rt) ?r, ''b'')"
  from retry_pass_report [OF q run, unfolded all Let_def] obtain q es outs t where
    ids: "map (\<lambda>e. event_id_to_string (rt_uuid ?rt) (ev_id e)) es = first_occurrences (map (record_key (rt_uuid ?rt)) [?r, ?r])"
    and es: "rr_events_retried rep = length es" "rr_drained rep = length [?r, ?r]"
      "rr_still_failed rep = card ((\<lambda>r. (record_key (rt_uuid ?rt) r, dt_trigger_name r)) ` set [?r, ?r] \<inter> failed_pairs (rt_uuid ?rt) es outs)"
      "rr_recovered rep = card ((\<lambda>r. (record_key (rt_uuid ?rt) r, dt_trigger_name r)) ` set [?r, ?r] - failed_pairs (rt_uuid ?rt) es outs)"
    by (elim exE conjE)
  have "length (first_occurrences (map (record_key (rt_uuid ?rt)) [?r, ?r])) = 1" by (simp add: first_occurrences_def)
  with ids have "length es = 1" by (metis length_map)
  moreover have "card ({?pair} - failed_pairs (rt_uuid ?rt) es outs) + card ({?pair} \<inter> failed_pairs (rt_uuid ?rt) es outs) = 1" by (cases "?pair \<in> failed_pairs (rt_uuid ?rt) es outs") (simp_all add: insert_Diff_if)
  ultimately show ?thesis using es run by simp
qed

text \<open>A retry pass that fails loses the records it did not reach. The pass drains the queue before it
  handles the events one by one; when one of them ends in a storage error, the records of every later
  event are no longer in the queue.\<close>

theorem retry_error_loses_unreached:
  assumes "rt_dead_triggers rt = file_dead_trigger_queue c" and "retry_dead_triggers rt s = (Err x, s')"
    and "is_ok (fst (jsonl_drain (st_queue s)))"
  shows "\<exists>pre post. foldl (group_record (rt_uuid rt)) [] (jsonl_all (st_queue s)) = pre @ post \<and> pre \<noteq> []
     \<and> (\<forall>r \<in> set (jsonl_all (st_queue s')). dt_event r \<in> group_events pre)"
  using fq.retry_pass_error [OF assms(1,2)] assms(3) by (simp add: file_queue_ops fq_drain_def)

theorem retry_error_loses_unreached_witness:
  "\<exists>x s' pre. retry_dead_triggers (demo_runtime [demo_trigger ''b'' []] (file_dead_trigger_queue blank_codec))
        (rt_new (0, []) (blank_queue
           [\<lparr>dt_event = demo_event, dt_trigger_name = ''b'', dt_error = []\<rparr>,
            \<lparr>dt_event = demo_event\<lparr>ev_id := EventId 1\<rparr>, dt_trigger_name = ''b'', dt_error = []\<rparr>]
           [Succeed, Succeed, Fail (IoError Other ''ENOSPC'')])) = (Err x, s')
     \<and> pre \<noteq> [] \<and> (\<forall>r \<in> set (jsonl_all (st_queue s')). dt_event r \<in> group_events pre)"
proof -
  let ?rt = "demo_runtime [demo_trigger ''b'' []] (file_dead_trigger_queue blank_codec)"
  let ?s = "rt_new (0, []) (blank_queue
           [\<lparr>dt_event = demo_event, dt_trigger_name = ''b'', dt_error = []\<rparr>,
            \<lparr>dt_event = demo_event\<lparr>ev_id := EventId 1\<rparr>, dt_trigger_name = ''b'', dt_error = []\<rparr>]
           [Succeed, Succeed, Fail (IoError Other ''ENOSPC'')]) :: (nat \<times> (string \<times> string) list, file_queue) rt_state"
  have q: "rt_dead_triggers ?rt = file_dead_trigger_queue blank_codec" by (simp add: demo_runtime_def)
  have d: "is_ok (fst (jsonl_drain (st_queue ?s)))"
    by (simp add: rt_new_def blank_queue_def jsonl_drain_def set_len_0_def sync_file_def attempt_def)
  obtain x s' where run: "retry_dead_triggers ?rt ?s = (Err x, s')"
    by (simp add: retry_dead_triggers_def demo_eval Let_def file_queue_ops fq_drain_def jsonl_drain_def
        blank_codec_def blank_queue_def set_len_0_def sync_file_def attempt_def empty_fs_def
        jsonl_append_def write_all_def event_id_to_string_def unary_uuid_def)
  from retry_error_loses_unreached [OF q run d] obtain pre post where
    "pre \<noteq> []" "\<forall>r \<in> set (jsonl_all (st_queue s')). dt_event r \<in> group_events pre" by blast
  with run show ?thesis by blast
qed

end
