(* ===== verification/Ingest.thy ===== *)
theory Ingest
  imports Runtime_Properties
begin

text \<open>
  \<open>EventIngest\<close> of \<open>crates/triggerlane-runtime/src/lib.rs\<close>: the source-agnostic pipeline that stores an
  event, handles it and marks it delivered, with its synchronous form \<open>ingest\<close>, the asynchronous halves
  \<open>accept\<close> and \<open>dispatch\<close>, and the restart path \<open>recover_undelivered\<close>. The state of the pipeline is the
  state of the event store and the state of the runtime.
\<close>

subsection \<open>Definitions\<close>

record ingest_report =
  ir_event_id :: string
  ir_handle :: handle_report
  ir_deduplicated :: bool

record accept_report =
  ar_event_id :: string
  ar_deduplicated :: bool

type_synonym ('s, 'b, 'q) pipeline = "'s \<times> ('b, 'q) rt_state"

definition on_store ::
  "('s \<Rightarrow> ('a, io_error) result \<times> 's) \<Rightarrow> ('s, 'b, 'q) pipeline
     \<Rightarrow> ('a, runtime_error) result \<times> ('s, 'b, 'q) pipeline" where
  "on_store f p = (case f (fst p) of (r, store) \<Rightarrow> (map_err Storage r, (store, snd p)))"

definition on_runtime ::
  "(('b, 'q) rt_state \<Rightarrow> ('a, runtime_error) result \<times> ('b, 'q) rt_state) \<Rightarrow> ('s, 'b, 'q) pipeline
     \<Rightarrow> ('a, runtime_error) result \<times> ('s, 'b, 'q) pipeline" where
  "on_runtime f p = (case f (snd p) of (r, s) \<Rightarrow> (r, (fst p, s)))"

definition existing_event :: "'s event_store_ops \<Rightarrow> event_envelope \<Rightarrow> 's \<Rightarrow> event_envelope option" where
  "existing_event es event store = (case idempotency_key (ev_metadata event) of
     None \<Rightarrow> None
   | Some key \<Rightarrow> find_by_idempotency_key es key store)"

definition ingest ::
  "('b, 'l, 'e, 'q) trigger_runtime \<Rightarrow> 's event_store_ops \<Rightarrow> event_envelope \<Rightarrow> ('s, 'b, 'q) pipeline
     \<Rightarrow> (ingest_report, runtime_error) result \<times> ('s, 'b, 'q) pipeline" where
  "ingest rt es event p =
     (case existing_event es event (fst p) of
        Some existing \<Rightarrow>
          (Ok \<lparr>ir_event_id = event_id_to_string (rt_uuid rt) (ev_id existing),
               ir_handle = \<lparr>hr_submitted = [], hr_failed = []\<rparr>, ir_deduplicated = True\<rparr>, p)
      | None \<Rightarrow>
          and_then (on_store (es_append es event) p) (\<lambda>_ p.
          and_then (on_runtime (handle rt event) p) (\<lambda>report p.
          and_then (on_store (es_mark_delivered es (ev_id event)) p) (\<lambda>_ p.
            (Ok \<lparr>ir_event_id = event_id_to_string (rt_uuid rt) (ev_id event),
                 ir_handle = report, ir_deduplicated = False\<rparr>, p)))))"

definition accept ::
  "uuid_api \<Rightarrow> 's event_store_ops \<Rightarrow> event_envelope \<Rightarrow> ('s, 'b, 'q) pipeline
     \<Rightarrow> (accept_report, runtime_error) result \<times> ('s, 'b, 'q) pipeline" where
  "accept u es event p =
     (case existing_event es event (fst p) of
        Some existing \<Rightarrow>
          (Ok \<lparr>ar_event_id = event_id_to_string u (ev_id existing), ar_deduplicated = True\<rparr>, p)
      | None \<Rightarrow>
          and_then (on_store (es_append es event) p) (\<lambda>_ p.
            (Ok \<lparr>ar_event_id = event_id_to_string u (ev_id event), ar_deduplicated = False\<rparr>, p)))"

definition dispatch ::
  "('b, 'l, 'e, 'q) trigger_runtime \<Rightarrow> 's event_store_ops \<Rightarrow> event_envelope \<Rightarrow> ('s, 'b, 'q) pipeline
     \<Rightarrow> (handle_report, runtime_error) result \<times> ('s, 'b, 'q) pipeline" where
  "dispatch rt es event p =
     and_then (on_runtime (handle rt event) p) (\<lambda>report p.
     and_then (on_store (es_mark_delivered es (ev_id event)) p) (\<lambda>_ p. (Ok report, p)))"

fun recover_loop ::
  "('b, 'l, 'e, 'q) trigger_runtime \<Rightarrow> 's event_store_ops \<Rightarrow> event_envelope list \<Rightarrow> nat
     \<Rightarrow> ('s, 'b, 'q) pipeline \<Rightarrow> (nat, runtime_error) result \<times> ('s, 'b, 'q) pipeline" where
  "recover_loop rt es [] recovered p = (Ok recovered, p)"
| "recover_loop rt es (event # pending) recovered p =
     and_then (on_runtime (handle rt event) p) (\<lambda>_ p.
     and_then (on_store (es_mark_delivered es (ev_id event)) p) (\<lambda>_ p.
       recover_loop rt es pending (recovered + 1) p))"

definition recover_undelivered ::
  "('b, 'l, 'e, 'q) trigger_runtime \<Rightarrow> 's event_store_ops \<Rightarrow> ('s, 'b, 'q) pipeline
     \<Rightarrow> (nat, runtime_error) result \<times> ('s, 'b, 'q) pipeline" where
  "recover_undelivered rt es p = recover_loop rt es (es_undelivered es (fst p)) 0 p"

text \<open>A file store on a fresh disk, for concrete runs, with codecs that write every record as an empty
  object.\<close>

definition blank_codecs :: event_codecs where
  "blank_codecs = (\<lparr>to_vec = (\<lambda>_. Ok ''{}''), from_str = (\<lambda>_. Err ''missing field'')\<rparr>,
                   \<lparr>to_vec = (\<lambda>_. Ok ''{}''), from_str = (\<lambda>_. Err ''missing field'')\<rparr>)"

definition blank_store :: "event_envelope list \<Rightarrow> sys list \<Rightarrow> file_event_store" where
  "blank_store es script =
     \<lparr>fe_inner = \<lparr>js_path = ''events.jsonl'', js_records = es, js_file = 0\<rparr>,
      fe_delivered = \<lparr>js_path = ''events.jsonl.delivered'', js_records = [], js_file = 1\<rparr>,
      fe_delivered_set = {}, fe_fs = empty_fs\<lparr>fs_script := script\<rparr>\<rparr>"

subsection \<open>The two ingestion paths agree\<close>

text \<open>C25: the asynchronous path does what the synchronous one does. Accepting an event and then, when it
  is new, dispatching it leaves the same store, broker and queue as ingesting it, and yields the same
  outcome, errors included.\<close>

theorem ingest_is_accept_then_dispatch:
  "ingest rt es e p =
     and_then (accept (rt_uuid rt) es e p) (\<lambda>a p.
       if ar_deduplicated a
       then (Ok \<lparr>ir_event_id = ar_event_id a, ir_handle = \<lparr>hr_submitted = [], hr_failed = []\<rparr>,
                 ir_deduplicated = True\<rparr>, p)
       else and_then (dispatch rt es e p) (\<lambda>report p.
              (Ok \<lparr>ir_event_id = ar_event_id a, ir_handle = report, ir_deduplicated = False\<rparr>, p)))"
  by (simp add: ingest_def accept_def dispatch_def and_then_def split: option.split prod.split result.split)

subsection \<open>Ingestion over the store's contract\<close>

lemma on_store_cases:
  assumes "on_store f p = (r, p')"
  obtains (ok) x st where "f (fst p) = (Ok x, st)" "r = Ok x" "p' = (st, snd p)"
  | (err) e st where "f (fst p) = (Err e, st)" "r = Err (Storage e)" "p' = (st, snd p)"
  using assms by (cases "f (fst p)"; cases "fst (f (fst p))") (auto simp: on_store_def)

lemma on_runtime_store: "on_runtime f p = (r, p') \<Longrightarrow> fst p' = fst p"
  by (auto simp: on_runtime_def split: prod.splits)

definition keys_unique :: "event_envelope list \<Rightarrow> bool" where
  "keys_unique es \<longleftrightarrow>
     distinct (map (\<lambda>e. idempotency_key (ev_metadata e))
       (filter (\<lambda>e. idempotency_key (ev_metadata e) \<noteq> None) es))"

lemma subseq_distinct: "subseq xs ys \<Longrightarrow> distinct ys \<Longrightarrow> distinct xs"
  by (induction rule: list_emb.induct) (auto dest: subseq_set)

lemma keys_unique_subseq: "subseq xs ys \<Longrightarrow> keys_unique ys \<Longrightarrow> keys_unique xs"
  unfolding keys_unique_def by (erule subseq_distinct [rotated]) (intro subseq_map subseq_filter)

text \<open>One call after the other on the pipeline, whether it succeeds or fails.\<close>

inductive pipeline_run ::
  "('b, 'l, 'e, 'q) trigger_runtime \<Rightarrow> 's event_store_ops \<Rightarrow> ('s, 'b, 'q) pipeline \<Rightarrow> ('s, 'b, 'q) pipeline \<Rightarrow> bool"
  for rt es p where
  start: "pipeline_run rt es p p"
| ingested: "pipeline_run rt es p q \<Longrightarrow> ingest rt es e q = (r, q') \<Longrightarrow> pipeline_run rt es p q'"
| accepted: "pipeline_run rt es p q \<Longrightarrow> accept u es e q = (a, q') \<Longrightarrow> pipeline_run rt es p q'"
| dispatched: "pipeline_run rt es p q \<Longrightarrow> dispatch rt es e q = (h, q') \<Longrightarrow> pipeline_run rt es p q'"
| recovered: "pipeline_run rt es p q \<Longrightarrow> recover_undelivered rt es q = (n, q') \<Longrightarrow> pipeline_run rt es p q'"
| swept: "pipeline_run rt es p q \<Longrightarrow> es_enforce_retention es policy now (fst q) = (m, st) \<Longrightarrow> pipeline_run rt es p (st, snd q)"
| pruned: "pipeline_run rt es p q \<Longrightarrow> es_prune es manual (fst q) = (m, st) \<Longrightarrow> pipeline_run rt es p (st, snd q)"

context event_store
begin

lemma existing_None_keys_unique:
  assumes "existing_event ops e s = None" and "keys_unique (es_all ops s)"
  shows "keys_unique (es_all ops s @ [e])"
  using assms
  by (auto simp: existing_event_def find_by_idempotency_key_def keys_unique_def find_None_iff split: option.splits)

lemma ingest_new:
  assumes "existing_event ops e (fst p) = None" and "ingest rt ops e p = (res, p')"
  shows "(es_all ops (fst p') = es_all ops (fst p) \<and> delivered (fst p') = delivered (fst p)
            \<and> snd p' = snd p \<and> (\<exists>io. res = Err (Storage io)))
       \<or> (es_all ops (fst p') = es_all ops (fst p) @ [e]
            \<and> delivered (fst p') = (if is_ok res then insert (ev_id e) (delivered (fst p)) else delivered (fst p))
            \<and> snd p' = snd (handle rt e (snd p))
            \<and> (is_ok res \<longrightarrow> is_ok (fst (handle rt e (snd p)))))"
proof -
  obtain r1 p1 where a: "on_store (es_append ops e) p = (r1, p1)"
    by (cases "on_store (es_append ops e) p") blast
  then show ?thesis
  proof (cases rule: on_store_cases)
    case (err io st)
    from a err assms have "res = Err (Storage io)" "p' = (st, snd p)" by (simp_all add: ingest_def)
    with append_Err [OF err(1)] show ?thesis by simp
  next
    case (ok x st)
    from append_Ok [OF ok(1)] have s1: "es_all ops st = es_all ops (fst p) @ [e]" "delivered st = delivered (fst p)"
      by auto
    obtain r2 s2 where h: "handle rt e (snd p) = (r2, s2)" by force
    show ?thesis
    proof (cases r2)
      case (Err y)
      from a ok h Err assms have "res = Err y" "p' = (st, s2)" by (simp_all add: ingest_def on_runtime_def)
      with s1 h show ?thesis by simp
    next
      case r2: (Ok rep)
      obtain r3 p3 where m: "on_store (es_mark_delivered ops (ev_id e)) (st, s2) = (r3, p3)"
        by (cases "on_store (es_mark_delivered ops (ev_id e)) (st, s2)") blast
      have run: "ingest rt ops e p = and_then (r3, p3) (\<lambda>_ p.
          (Ok \<lparr>ir_event_id = event_id_to_string (rt_uuid rt) (ev_id e), ir_handle = rep, ir_deduplicated = False\<rparr>, p))"
        using a ok h r2 assms(1) m by (simp add: ingest_def on_runtime_def)
      from m show ?thesis
      proof (cases rule: on_store_cases)
        case (ok z st3)
        then have "es_mark_delivered ops (ev_id e) st = (Ok z, st3)" by simp
        from mark_Ok [OF this] run ok assms(2) s1 h r2 show ?thesis by auto
      next
        case (err io st3)
        then have "es_mark_delivered ops (ev_id e) st = (Err io, st3)" by simp
        from mark_Err [OF this] run err assms(2) s1 h r2 show ?thesis by auto
      qed
    qed
  qed
qed

lemma ingest_keys_unique:
  assumes "keys_unique (es_all ops (fst p))" and "ingest rt ops e p = (res, p')"
  shows "keys_unique (es_all ops (fst p'))"
proof (cases "existing_event ops e (fst p)")
  case None
  from ingest_new [OF None assms(2)] existing_None_keys_unique [OF None assms(1)] assms(1) show ?thesis by auto
next
  case (Some x)
  with assms show ?thesis by (simp add: ingest_def)
qed

lemma accept_keys_unique:
  assumes "keys_unique (es_all ops (fst p))" and "accept u ops e p = (res, p')"
  shows "keys_unique (es_all ops (fst p'))"
proof (cases "existing_event ops e (fst p)")
  case None
  obtain r p1 where a: "on_store (es_append ops e) p = (r, p1)" by (cases "on_store (es_append ops e) p") blast
  with None assms(2) have "p1 = p'" by (cases r) (auto simp: accept_def)
  with a append_all [of e "fst p" _ "fst p'"] existing_None_keys_unique [OF None assms(1)] assms(1) show ?thesis
    by (auto elim!: on_store_cases)
next
  case (Some x)
  with assms show ?thesis by (simp add: accept_def)
qed

lemma dispatch_all: "dispatch rt ops e p = (res, p') \<Longrightarrow> es_all ops (fst p') = es_all ops (fst p)"
  by (auto simp: dispatch_def on_runtime_def on_store_def and_then_def
      dest: mark_delivered_state split: prod.splits result.splits)

lemma recover_loop_state:
  assumes "recover_loop rt ops pending n p = (res, p')"
  shows "\<exists>done rest. pending = done @ rest \<and> es_all ops (fst p') = es_all ops (fst p)
     \<and> delivered (fst p') = delivered (fst p) \<union> ev_id ` set done
     \<and> (case res of Ok k \<Rightarrow> rest = [] \<and> k = n + length pending | Err _ \<Rightarrow> rest \<noteq> [])"
  using assms
proof (induction pending arbitrary: n p)
  case (Cons e pending)
  obtain r1 s1 where h: "handle rt e (snd p) = (r1, s1)" by force
  show ?case
  proof (cases r1)
    case (Err x)
    with Cons.prems h show ?thesis by - (rule exI [of _ "[]"], rule exI [of _ "e # pending"], auto simp: on_runtime_def)
  next
    case r1: (Ok rep)
    obtain r2 p2 where m: "on_store (es_mark_delivered ops (ev_id e)) (fst p, s1) = (r2, p2)"
      by (cases "on_store (es_mark_delivered ops (ev_id e)) (fst p, s1)") blast
    then show ?thesis
    proof (cases rule: on_store_cases)
      case (err io st)
      from Cons.prems h r1 m err have "res = Err (Storage io)" "p' = (st, s1)" by (simp_all add: on_runtime_def)
      moreover from err have "es_mark_delivered ops (ev_id e) (fst p) = (Err io, st)" by simp
      ultimately show ?thesis using mark_Err [of "ev_id e" "fst p" io st]
        by - (rule exI [of _ "[]"], rule exI [of _ "e # pending"], simp)
    next
      case (ok u st)
      with Cons.prems h r1 m have rest: "recover_loop rt ops pending (n + 1) p2 = (res, p')"
        by (simp add: on_runtime_def)
      from ok mark_Ok [of "ev_id e" "fst p" u st] have p2: "es_all ops (fst p2) = es_all ops (fst p)"
        "delivered (fst p2) = insert (ev_id e) (delivered (fst p))" by auto
      from Cons.IH [OF rest] obtain d1 r1 where "pending = d1 @ r1"
        "es_all ops (fst p') = es_all ops (fst p2)" "delivered (fst p') = delivered (fst p2) \<union> ev_id ` set d1"
        "case res of Ok k \<Rightarrow> r1 = [] \<and> k = n + 1 + length pending | Err _ \<Rightarrow> r1 \<noteq> []" by blast
      with p2 show ?thesis
        by (intro exI [of _ "e # d1"] exI [of _ r1]) (auto split: result.splits)
    qed
  qed
qed auto

lemma recover_undelivered_state:
  assumes "recover_undelivered rt ops p = (res, p')"
  shows "es_all ops (fst p') = es_all ops (fst p)
     \<and> (case res of
          Ok n \<Rightarrow> n = length (es_undelivered ops (fst p)) \<and> es_undelivered ops (fst p') = []
        | Err _ \<Rightarrow> \<exists>done rest. es_undelivered ops (fst p) = done @ rest \<and> rest \<noteq> []
            \<and> es_undelivered ops (fst p')
                = filter (\<lambda>e. ev_id e \<notin> ev_id ` set done) (es_undelivered ops (fst p)))"
proof -
  from recover_loop_state [OF assms [unfolded recover_undelivered_def]] obtain d r where
    d: "es_undelivered ops (fst p) = d @ r" "es_all ops (fst p') = es_all ops (fst p)"
      "delivered (fst p') = delivered (fst p) \<union> ev_id ` set d"
      "case res of Ok k \<Rightarrow> r = [] \<and> k = 0 + length (es_undelivered ops (fst p)) | Err _ \<Rightarrow> r \<noteq> []" by blast
  have u: "es_undelivered ops (fst p') = filter (\<lambda>e. ev_id e \<notin> ev_id ` set d) (es_undelivered ops (fst p))"
    using d(2,3) by (auto simp: undelivered_eq intro: filter_cong)
  show ?thesis
  proof (cases res)
    case (Ok k)
    with d(1,4) u have "es_undelivered ops (fst p') = filter (\<lambda>e. ev_id e \<notin> ev_id ` set d) d" by simp
    then have "es_undelivered ops (fst p') = []" by simp
    with Ok d show ?thesis by simp
  next
    case (Err x)
    with d u show ?thesis by (simp del: filter_append) blast
  qed
qed

end

subsection \<open>Properties of the pipeline over the file store\<close>

text \<open>C12: an event is stored before it is handled. When a new event cannot be appended, nothing is handled
  and the error is returned; otherwise the event stays in the store whatever happens next, and it is
  marked delivered exactly when ingestion succeeds, which needs a successful handling. So an event whose
  handling failed is among the undelivered ones that a restart replays.\<close>

theorem ingest_persists_before_handling:
  assumes "existing_event (fe_store cs) e (fst p) = None" and "ingest rt (fe_store cs) e p = (res, p')"
  shows "(fe_all (fst p') = fe_all (fst p) \<and> fe_delivered_set (fst p') = fe_delivered_set (fst p)
            \<and> snd p' = snd p \<and> (\<exists>io. res = Err (Storage io)))
       \<or> (fe_all (fst p') = fe_all (fst p) @ [e]
            \<and> fe_delivered_set (fst p')
                = (if is_ok res then insert (ev_id e) (fe_delivered_set (fst p)) else fe_delivered_set (fst p))
            \<and> snd p' = snd (handle rt e (snd p))
            \<and> (is_ok res \<longrightarrow> is_ok (fst (handle rt e (snd p)))))"
  using fe.ingest_new [OF assms] by (simp only: fe_store_laws)

theorem ingest_persists_before_handling_witness:
  "\<exists>p'. snd (ingest (demo_runtime [demo_trigger ''a'' ''lane''] (im_queue (\<lambda>_. Ok []))) (fe_store blank_codecs)
          demo_event (blank_store [] [Fail (IoError Other ''ENOSPC'')], rt_new (0, []) [])) = p'
     \<and> fe_all (fst p') \<in> {[], [demo_event]} \<and> ev_id demo_event \<notin> fe_delivered_set (fst p')"
proof -
  let ?rt = "demo_runtime [demo_trigger ''a'' ''lane''] (im_queue (\<lambda>_. Ok []))"
  let ?p = "(blank_store [] [Fail (IoError Other ''ENOSPC'')], rt_new (0, []) [])
    :: (file_event_store, nat \<times> (string \<times> string) list, in_memory_queue) pipeline"
  have new: "existing_event (fe_store blank_codecs) demo_event (fst ?p) = None"
    by (simp add: existing_event_def demo_event_def envelope_new_def default_metadata_def)
  obtain res p' where run: "ingest ?rt (fe_store blank_codecs) demo_event ?p = (res, p')"
    by (cases "ingest ?rt (fe_store blank_codecs) demo_event ?p") blast
  have "\<not> is_ok res"
    using run by (auto simp: ingest_def existing_event_def demo_event_def envelope_new_def default_metadata_def
        on_store_def fe_store_laws fe_append_def on_inner_def jsonl_append_def blank_codecs_def blank_store_def
        write_all_def)
  with ingest_persists_before_handling [OF new run] run show ?thesis
    by (auto simp: blank_store_def fe_all_def jsonl_all_def)
qed

lemma fe_retention_subseq: "fe_enforce_retention cs policy now s = (r, s') \<Longrightarrow> subseq (fe_all s') (fe_all s)"
  using retain_events_subseq by (fastforce dest: fe_retention_memory split: result.splits)

lemma pipeline_run_keys_unique:
  assumes "pipeline_run rt (fe_store cs) p p'" and "keys_unique (fe_all (fst p))"
  shows "keys_unique (fe_all (fst p'))"
  using assms
proof (induction rule: pipeline_run.induct)
  case (ingested q e r q')
  then show ?case using fe.ingest_keys_unique [of cs q rt e r q'] by (simp add: fe_store_laws)
next
  case (accepted q u e a q')
  then show ?case using fe.accept_keys_unique [of cs q u e a q'] by (simp add: fe_store_laws)
next
  case (dispatched q e h q')
  then show ?case using fe.dispatch_all [of rt cs e q h q'] by (simp add: fe_store_laws)
next
  case (recovered q n q')
  then show ?case using fe.recover_undelivered_state [of rt cs q n q'] by (simp add: fe_store_laws)
next
  case (swept q policy now m st)
  then show ?case using keys_unique_subseq [OF fe_retention_subseq] by (simp add: fe_store_laws)
next
  case (pruned q manual m st)
  then have "fe_prune cs manual (fst q) = (m, st)" by (simp add: fe_store_laws)
  from fe_prune_memory [OF this] keys_unique_subseq [OF keep_subseq] pruned show ?case by (auto split: if_splits)
qed

text \<open>C26: idempotency keys stay unique while calls come one after the other. From a store in which no two events
  share an idempotency key, such as an empty one, any sequence of ingestions, accepts, dispatches, recoveries,
  sweeps and prunes, each whether it succeeds or fails, leads to a store in which no two events share a key;
  and an event whose key is there is answered as a duplicate, with the id of a stored event with that key, and
  changes nothing.\<close>

theorem ingest_keeps_keys_unique:
  assumes "pipeline_run rt (fe_store cs) p p'" and "keys_unique (fe_all (fst p))"
  shows "keys_unique (fe_all (fst p'))
     \<and> (\<forall>e k. idempotency_key (ev_metadata e) = Some k
            \<and> (\<exists>x \<in> set (fe_all (fst p')). idempotency_key (ev_metadata x) = Some k) \<longrightarrow>
          (\<exists>x \<in> set (fe_all (fst p')). idempotency_key (ev_metadata x) = Some k
             \<and> ingest rt (fe_store cs) e p' = (Ok \<lparr>ir_event_id = event_id_to_string (rt_uuid rt) (ev_id x),
                  ir_handle = \<lparr>hr_submitted = [], hr_failed = []\<rparr>, ir_deduplicated = True\<rparr>, p')))"
proof (intro conjI allI impI)
  show "keys_unique (fe_all (fst p'))" by (rule pipeline_run_keys_unique [OF assms])
  fix e :: event_envelope and k assume k: "idempotency_key (ev_metadata e) = Some k
      \<and> (\<exists>x \<in> set (fe_all (fst p')). idempotency_key (ev_metadata x) = Some k)"
  then obtain x where x: "existing_event (fe_store cs) e (fst p') = Some x"
    by (cases "existing_event (fe_store cs) e (fst p')")
       (auto simp: existing_event_def find_by_idempotency_key_def fe_store_laws find_None_iff)
  then have "x \<in> set (fe_all (fst p'))" "idempotency_key (ev_metadata x) = Some k"
    using k by (auto simp: existing_event_def find_by_idempotency_key_def fe_store_laws dest: find_SomeD)
  with x show "\<exists>x \<in> set (fe_all (fst p')). idempotency_key (ev_metadata x) = Some k
      \<and> ingest rt (fe_store cs) e p' = (Ok \<lparr>ir_event_id = event_id_to_string (rt_uuid rt) (ev_id x),
           ir_handle = \<lparr>hr_submitted = [], hr_failed = []\<rparr>, ir_deduplicated = True\<rparr>, p')"
    by (auto simp: ingest_def)
qed

definition keyed_event :: "string \<Rightarrow> 128 word \<Rightarrow> event_envelope" where
  "keyed_event k n = demo_event\<lparr>ev_id := EventId n, ev_metadata := default_metadata\<lparr>idempotency_key := Some k\<rparr>\<rparr>"

lemma keyed_event_simps [simp]:
  "idempotency_key (ev_metadata (keyed_event k n)) = Some k" "ev_id (keyed_event k n) = EventId n"
  by (simp_all add: keyed_event_def)

text \<open>Two events with one key on an empty store: the first is stored, the second is a duplicate of it.\<close>

theorem ingest_keeps_keys_unique_witness:
  "\<exists>p'. snd (ingest (demo_runtime [demo_trigger ''a'' ''lane''] (im_queue (\<lambda>_. Ok []))) (fe_store blank_codecs)
          (keyed_event ''k'' 1) (blank_store [] [], rt_new (0, []) [])) = p'
     \<and> fe_all (fst p') = [keyed_event ''k'' 1] \<and> keys_unique (fe_all (fst p'))
     \<and> snd (ingest (demo_runtime [demo_trigger ''a'' ''lane''] (im_queue (\<lambda>_. Ok []))) (fe_store blank_codecs)
          (keyed_event ''k'' 2) p') = p'"
proof -
  let ?rt = "demo_runtime [demo_trigger ''a'' ''lane''] (im_queue (\<lambda>_. Ok []))"
  let ?p = "(blank_store [] [], rt_new (0, []) [])
    :: (file_event_store, nat \<times> (string \<times> string) list, in_memory_queue) pipeline"
  obtain res p' where run: "ingest ?rt (fe_store blank_codecs) (keyed_event ''k'' 1) ?p = (res, p')"
    by (cases "ingest ?rt (fe_store blank_codecs) (keyed_event ''k'' 1) ?p") blast
  have new: "existing_event (fe_store blank_codecs) (keyed_event ''k'' 1) (fst ?p) = None"
    by (simp add: existing_event_def find_by_idempotency_key_def fe_store_laws blank_store_def fe_all_def jsonl_all_def)
  obtain st where "fe_append blank_codecs (keyed_event ''k'' 1) (fst ?p) = (Ok (), st)"
    by (simp add: fe_append_def on_inner_def jsonl_append_def blank_codecs_def blank_store_def write_all_def
        sync_file_def attempt_def empty_fs_def)
  with run new have "res \<noteq> Err (Storage io) \<or> fe_all (fst p') \<noteq> []" for io
    by (auto simp: ingest_def on_store_def fe_store_laws dest!: fe_append_memory
        simp: and_then_def on_runtime_def split: prod.splits result.splits dest: fe_mark_delivered_memory)
  with fe.ingest_new [OF new run] have all: "fe_all (fst p') = [keyed_event ''k'' 1]"
    by (auto simp: fe_store_laws blank_store_def fe_all_def jsonl_all_def)
  have unique: "keys_unique (fe_all (fst ?p))" by (simp add: keys_unique_def blank_store_def fe_all_def jsonl_all_def)
  note seq = pipeline_run.ingested [OF pipeline_run.start run]
  from ingest_keeps_keys_unique [OF seq unique] all
  have "keys_unique (fe_all (fst p'))" "snd (ingest ?rt (fe_store blank_codecs) (keyed_event ''k'' 2) p') = p'"
    by fastforce+
  with run all show ?thesis by simp
qed

text \<open>A backend that keeps the default methods of the trait does not track delivery: recovery handles every retained
  event, and the next restart handles all of them again.\<close>

lemma recover_loop_untracked:
  assumes "\<And>i s. es_mark_delivered es i s = (Ok (), s)" and "recover_loop rt es pending n p = (Ok k, p')"
  shows "k = n + length pending \<and> fst p' = fst p"
  using assms(2)
proof (induction pending arbitrary: n p)
  case (Cons e pending)
  then obtain p1 where "fst p1 = fst p" "recover_loop rt es pending (n + 1) p1 = (Ok k, p')"
    by (auto simp: and_then_eq_Ok on_store_def assms(1) on_runtime_def split: prod.splits)
  with Cons.IH show ?case by fastforce
qed simp

lemma recover_untracked_again:
  assumes "recover_undelivered rt (provided_event_store_ops app get all prune) p = (Ok n, p')"
  shows "n = length (all (fst p)) \<and> es_undelivered (provided_event_store_ops app get all prune) (fst p') = all (fst p)"
  using recover_loop_untracked [OF _ assms [unfolded recover_undelivered_def]]
  by (simp add: provided_event_store_ops_def)

text \<open>Recovery after a restart. When \<open>recover_undelivered\<close> succeeds it has handled every undelivered
  event and none is left undelivered; when it fails, exactly the events handled before the failing one are
  marked, and the rest stay undelivered for the next attempt. No event leaves the store.\<close>

theorem recover_undelivered_delivers:
  assumes "recover_undelivered rt (fe_store cs) p = (res, p')"
  shows "fe_all (fst p') = fe_all (fst p)
     \<and> (case res of
          Ok n \<Rightarrow> n = length (fe_undelivered (fst p)) \<and> fe_undelivered (fst p') = []
        | Err _ \<Rightarrow> \<exists>done rest. fe_undelivered (fst p) = done @ rest \<and> rest \<noteq> []
            \<and> fe_undelivered (fst p') = filter (\<lambda>e. ev_id e \<notin> ev_id ` set done) (fe_undelivered (fst p)))"
  using fe.recover_undelivered_state [OF assms] unfolding fe_store_laws fe_undelivered_def .

theorem recover_undelivered_delivers_witness:
  "fe_all (fst (snd (recover_undelivered (demo_runtime [demo_trigger ''a'' ''lane''] (im_queue (\<lambda>_. Ok [])))
      (fe_store blank_codecs) (blank_store [demo_event] [], rt_new (0, []) [])))) = [demo_event]"
  using recover_undelivered_delivers [OF surjective_pairing,
      of "demo_runtime [demo_trigger ''a'' ''lane''] (im_queue (\<lambda>_. Ok []))" blank_codecs
         "(blank_store [demo_event] [], rt_new (0, []) [])"]
  by (simp add: blank_store_def fe_all_def jsonl_all_def)

end
