(* ===== verification/Http.thy ===== *)
theory Http
  imports Ingest
begin

text \<open>
  The HTTP surface of \<open>crates/triggerlane-http/src/lib.rs\<close>: probes, webhook signatures, bearer tokens, the
  \<open>POST /events\<close> route with its synchronous and asynchronous handlers, the operator read and replay
  routes, the mapping of errors to statuses, and the normalisation of the external sources.

  Requests come routed and with their path and query parameters extracted, as \<open>axum\<close> hands them to the
  handlers. What the handlers use of other crates is a parameter, a \<open>web_api\<close>: \<open>hex::decode\<close>, the HMAC,
  \<open>HeaderValue::to_str\<close>, and the \<open>serde_json\<close> readers of an incoming event and of a source name. A header
  map gives the first value of a (lower-case) name.
\<close>

subsection \<open>Constants and parameters\<close>

definition MAX_EVENT_BODY_BYTES :: nat where
  "MAX_EVENT_BODY_BYTES = 2 * 1024 * 1024"

definition DEFAULT_EVENT_LIST_LIMIT :: nat where
  "DEFAULT_EVENT_LIST_LIMIT = 1000"

definition GITHUB_SIGNATURE_HEADER :: string where
  "GITHUB_SIGNATURE_HEADER = ''x-hub-signature-256''"

type_synonym header_map = "string \<rightharpoonup> bytes"

record incoming_event =
  in_event_type :: string
  in_payload :: bytes
  in_metadata :: event_metadata

record web_api =
  hex_decode :: "string \<Rightarrow> bytes option"
  hmac_sha256 :: "bytes \<Rightarrow> bytes \<Rightarrow> bytes option"
  header_to_str :: "bytes \<Rightarrow> string option"
  incoming_from_slice :: "bytes \<Rightarrow> (incoming_event, string) result"
  source_from_value :: "string \<Rightarrow> source option"

subsection \<open>Probes\<close>

type_synonym readiness = bool

definition readiness_ready :: readiness where
  "readiness_ready = True"

definition set_ready :: "bool \<Rightarrow> readiness \<Rightarrow> readiness" where
  "set_ready ready r = ready"

definition is_ready :: "readiness \<Rightarrow> bool" where
  "is_ready r = r"

definition healthz_route :: nat where
  "healthz_route = 200"

definition readyz_route :: "readiness \<Rightarrow> nat" where
  "readyz_route r = (if is_ready r then 200 else 503)"

text \<open>The metrics exporter is a closure; the route adds the content type.\<close>

definition metrics_route :: "(unit \<Rightarrow> string) \<Rightarrow> (string \<times> string) list \<times> string" where
  "metrics_route render_metrics = ([(''content-type'', ''text/plain; version=0.0.4'')], render_metrics ())"

subsection \<open>Authentication\<close>

record webhook_verifier =
  wv_secret :: bytes
  wv_header :: string

definition verifier_new :: "bytes \<Rightarrow> string \<Rightarrow> webhook_verifier" where
  "verifier_new secret header = \<lparr>wv_secret = secret, wv_header = header\<rparr>"

definition verifier_github :: "bytes \<Rightarrow> webhook_verifier" where
  "verifier_github secret = verifier_new secret GITHUB_SIGNATURE_HEADER"

definition verify :: "web_api \<Rightarrow> webhook_verifier \<Rightarrow> header_map \<Rightarrow> bytes \<Rightarrow> bool" where
  "verify web v headers body =
     (case Option.bind (headers (wv_header v)) (header_to_str web) of
        None \<Rightarrow> False
      | Some val \<Rightarrow>
          let hex_signature = (case strip_prefix ''sha256='' val of Some h \<Rightarrow> h | None \<Rightarrow> val)
          in case hex_decode web hex_signature of
               None \<Rightarrow> False
             | Some expected \<Rightarrow>
                 (case hmac_sha256 web (wv_secret v) body of
                    None \<Rightarrow> False
                  | Some mac \<Rightarrow> mac = expected))"

definition byte_word :: "char \<Rightarrow> 8 word" where
  "byte_word c = word_of_nat (of_char c)"

definition constant_time_eq :: "bytes \<Rightarrow> bytes \<Rightarrow> bool" where
  "constant_time_eq a b =
     (if length a \<noteq> length b then False
      else foldl (\<lambda>acc (x, y). or acc (xor (byte_word x) (byte_word y))) 0 (zip a b) = 0)"

definition authorized :: "web_api \<Rightarrow> bytes \<Rightarrow> header_map \<Rightarrow> bool" where
  "authorized web token headers =
     (case Option.bind (Option.bind (headers ''authorization'') (header_to_str web))
             (strip_prefix ''Bearer '') of
        None \<Rightarrow> False
      | Some presented \<Rightarrow> constant_time_eq presented token)"

subsection \<open>Errors and responses\<close>

datatype handler_error = HandlerError string

datatype http_route_error =
  Unauthorized | BadRequest string | HttpNotFound string | Handler handler_error

definition runtime_error_to_string :: "runtime_error \<Rightarrow> string" where
  "runtime_error_to_string e = (case e of
     Binding b \<Rightarrow> binding_error_to_string b
   | Storage io \<Rightarrow> ''durable storage error: '' @ io_msg io)"

definition replay_error_to_string :: "replay_error \<Rightarrow> string" where
  "replay_error_to_string e = (case e of
     EventNotFound i \<Rightarrow> ''event '' @ i @ '' was not found for replay''
   | Runtime r \<Rightarrow> runtime_error_to_string r)"

definition http_error_to_string :: "http_route_error \<Rightarrow> string" where
  "http_error_to_string e = (case e of
     Unauthorized \<Rightarrow> ''unauthorized: webhook signature verification failed''
   | BadRequest m \<Rightarrow> ''invalid event json: '' @ m
   | HttpNotFound m \<Rightarrow> ''not found: '' @ m
   | Handler (HandlerError m) \<Rightarrow> ''event handler failed: '' @ m)"

definition http_error_status :: "http_route_error \<Rightarrow> nat" where
  "http_error_status e = (case e of
     Unauthorized \<Rightarrow> 401 | BadRequest _ \<Rightarrow> 400 | HttpNotFound _ \<Rightarrow> 404 | Handler _ \<Rightarrow> 500)"

record event_response =
  resp_event_id :: string
  resp_submitted :: "string list"
  resp_failure_count :: nat
  resp_accepted :: bool

record replay_range_response =
  rrr_matched :: nat
  rrr_dry_run :: bool

datatype body =
    EventBody event_response
  | EventsBody "event_envelope list"
  | EnvelopeBody event_envelope
  | RangeBody replay_range_response
  | DeadTriggersBody "dead_trigger_record list"
  | ErrorBody string
  | RejectionBody

type_synonym response = "nat \<times> body"

definition error_response :: "http_route_error \<Rightarrow> response" where
  "error_response e = (http_error_status e, ErrorBody (http_error_to_string e))"

subsection \<open>Event handlers\<close>

record event_handling_report =
  eh_submitted :: "string list"
  eh_failure_count :: nat
  eh_accepted :: bool

definition handling_report_new :: "string list \<Rightarrow> nat \<Rightarrow> event_handling_report" where
  "handling_report_new sub n = \<lparr>eh_submitted = sub, eh_failure_count = n, eh_accepted = False\<rparr>"

definition handling_report_accepted :: event_handling_report where
  "handling_report_accepted = \<lparr>eh_submitted = [], eh_failure_count = 0, eh_accepted = True\<rparr>"

text \<open>The dispatch channel: the events sent and not yet received, and whether the receiver is alive.
  \<open>send\<close> waits while the channel is full, so it fails only when the receiver is gone.\<close>

record channel =
  ch_queue :: "event_envelope list"
  ch_open :: bool

definition send :: "event_envelope \<Rightarrow> channel \<Rightarrow> bool \<times> channel" where
  "send event ch = (if ch_open ch then (True, ch\<lparr>ch_queue := ch_queue ch @ [event]\<rparr>) else (False, ch))"

datatype event_handler = IngestEventHandler | AcceptEventHandler

type_synonym ('s, 'b, 'q) server = "('s, 'b, 'q) pipeline \<times> channel"

definition handle_event ::
  "('b, 'l, 'e, 'q) trigger_runtime \<Rightarrow> 's event_store_ops \<Rightarrow> event_handler \<Rightarrow> event_envelope
     \<Rightarrow> ('s, 'b, 'q) server \<Rightarrow> (event_handling_report, handler_error) result \<times> ('s, 'b, 'q) server" where
  "handle_event rt es h event sv = (case sv of (p, ch) \<Rightarrow>
     (case h of
        IngestEventHandler \<Rightarrow>
          (case ingest rt es event p of
             (Err e, p) \<Rightarrow> (Err (HandlerError (runtime_error_to_string e)), (p, ch))
           | (Ok report, p) \<Rightarrow>
               (Ok (handling_report_new (hr_submitted (ir_handle report)) (length (hr_failed (ir_handle report)))),
                (p, ch)))
      | AcceptEventHandler \<Rightarrow>
          (case accept (rt_uuid rt) es event p of
             (Err e, p) \<Rightarrow> (Err (HandlerError (runtime_error_to_string e)), (p, ch))
           | (Ok report, p) \<Rightarrow>
               if ar_deduplicated report then (Ok handling_report_accepted, (p, ch))
               else (case send event ch of
                       (True, ch) \<Rightarrow> (Ok handling_report_accepted, (p, ch))
                     | (False, ch) \<Rightarrow> (Err (HandlerError ''dispatch channel closed''), (p, ch))))))"

subsection \<open>POST /events\<close>

definition post_events :: "event_id \<Rightarrow> timestamp \<Rightarrow> incoming_event \<Rightarrow> event_envelope" where
  "post_events new_id now input =
     with_metadata (envelope_new new_id now Http (in_event_type input) (in_payload input)) (in_metadata input)"

definition post_events_route ::
  "web_api \<Rightarrow> ('b, 'l, 'e, 'q) trigger_runtime \<Rightarrow> 's event_store_ops \<Rightarrow> event_handler
     \<Rightarrow> webhook_verifier option \<Rightarrow> event_id \<Rightarrow> timestamp \<Rightarrow> header_map \<Rightarrow> bytes \<Rightarrow> ('s, 'b, 'q) server
     \<Rightarrow> (nat \<times> event_response, http_route_error) result \<times> ('s, 'b, 'q) server" where
  "post_events_route web rt es h verifier new_id now headers bdy sv =
     (if (case verifier of Some v \<Rightarrow> \<not> verify web v headers bdy | None \<Rightarrow> False)
      then (Err Unauthorized, sv)
      else case incoming_from_slice web bdy of
        Err e \<Rightarrow> (Err (BadRequest e), sv)
      | Ok input \<Rightarrow>
          let event = post_events new_id now input;
              event_id = event_id_to_string (rt_uuid rt) (ev_id event)
          in case handle_event rt es h event sv of
               (Err e, sv) \<Rightarrow> (Err (Handler e), sv)
             | (Ok report, sv) \<Rightarrow>
                 (Ok (if eh_accepted report then 202 else 200,
                      \<lparr>resp_event_id = event_id, resp_submitted = eh_submitted report,
                       resp_failure_count = eh_failure_count report,
                       resp_accepted = eh_accepted report\<rparr>), sv))"

text \<open>The events router: the body limit is checked while the body is read, before the handler runs; the text of
  that rejection is \<open>axum\<close>'s.\<close>

definition events_router ::
  "web_api \<Rightarrow> ('b, 'l, 'e, 'q) trigger_runtime \<Rightarrow> 's event_store_ops \<Rightarrow> event_handler
     \<Rightarrow> webhook_verifier option \<Rightarrow> event_id \<Rightarrow> timestamp \<Rightarrow> header_map \<Rightarrow> bytes \<Rightarrow> ('s, 'b, 'q) server
     \<Rightarrow> response \<times> ('s, 'b, 'q) server" where
  "events_router web rt es h verifier new_id now headers bdy sv =
     (if length bdy > MAX_EVENT_BODY_BYTES then ((413, RejectionBody), sv)
      else case post_events_route web rt es h verifier new_id now headers bdy sv of
             (Ok (status, r), sv) \<Rightarrow> ((status, EventBody r), sv)
           | (Err e, sv) \<Rightarrow> (error_response e, sv))"

subsection \<open>The read router\<close>

definition parse_event_id :: "uuid_api \<Rightarrow> string \<Rightarrow> (event_id, http_route_error) result" where
  "parse_event_id u raw = (case event_id_from_str u raw of
     Ok i \<Rightarrow> Ok i | Err e \<Rightarrow> Err (BadRequest (''invalid event id: '' @ e)))"

definition parse_source :: "web_api \<Rightarrow> string \<Rightarrow> (source, http_route_error) result" where
  "parse_source web raw = (case source_from_value web raw of
     Some s \<Rightarrow> Ok s | None \<Rightarrow> Err (BadRequest (''unknown source '' @ debug_str raw)))"

definition make_replay_filter ::
  "web_api \<Rightarrow> string option \<Rightarrow> string option \<Rightarrow> (replay_filter, http_route_error) result" where
  "make_replay_filter web et src = (case src of
     None \<Rightarrow> Ok \<lparr>rf_event_type = et, rf_source = None\<rparr>
   | Some raw \<Rightarrow> (case parse_source web raw of
        Ok s \<Rightarrow> Ok \<lparr>rf_event_type = et, rf_source = Some s\<rparr> | Err e \<Rightarrow> Err e))"

definition replay_to_http :: "replay_error \<Rightarrow> http_route_error" where
  "replay_to_http e = (case e of
     EventNotFound message \<Rightarrow> HttpNotFound message
   | other \<Rightarrow> Handler (HandlerError (replay_error_to_string other)))"

definition list_events_route :: "'s event_store_ops \<Rightarrow> nat option \<Rightarrow> nat option \<Rightarrow> 's \<Rightarrow> event_envelope list" where
  "list_events_route es limit offset store =
     take (case limit of Some n \<Rightarrow> n | None \<Rightarrow> DEFAULT_EVENT_LIST_LIMIT)
       (drop (case offset of Some n \<Rightarrow> n | None \<Rightarrow> 0) (es_all es store))"

definition get_event_route ::
  "uuid_api \<Rightarrow> 's event_store_ops \<Rightarrow> string \<Rightarrow> 's \<Rightarrow> (event_envelope, http_route_error) result" where
  "get_event_route u es raw store = (case parse_event_id u raw of
     Err e \<Rightarrow> Err e
   | Ok i \<Rightarrow> (case es_get es i store of
        Some event \<Rightarrow> Ok event
      | None \<Rightarrow> Err (HttpNotFound (''event '' @ event_id_to_string u i @ '' not found''))))"

definition replay_by_id_route ::
  "('b, 'l, 'e, 'q) trigger_runtime \<Rightarrow> 's event_store_ops \<Rightarrow> string \<Rightarrow> ('s, 'b, 'q) pipeline
     \<Rightarrow> (event_response, http_route_error) result \<times> ('s, 'b, 'q) pipeline" where
  "replay_by_id_route rt es raw p = (case parse_event_id (rt_uuid rt) raw of
     Err e \<Rightarrow> (Err e, p)
   | Ok i \<Rightarrow> (case replay_by_id rt es (fst p) i (snd p) of
        (Err e, s) \<Rightarrow> (Err (replay_to_http e), (fst p, s))
      | (Ok report, s) \<Rightarrow>
          (Ok \<lparr>resp_event_id = event_id_to_string (rt_uuid rt) i, resp_submitted = hr_submitted report,
               resp_failure_count = length (hr_failed report), resp_accepted = False\<rparr>, (fst p, s))))"

record replay_range_query =
  rq_start :: timestamp
  rq_end :: timestamp
  rq_event_type :: "string option"
  rq_source :: "string option"
  rq_dry_run :: bool

definition replay_range_route ::
  "web_api \<Rightarrow> ('b, 'l, 'e, 'q) trigger_runtime \<Rightarrow> 's event_store_ops \<Rightarrow> replay_range_query
     \<Rightarrow> ('s, 'b, 'q) pipeline \<Rightarrow> (replay_range_response, http_route_error) result \<times> ('s, 'b, 'q) pipeline" where
  "replay_range_route web rt es q p = (case make_replay_filter web (rq_event_type q) (rq_source q) of
     Err e \<Rightarrow> (Err e, p)
   | Ok f \<Rightarrow>
       if rq_dry_run q
       then (Ok \<lparr>rrr_matched = length (preview_range es (fst p) (rq_start q) (rq_end q) f), rrr_dry_run = True\<rparr>, p)
       else (case replay_range rt es (fst p) (rq_start q) (rq_end q) f (snd p) of
               (Err e, s) \<Rightarrow> (Err (replay_to_http e), (fst p, s))
             | (Ok reports, s) \<Rightarrow> (Ok \<lparr>rrr_matched = length reports, rrr_dry_run = False\<rparr>, (fst p, s))))"

definition list_dead_triggers_route ::
  "('b, 'l, 'e, 'q) trigger_runtime \<Rightarrow> ('b, 'q) rt_state \<Rightarrow> dead_trigger_record list" where
  "list_dead_triggers_route rt s = dq_all (rt_dead_triggers rt) (st_queue s)"

datatype read_request =
    ListEvents "nat option" "nat option"
  | GetEvent string
  | ReplayById string
  | ReplayRange replay_range_query
  | ListDeadTriggers

definition respond :: "('a \<Rightarrow> body) \<Rightarrow> ('a, http_route_error) result \<Rightarrow> response" where
  "respond f r = (case r of Ok a \<Rightarrow> (200, f a) | Err e \<Rightarrow> error_response e)"

definition read_routes ::
  "web_api \<Rightarrow> ('b, 'l, 'e, 'q) trigger_runtime \<Rightarrow> 's event_store_ops \<Rightarrow> read_request \<Rightarrow> ('s, 'b, 'q) pipeline
     \<Rightarrow> response \<times> ('s, 'b, 'q) pipeline" where
  "read_routes web rt es req p = (case req of
     ListEvents limit offset \<Rightarrow> ((200, EventsBody (list_events_route es limit offset (fst p))), p)
   | GetEvent raw \<Rightarrow> (respond EnvelopeBody (get_event_route (rt_uuid rt) es raw (fst p)), p)
   | ReplayById raw \<Rightarrow> apfst (respond EventBody) (replay_by_id_route rt es raw p)
   | ReplayRange q \<Rightarrow> apfst (respond RangeBody) (replay_range_route web rt es q p)
   | ListDeadTriggers \<Rightarrow> ((200, DeadTriggersBody (list_dead_triggers_route rt (snd p))), p))"

definition read_router ::
  "web_api \<Rightarrow> ('b, 'l, 'e, 'q) trigger_runtime \<Rightarrow> 's event_store_ops \<Rightarrow> bytes option \<Rightarrow> header_map
     \<Rightarrow> read_request \<Rightarrow> ('s, 'b, 'q) pipeline \<Rightarrow> response \<times> ('s, 'b, 'q) pipeline" where
  "read_router web rt es auth headers req p =
     (case auth of
        Some token \<Rightarrow>
          if authorized web token headers then read_routes web rt es req p
          else (error_response Unauthorized, p)
      | None \<Rightarrow> read_routes web rt es req p)"

subsection \<open>External sources\<close>

datatype source_error = UnsupportedGitHubEvent string

definition github_webhook ::
  "event_id \<Rightarrow> timestamp \<Rightarrow> string \<Rightarrow> string option \<Rightarrow> bytes \<Rightarrow> (event_envelope, source_error) result" where
  "github_webhook new_id now event_name action payload =
     (if event_name = ''issues'' \<and> (action = Some ''opened'' \<or> action = Some ''created'')
      then Ok (envelope_new new_id now GitHub EVENT_GITHUB_ISSUE_CREATED payload)
      else if event_name = ''pull_request'' \<and> (action = Some ''opened'' \<or> action = Some ''created'')
      then Ok (envelope_new new_id now GitHub EVENT_GITHUB_PR_CREATED payload)
      else Err (UnsupportedGitHubEvent event_name))"

definition discord_message_created :: "event_id \<Rightarrow> timestamp \<Rightarrow> bytes \<Rightarrow> event_envelope" where
  "discord_message_created new_id now payload =
     envelope_new new_id now Discord EVENT_DISCORD_MESSAGE_CREATED payload"

definition slack_event :: "event_id \<Rightarrow> timestamp \<Rightarrow> bytes \<Rightarrow> string \<Rightarrow> event_envelope" where
  "slack_event new_id now payload et = envelope_new new_id now Slack et payload"

subsection \<open>A concrete instance of the parameters\<close>

text \<open>For concrete runs: hex is the identity, the MAC is the secret before the body, and a body is read as an
  event of that type with the given idempotency key.\<close>

definition demo_web :: "string option \<Rightarrow> web_api" where
  "demo_web key =
     \<lparr>hex_decode = Some, hmac_sha256 = (\<lambda>secret bdy. Some (secret @ bdy)), header_to_str = Some,
      incoming_from_slice = (\<lambda>b. if b = [] then Err ''EOF'' else
        Ok \<lparr>in_event_type = b, in_payload = [], in_metadata = default_metadata\<lparr>idempotency_key := key\<rparr>\<rparr>),
      source_from_value = (\<lambda>s. if s = ''GitHub'' then Some GitHub else None)\<rparr>"

end
