(* ===== verification/Http_Properties.thy ===== *)
theory Http_Properties
  imports Http
begin

text \<open>
  What the HTTP surface guarantees: the constant-time comparison is equality, both guards reject before
  anything changes, which statuses a post can have and what each of them says about the store, paging and
  dry runs agree with what they stand for.
\<close>

subsection \<open>Guards\<close>

lemma byte_word_inj: "byte_word x = byte_word y \<longleftrightarrow> x = y"
proof
  assume "byte_word x = byte_word y"
  then have "unat (byte_word x) = unat (byte_word y)" by simp
  moreover have "of_char x < (256 :: nat)" "of_char y < (256 :: nat)" by simp_all
  ultimately have "(of_char x :: nat) = of_char y" by (simp add: byte_word_def unat_of_nat)
  then show "x = y" by simp
qed simp

lemma xor_eq_0: "xor a b = 0 \<longleftrightarrow> a = (b :: 'a::len word)"
  by (metis xor.assoc xor.right_neutral xor_self_eq)

lemma or_eq_0: "or a b = 0 \<longleftrightarrow> a = 0 \<and> b = (0 :: 'a::len word)"
  by (auto simp: bit_eq_iff bit_simps)

lemma foldl_or_eq_0:
  "foldl (\<lambda>acc (x, y). or acc (xor (byte_word x) (byte_word y))) a ps = 0
     \<longleftrightarrow> a = 0 \<and> (\<forall>(x, y) \<in> set ps. x = y)"
  by (induction ps arbitrary: a) (auto simp: or_eq_0 xor_eq_0 byte_word_inj)

lemma constant_time_eq_equal: "constant_time_eq a b = (a = b)"
proof (cases "length a = length b")
  case True
  then have "(\<forall>(x, y) \<in> set (zip a b). x = y) \<longleftrightarrow> a = b"
    by (induction a b rule: list_induct2) auto
  with True show ?thesis by (simp add: constant_time_eq_def foldl_or_eq_0)
qed (auto simp: constant_time_eq_def)

text \<open>The constant-time comparison of tokens, a fold of exclusive and inclusive ors over all the bytes,
  is equality of the byte strings.\<close>

theorem constant_time_eq_iff: "constant_time_eq a b \<longleftrightarrow> a = b"
  by (rule constant_time_eq_equal)

lemma strip_prefix_Some: "strip_prefix p s = Some r \<longleftrightarrow> s = p @ r"
  by (auto simp: strip_prefix_def prefix_def)

text \<open>The operator routes are closed without the token. With a token configured, a request is served
  exactly as on an open router when its authorization header is \<open>Bearer\<close> and the token, and otherwise it is
  answered 401 with no effect on the store, the broker or the queue.\<close>

theorem read_router_guarded:
  "read_router web rt es (Some token) headers req p =
     (if \<exists>v. headers ''authorization'' = Some v \<and> header_to_str web v = Some (''Bearer '' @ token)
      then read_router web rt es None headers req p
      else ((401, ErrorBody (http_error_to_string Unauthorized)), p))"
proof -
  have "authorized web token headers \<longleftrightarrow>
      Option.bind (Option.bind (headers ''authorization'') (header_to_str web)) (strip_prefix ''Bearer '') = Some token"
    unfolding authorized_def constant_time_eq_equal by (auto split: option.splits)
  then have "authorized web token headers \<longleftrightarrow>
      (\<exists>v. headers ''authorization'' = Some v \<and> header_to_str web v = Some (''Bearer '' @ token))"
    unfolding Option.bind_eq_Some_conv strip_prefix_Some by blast
  then show ?thesis by (auto simp: read_router_def error_response_def http_error_status_def)
qed

subsection \<open>Posting an event\<close>

lemma post_events_route_cases:
  assumes "post_events_route web rt es h verifier i now headers bdy sv = (r, sv')"
  obtains (unauthorized) v where "verifier = Some v" "\<not> verify web v headers bdy" "r = Err Unauthorized" "sv' = sv"
  | (bad) x where "incoming_from_slice web bdy = Err x" "r = Err (BadRequest x)" "sv' = sv"
  | (failed) input x where "incoming_from_slice web bdy = Ok input" "r = Err (Handler x)"
      "handle_event rt es h (post_events i now input) sv = (Err x, sv')"
  | (ok) input rep where "incoming_from_slice web bdy = Ok input"
      "handle_event rt es h (post_events i now input) sv = (Ok rep, sv')"
      "r = Ok (if eh_accepted rep then 202 else 200,
          \<lparr>resp_event_id = event_id_to_string (rt_uuid rt) i, resp_submitted = eh_submitted rep,
           resp_failure_count = eh_failure_count rep, resp_accepted = eh_accepted rep\<rparr>)"
proof (cases "\<exists>v. verifier = Some v \<and> \<not> verify web v headers bdy")
  case True
  with assms unauthorized show thesis by (auto simp: post_events_route_def)
next
  case auth: False
  have id: "ev_id (post_events i now input) = i" for input
    by (simp add: post_events_def with_metadata_def envelope_new_def)
  from auth have guard: "(case verifier of Some v \<Rightarrow> \<not> verify web v headers bdy | None \<Rightarrow> False) = False"
    by (auto split: option.splits)
  note run = assms [unfolded post_events_route_def guard if_False Let_def id]
  show thesis
  proof (cases "incoming_from_slice web bdy")
    case (Err x)
    with run bad show thesis by simp
  next
    case (Ok input)
    obtain hr sv1 where h: "handle_event rt es h (post_events i now input) sv = (hr, sv1)"
      by (cases "handle_event rt es h (post_events i now input) sv") blast
    show thesis
    proof (cases hr)
      case (Err x)
      with run Ok h show thesis by (intro failed) auto
    next
      case hr: (Ok rep)
      with run Ok h show thesis by (intro ok) auto
    qed
  qed
qed

text \<open>C34: the statuses of \<open>POST /events\<close>. A post is answered 200, 202, 400, 401, 413 or 500; the three client
  errors leave the store, the broker, the queue and the channel exactly as they were; a body over the limit
  is never looked at; and with a verifier a body without its signature is never handled.\<close>

theorem events_router_statuses:
  assumes "events_router web rt es h verifier i now headers bdy sv = ((status, b), sv')"
  shows "status \<in> {200, 202, 400, 401, 413, 500}
     \<and> (status \<in> {400, 401, 413} \<longrightarrow> sv' = sv)
     \<and> (MAX_EVENT_BODY_BYTES < length bdy \<longrightarrow> status = 413)
     \<and> (\<forall>v. verifier = Some v \<and> \<not> verify web v headers bdy \<longrightarrow> status \<in> {401, 413})
     \<and> (status \<in> {200, 202} \<longrightarrow> (\<exists>r. b = EventBody r \<and> resp_event_id r = event_id_to_string (rt_uuid rt) i))"
proof (cases "MAX_EVENT_BODY_BYTES < length bdy")
  case True
  with assms show ?thesis by (simp add: events_router_def)
next
  case False
  obtain r sv1 where r: "post_events_route web rt es h verifier i now headers bdy sv = (r, sv1)"
    by (cases "post_events_route web rt es h verifier i now headers bdy sv") blast
  have un: "r = Err Unauthorized" if "verifier = Some v" "\<not> verify web v headers bdy" for v
    using r that by (simp add: post_events_route_def)
  from r show ?thesis
    by (cases rule: post_events_route_cases)
       (use False assms r un in \<open>auto simp: events_router_def error_response_def http_error_status_def
         split: if_splits\<close>)
qed

theorem events_router_statuses_witness:
  "\<exists>b. fst (events_router (demo_web None) (demo_runtime [] (im_queue (\<lambda>_. Ok []))) (im_store (\<lambda>_. Ok []))
        IngestEventHandler (Some (verifier_github ''s3cret'')) (EventId 1) 0 Map.empty ''event.demo''
        ((im_new, rt_new (0, []) []), \<lparr>ch_queue = [], ch_open = True\<rparr>)) = (401, b)"
proof -
  let ?sv = "((im_new, rt_new (0, []) []), \<lparr>ch_queue = [], ch_open = True\<rparr>)
    :: (in_memory_event_store, nat \<times> (string \<times> string) list, in_memory_queue) server"
  obtain status b sv' where run: "events_router (demo_web None) (demo_runtime [] (im_queue (\<lambda>_. Ok [])))
        (im_store (\<lambda>_. Ok [])) IngestEventHandler (Some (verifier_github ''s3cret'')) (EventId 1) 0 Map.empty
        ''event.demo'' ?sv = ((status, b), sv')"
    by (metis surj_pair)
  have "\<not> verify (demo_web None) (verifier_github ''s3cret'') Map.empty ''event.demo''" by (simp add: verify_def)
  with events_router_statuses [OF run] have "status \<in> {401, 413}" by blast
  moreover have "status \<noteq> 413"
    using run by (auto simp: events_router_def MAX_EVENT_BODY_BYTES_def error_response_def http_error_status_def
        post_events_route_def verify_def split: prod.splits result.splits)
  ultimately show ?thesis using run by auto
qed

lemma sync_handled:
  assumes "handle_event rt (fe_store cs) IngestEventHandler e (p, ch) = (Ok rep, (p', ch'))"
  shows "\<not> eh_accepted rep \<and> ch' = ch
     \<and> (existing_event (fe_store cs) e (fst p) \<noteq> None \<and> p' = p
        \<or> existing_event (fe_store cs) e (fst p) = None \<and> fe_all (fst p') = fe_all (fst p) @ [e]
            \<and> fe_delivered_set (fst p') = insert (ev_id e) (fe_delivered_set (fst p))
            \<and> is_ok (fst (handle rt e (snd p))))"
proof -
  from assms obtain rp where ing: "ingest rt (fe_store cs) e p = (Ok rp, p')" "ch' = ch" "\<not> eh_accepted rep"
    by (auto simp: handle_event_def handling_report_new_def split: prod.splits result.splits)
  show ?thesis
  proof (cases "existing_event (fe_store cs) e (fst p)")
    case None
    from fe.ingest_new [OF None ing(1)] None ing(2,3) show ?thesis by (auto simp: fe_store_laws)
  next
    case (Some x)
    with ing show ?thesis by (auto simp: ingest_def)
  qed
qed

lemma async_handled:
  assumes "handle_event rt (fe_store cs) AcceptEventHandler e (p, ch) = (Ok rep, (p', ch'))"
  shows "eh_accepted rep
     \<and> (existing_event (fe_store cs) e (fst p) \<noteq> None \<and> p' = p \<and> ch' = ch
        \<or> existing_event (fe_store cs) e (fst p) = None \<and> fe_all (fst p') = fe_all (fst p) @ [e]
            \<and> fe_delivered_set (fst p') = fe_delivered_set (fst p) \<and> snd p' = snd p
            \<and> ch_queue ch' = ch_queue ch @ [e])"
proof (cases "existing_event (fe_store cs) e (fst p)")
  case (Some x)
  with assms show ?thesis by (auto simp: handle_event_def accept_def handling_report_accepted_def)
next
  case None
  obtain r2 p2 where a: "on_store (es_append (fe_store cs) e) p = (r2, p2)"
    by (cases "on_store (es_append (fe_store cs) e) p") blast
  then show ?thesis
  proof (cases rule: on_store_cases)
    case (ok u s2)
    have "accept (rt_uuid rt) (fe_store cs) e p =
        (Ok \<lparr>ar_event_id = event_id_to_string (rt_uuid rt) (ev_id e), ar_deduplicated = False\<rparr>, p2)"
      using None a ok by (simp add: accept_def)
    with assms have "ch_queue ch' = ch_queue ch @ [e]" "p' = p2" "eh_accepted rep"
      by (auto simp: handle_event_def send_def handling_report_accepted_def split: if_splits)
    with None ok fe.append_Ok [OF ok(1)] show ?thesis by (simp add: fe_store_laws)
  next
    case (err x s2)
    with a None assms show ?thesis by (simp add: handle_event_def accept_def)
  qed
qed

text \<open>C33: what a success status promises. On the synchronous path 200 means that the event is in the store and
  marked delivered, or that an event with its idempotency key was there already and nothing changed. On the
  asynchronous path 202 means that the event is in the store and waits in the dispatch channel, not yet
  delivered, or again that it was a duplicate and nothing changed.\<close>

theorem success_status_promises:
  assumes "events_router web rt (fe_store cs) h verifier i now headers bdy (p, ch) = ((status, b), (p', ch'))"
    and "status \<in> {200, 202}"
  shows "\<exists>input. incoming_from_slice web bdy = Ok input \<and>
     (let e = post_events i now input in
        (existing_event (fe_store cs) e (fst p) \<noteq> None \<and> p' = p \<and> ch' = ch)
        \<or> (existing_event (fe_store cs) e (fst p) = None \<and> fe_all (fst p') = fe_all (fst p) @ [e]
            \<and> (case h of
                 IngestEventHandler \<Rightarrow> status = 200 \<and> ch' = ch
                   \<and> fe_delivered_set (fst p') = insert i (fe_delivered_set (fst p))
                   \<and> is_ok (fst (handle rt e (snd p)))
               | AcceptEventHandler \<Rightarrow> status = 202 \<and> ch_queue ch' = ch_queue ch @ [e]
                   \<and> fe_delivered_set (fst p') = fe_delivered_set (fst p) \<and> snd p' = snd p)))"
proof -
  obtain r sv1 where r: "post_events_route web rt (fe_store cs) h verifier i now headers bdy (p, ch) = (r, sv1)"
    by (cases "post_events_route web rt (fe_store cs) h verifier i now headers bdy (p, ch)") blast
  from assms r obtain st ev where ok: "r = Ok (st, ev)" "sv1 = (p', ch')" "status = st"
    by (cases r) (auto simp: events_router_def error_response_def http_error_status_def
        split: if_splits http_route_error.splits)
  from r [unfolded ok] obtain input rep where inp: "incoming_from_slice web bdy = Ok input"
      and he: "handle_event rt (fe_store cs) h (post_events i now input) (p, ch) = (Ok rep, (p', ch'))"
      and st: "st = (if eh_accepted rep then 202 else 200)"
    by (cases rule: post_events_route_cases) auto
  have id: "ev_id (post_events i now input) = i"
    by (simp add: post_events_def with_metadata_def envelope_new_def)
  show ?thesis
  proof (cases h)
    case IngestEventHandler
    from sync_handled [OF he [unfolded this]] inp st ok(3) id IngestEventHandler show ?thesis by (auto simp: Let_def)
  next
    case AcceptEventHandler
    from async_handled [OF he [unfolded this]] inp st ok(3) AcceptEventHandler show ?thesis by (auto simp: Let_def)
  qed
qed

lemma demo_post_run:
  "\<exists>p' ch' b. events_router (demo_web None) (demo_runtime [demo_trigger ''a'' ''lane''] (im_queue (\<lambda>_. Ok [])))
      (fe_store blank_codecs) AcceptEventHandler None (EventId 1) 0 Map.empty ''event.demo''
      ((blank_store [] [], rt_new (0, []) []), \<lparr>ch_queue = [], ch_open = True\<rparr>) = ((202, b), (p', ch'))"
  by (simp add: events_router_def MAX_EVENT_BODY_BYTES_def post_events_route_def demo_web_def Let_def
      handle_event_def accept_def existing_event_def post_events_def with_metadata_def envelope_new_def
      default_metadata_def on_store_def fe_store_laws fe_append_def on_inner_def jsonl_append_def
      blank_codecs_def blank_store_def write_all_def sync_file_def attempt_def send_def
      handling_report_accepted_def)

theorem success_status_promises_witness:
  "\<exists>p' ch' b. events_router (demo_web None) (demo_runtime [demo_trigger ''a'' ''lane''] (im_queue (\<lambda>_. Ok [])))
      (fe_store blank_codecs) AcceptEventHandler None (EventId 1) 0 Map.empty ''event.demo''
      ((blank_store [] [], rt_new (0, []) []), \<lparr>ch_queue = [], ch_open = True\<rparr>) = ((202, b), (p', ch'))
     \<and> fe_all (fst p') = ch_queue ch' \<and> length (ch_queue ch') = 1"
proof -
  obtain p' ch' b where run: "events_router (demo_web None)
      (demo_runtime [demo_trigger ''a'' ''lane''] (im_queue (\<lambda>_. Ok [])))
      (fe_store blank_codecs) AcceptEventHandler None (EventId 1) 0 Map.empty ''event.demo''
      ((blank_store [] [], rt_new (0, []) []), \<lparr>ch_queue = [], ch_open = True\<rparr>) = ((202, b), (p', ch'))"
    using demo_post_run by blast
  have new: "existing_event (fe_store blank_codecs) e (blank_store [] []) = None" for e
    by (auto simp: existing_event_def find_by_idempotency_key_def fe_store_laws fe_all_def jsonl_all_def
        blank_store_def split: option.split)
  have "fe_all (blank_store [] []) = []" by (simp add: fe_all_def jsonl_all_def blank_store_def)
  with success_status_promises [OF run] new have "fe_all (fst p') = ch_queue ch' \<and> length (ch_queue ch') = 1"
    by (auto simp: Let_def)
  with run show ?thesis by blast
qed

text \<open>A posted event can be read back. When a new event with a fresh id is posted on the synchronous path
  and answered 200, then getting the id of the response yields exactly the posted event.\<close>

theorem post_then_get:
  assumes "uuid_api_ok (rt_uuid rt)"
    and "events_router web rt (fe_store cs) IngestEventHandler verifier i now headers bdy (p, ch)
       = ((200, EventBody r), (p', ch'))"
    and "incoming_from_slice web bdy = Ok input"
    and "existing_event (fe_store cs) (post_events i now input) (fst p) = None"
    and "i \<notin> ev_id ` set (fe_all (fst p))"
  shows "get_event_route (rt_uuid rt) (fe_store cs) (resp_event_id r) (fst p') = Ok (post_events i now input)"
proof -
  let ?e = "post_events i now input"
  have id: "ev_id ?e = i" by (simp add: post_events_def with_metadata_def envelope_new_def)
  obtain rr sv1 where pr: "post_events_route web rt (fe_store cs) IngestEventHandler verifier i now headers bdy (p, ch) = (rr, sv1)"
    by (cases "post_events_route web rt (fe_store cs) IngestEventHandler verifier i now headers bdy (p, ch)") blast
  with assms(2) have ok: "rr = Ok (200, r)" "sv1 = (p', ch')"
    by (cases rr; auto simp: events_router_def error_response_def split: if_splits)+
  from pr [unfolded ok] obtain rep where
      he: "handle_event rt (fe_store cs) IngestEventHandler ?e (p, ch) = (Ok rep, (p', ch'))"
      and r: "resp_event_id r = event_id_to_string (rt_uuid rt) i"
    by (cases rule: post_events_route_cases) (use assms(3) in auto)
  from sync_handled [OF he] assms(4) have all: "fe_all (fst p') = fe_all (fst p) @ [?e]" by simp
  have "List.find (\<lambda>e. ev_id e = i) (fe_all (fst p)) = None"
    using assms(5) by (auto simp: find_None_iff)
  then have "List.find (\<lambda>e. ev_id e = i) (fe_all (fst p')) = Some ?e" using all id by (simp add: find_append)
  moreover have "uuid_parse_str (rt_uuid rt) (uuid_to_string (rt_uuid rt) (uuid i)) = Ok (uuid i)"
    using assms(1) by (simp add: uuid_api_ok_def)
  ultimately show ?thesis
    by (simp add: get_event_route_def parse_event_id_def event_id_from_str_def event_id_to_string_def r fe_store_laws)
qed

theorem post_then_get_witness:
  "\<exists>r p' ch'. events_router (demo_web None) (demo_runtime [demo_trigger ''a'' ''lane''] (im_queue (\<lambda>_. Ok [])))
      (fe_store blank_codecs) IngestEventHandler None (EventId 1) 0 Map.empty ''event.demo''
      ((blank_store [] [], rt_new (0, []) []), \<lparr>ch_queue = [], ch_open = True\<rparr>) = ((200, EventBody r), (p', ch'))
     \<and> get_event_route unary_uuid (fe_store blank_codecs) (resp_event_id r) (fst p')
        = Ok (post_events (EventId 1) 0 \<lparr>in_event_type = ''event.demo'', in_payload = [], in_metadata = default_metadata\<rparr>)"
proof -
  let ?rt = "demo_runtime [demo_trigger ''a'' ''lane''] (im_queue (\<lambda>_. Ok []))"
  let ?p = "(blank_store [] [], rt_new (0, []) [])
    :: (file_event_store, nat \<times> (string \<times> string) list, in_memory_queue) pipeline"
  let ?in = "\<lparr>in_event_type = ''event.demo'', in_payload = [], in_metadata = default_metadata\<rparr>"
  obtain r p' ch' where run: "events_router (demo_web None) ?rt (fe_store blank_codecs) IngestEventHandler None
      (EventId 1) 0 Map.empty ''event.demo'' (?p, \<lparr>ch_queue = [], ch_open = True\<rparr>) = ((200, EventBody r), (p', ch'))"
    by (simp add: events_router_def MAX_EVENT_BODY_BYTES_def post_events_route_def demo_web_def Let_def
      handle_event_def ingest_def existing_event_def post_events_def with_metadata_def
      on_store_def on_runtime_def fe_store_laws fe_append_def on_inner_def jsonl_append_def
      fe_mark_delivered_def on_delivered_def
      blank_codecs_def blank_store_def write_all_def sync_file_def attempt_def demo_eval handling_report_new_def)
  have inp: "incoming_from_slice (demo_web None) ''event.demo'' = Ok ?in"
    by (simp add: demo_web_def default_metadata_def)
  have new: "existing_event (fe_store blank_codecs) (post_events (EventId 1) 0 ?in) (fst ?p) = None"
    by (simp add: existing_event_def post_events_def with_metadata_def default_metadata_def)
  have "uuid_api_ok (rt_uuid ?rt)" using unary_uuid_ok by (simp add: demo_runtime_def)
  from post_then_get [OF this run inp new] run show ?thesis
    by (auto simp: blank_store_def fe_all_def jsonl_all_def demo_runtime_def)
qed

text \<open>C35: a duplicate is answered with an id nobody can look up. When the idempotency key of a post is already
  in the store, the synchronous route answers 200 with the fresh id of the discarded copy, not with the id of
  the stored event that the ingest pipeline reports, and getting that id finds nothing.\<close>

theorem duplicate_post_reports_unknown_id:
  assumes "uuid_api_ok (rt_uuid rt)" and "length bdy \<le> MAX_EVENT_BODY_BYTES"
    and "incoming_from_slice web bdy = Ok input"
    and "existing_event (fe_store cs) (post_events i now input) (fst p) = Some x"
    and "i \<notin> ev_id ` set (fe_all (fst p))"
  shows "\<exists>r. events_router web rt (fe_store cs) IngestEventHandler None i now headers bdy (p, ch)
       = ((200, EventBody r), (p, ch))
     \<and> resp_event_id r = event_id_to_string (rt_uuid rt) i
     \<and> (\<exists>m. get_event_route (rt_uuid rt) (fe_store cs) (resp_event_id r) (fst p) = Err (HttpNotFound m))"
proof -
  have id: "ev_id (post_events i now input) = i" by (simp add: post_events_def with_metadata_def envelope_new_def)
  have none: "List.find (\<lambda>e. ev_id e = i) (fe_all (fst p)) = None"
    using assms(5) by (auto simp: find_None_iff)
  have p: "uuid_parse_str (rt_uuid rt) (uuid_to_string (rt_uuid rt) (uuid i)) = Ok (uuid i)"
    using assms(1) by (simp add: uuid_api_ok_def)
  show ?thesis
    using assms(2-4) none p id
    by (simp add: events_router_def post_events_route_def handle_event_def ingest_def handling_report_new_def
        get_event_route_def parse_event_id_def event_id_from_str_def event_id_to_string_def fe_store_laws)
qed

theorem duplicate_post_reports_unknown_id_witness:
  "\<exists>r. events_router (demo_web (Some ''k'')) (demo_runtime [] (im_queue (\<lambda>_. Ok []))) (fe_store blank_codecs)
        IngestEventHandler None (EventId 9) 0 Map.empty ''event.demo''
        ((blank_store [demo_event\<lparr>ev_metadata := default_metadata\<lparr>idempotency_key := Some ''k''\<rparr>\<rparr>] [],
          rt_new (0, []) []), \<lparr>ch_queue = [], ch_open = True\<rparr>)
     = ((200, EventBody r), ((blank_store [demo_event\<lparr>ev_metadata := default_metadata\<lparr>idempotency_key := Some ''k''\<rparr>\<rparr>] [],
          rt_new (0, []) []), \<lparr>ch_queue = [], ch_open = True\<rparr>))
     \<and> resp_event_id r = event_id_to_string unary_uuid (EventId 9)"
proof -
  let ?rt = "demo_runtime [] (im_queue (\<lambda>_. Ok []))"
  let ?x = "demo_event\<lparr>ev_metadata := default_metadata\<lparr>idempotency_key := Some ''k''\<rparr>\<rparr>"
  let ?in = "\<lparr>in_event_type = ''event.demo'', in_payload = [],
     in_metadata = default_metadata\<lparr>idempotency_key := Some ''k''\<rparr>\<rparr>"
  let ?p = "(blank_store [?x] [], rt_new (0, []) [])
    :: (file_event_store, nat \<times> (string \<times> string) list, in_memory_queue) pipeline"
  have u: "uuid_api_ok (rt_uuid ?rt)" using unary_uuid_ok by (simp add: demo_runtime_def)
  have len: "length ''event.demo'' \<le> MAX_EVENT_BODY_BYTES" by (simp add: MAX_EVENT_BODY_BYTES_def)
  have inp: "incoming_from_slice (demo_web (Some ''k'')) ''event.demo'' = Ok ?in" by (simp add: demo_web_def)
  have dup: "existing_event (fe_store blank_codecs) (post_events (EventId 9) 0 ?in) (fst ?p) = Some ?x"
    by (simp add: existing_event_def find_by_idempotency_key_def fe_store_laws fe_all_def jsonl_all_def
        blank_store_def post_events_def with_metadata_def)
  have fresh: "EventId 9 \<notin> ev_id ` set (fe_all (fst ?p))"
    by (simp add: blank_store_def fe_all_def jsonl_all_def demo_event_def envelope_new_def)
  from duplicate_post_reports_unknown_id [OF u len inp dup fresh] show ?thesis
    by (auto simp: demo_runtime_def)
qed

subsection \<open>Reading and replaying\<close>

lemma replay_loop_ids:
  "replay_loop rt es acc s = (Ok reps, s') \<Longrightarrow>
     map re_event_id reps = map re_event_id acc @ map (\<lambda>e. event_id_to_string (rt_uuid rt) (ev_id e)) es"
  by (induction es arbitrary: acc s) (fastforce simp: and_then_eq_Ok)+

text \<open>A dry run says what the replay does. A range replay that succeeds handles exactly the events the
  preview lists, in the same order; the dry run of the route reports their number and changes nothing.\<close>

theorem dry_run_matches_replay:
  assumes "rq_dry_run q"
    and "replay_range_route web rt es (q\<lparr>rq_dry_run := False\<rparr>) p = (Ok r, p')"
  shows "replay_range_route web rt es q p = (Ok (r\<lparr>rrr_dry_run := True\<rparr>), p)
     \<and> (\<exists>f reps s'. make_replay_filter web (rq_event_type q) (rq_source q) = Ok f
          \<and> replay_range rt es (fst p) (rq_start q) (rq_end q) f (snd p) = (Ok reps, s')
          \<and> map re_event_id reps = map (\<lambda>e. event_id_to_string (rt_uuid rt) (ev_id e))
               (preview_range es (fst p) (rq_start q) (rq_end q) f))"
proof -
  from assms(2) obtain f reps s' where f: "make_replay_filter web (rq_event_type q) (rq_source q) = Ok f"
    and rr: "replay_range rt es (fst p) (rq_start q) (rq_end q) f (snd p) = (Ok reps, s')"
    and r: "r = \<lparr>rrr_matched = length reps, rrr_dry_run = False\<rparr>"
    by (auto simp: replay_range_route_def split: result.splits prod.splits)
  from rr have ids: "map re_event_id reps = map (\<lambda>e. event_id_to_string (rt_uuid rt) (ev_id e))
               (preview_range es (fst p) (rq_start q) (rq_end q) f)"
    using replay_loop_ids [OF rr [unfolded replay_range_def]] by (simp add: preview_range_def)
  then have "length reps = length (preview_range es (fst p) (rq_start q) (rq_end q) f)"
    by (metis length_map)
  with f rr r ids assms(1) show ?thesis by (simp add: replay_range_route_def)
qed

theorem dry_run_matches_replay_witness:
  "\<exists>n. fst (replay_range_route (demo_web None) (demo_runtime [] (im_queue (\<lambda>_. Ok []))) (im_store (\<lambda>_. Ok []))
        \<lparr>rq_start = 0, rq_end = 1, rq_event_type = None, rq_source = None, rq_dry_run = True\<rparr>
        (\<lparr>im_events = [demo_event], im_delivered = {}\<rparr>, rt_new (0, []) []))
     = Ok \<lparr>rrr_matched = n, rrr_dry_run = True\<rparr>"
proof -
  let ?rt = "demo_runtime [] (im_queue (\<lambda>_. Ok []))"
  let ?q = "\<lparr>rq_start = 0, rq_end = 1, rq_event_type = None, rq_source = None, rq_dry_run = True\<rparr>"
  let ?p = "(\<lparr>im_events = [demo_event], im_delivered = {}\<rparr>, rt_new (0, []) [])
    :: (in_memory_event_store, nat \<times> (string \<times> string) list, in_memory_queue) pipeline"
  obtain r p' where run: "replay_range_route (demo_web None) ?rt (im_store (\<lambda>_. Ok []))
      (?q\<lparr>rq_dry_run := False\<rparr>) ?p = (Ok r, p')"
    by (simp add: replay_range_route_def make_replay_filter_def replay_range_def im_store_def filter_matches_def
        demo_eval Let_def)
  from dry_run_matches_replay [OF _ run] show ?thesis by (cases r) auto
qed

lemma concat_pages:
  "0 < n \<Longrightarrow> length xs \<le> m * n \<Longrightarrow> concat (map (\<lambda>k. take n (drop (k * n) xs)) [0..<m]) = xs"
proof (induction m arbitrary: xs)
  case (Suc m)
  have "[0..<Suc m] = 0 # map Suc [0..<m]" by (simp add: upt_conv_Cons map_Suc_upt)
  moreover have "(\<lambda>k. take n (drop (Suc k * n) xs)) = (\<lambda>k. take n (drop (k * n) (drop n xs)))"
    by (simp add: fun_eq_iff add.commute)
  ultimately have "concat (map (\<lambda>k. take n (drop (k * n) xs)) [0..<Suc m])
      = take n xs @ concat (map (\<lambda>k. take n (drop (k * n) (drop n xs))) [0..<m])"
    by (simp del: upt_Suc add: comp_def)
  also have "\<dots> = take n xs @ drop n xs" using Suc.IH [of "drop n xs"] Suc.prems by simp
  finally show ?case by simp
qed simp

text \<open>Paging reads everything once. A page has at most the limit's number of events, 1000 when no limit is
  given, and walking the pages of any positive size from offset 0 yields every retained event exactly once
  in append order.\<close>

theorem pages_cover_the_store:
  assumes "0 < n" and "length (es_all es store) \<le> m * n"
  shows "concat (map (\<lambda>k. list_events_route es (Some n) (Some (k * n)) store) [0..<m]) = es_all es store
     \<and> length (list_events_route es None offset store) \<le> 1000"
  using concat_pages [OF assms] by (simp add: list_events_route_def DEFAULT_EVENT_LIST_LIMIT_def)

theorem pages_cover_the_store_witness:
  "concat (map (\<lambda>k. list_events_route (im_store (\<lambda>_. Ok [])) (Some 2) (Some (k * 2))
      \<lparr>im_events = [demo_event, demo_event, demo_event], im_delivered = {}\<rparr>) [0..<2])
   = [demo_event, demo_event, demo_event]"
  using pages_cover_the_store [of 2 "im_store (\<lambda>_. Ok [])"
      "\<lparr>im_events = [demo_event, demo_event, demo_event], im_delivered = {}\<rparr>" 2]
  by (simp add: im_store_def)

end
