(* ===== verification/Cli_Config.thy ===== *)
theory Cli_Config
  imports Http
begin

text \<open>
  The configuration side of the command line: the declarative trigger file of
  \<open>crates/triggerlane-cli/src/config.rs\<close>, and from \<open>crates/triggerlane-cli/src/main.rs\<close> the settings read
  from the environment (backend and broker URL, durations, retention bounds, submission options, timeouts,
  flags). \<open>serde_json\<close>'s reader of the trigger file is a parameter, and so is \<open>chrono::Duration::try_seconds\<close>;
  what the code relies on is \<open>try_seconds_ok\<close>: a duration, when there is one, has that many seconds. The
  environment is a map from names to values.
\<close>

subsection \<open>Errors\<close>

datatype config_error = ConfigRead io_error | ConfigParse string

datatype cli_error =
    BindAddr string
  | Events string
  | BrokerErr string
  | RequestTimeout string
  | Retention string
  | Submission string
  | Metrics string
  | Config config_error
  | Io io_error
  | Json string
  | CliRuntime runtime_error
  | Panicked string

text \<open>\<open>Panicked\<close> is not a variant of \<open>CliError\<close>: it stands for the panic that ends the process.\<close>

subsection \<open>The trigger file\<close>

datatype 'v match_spec =
    MatchEventType string
  | MatchPayloadFieldEquals string 'v
  | MatchAllOf "'v match_spec list"
  | MatchAnyOf "'v match_spec list"

record bind_spec =
  bs_lane :: string
  bs_kind :: string
  bs_max_attempts :: u32

record 'v trigger_entry =
  te_name :: string
  te_priority :: int
  te_enabled :: bool
  te_condition :: "'v match_spec"
  te_bind :: bind_spec

text \<open>The parsed document is the list of its entries; the field defaults (priority 0, enabled) are filled in by
  the reader.\<close>

type_synonym 'v trigger_file = "'v trigger_entry list"

fun build_condition :: "'v match_spec \<Rightarrow> 'v trigger" where
  "build_condition (MatchEventType et) = EventTypeTrigger (EventType et)"
| "build_condition (MatchPayloadFieldEquals ptr val) = PayloadFieldEquals ptr val"
| "build_condition (MatchAllOf conditions) = AllOf (map build_condition conditions)"
| "build_condition (MatchAnyOf conditions) = AnyOf (map build_condition conditions)"

definition entry_trigger :: "'v json_api \<Rightarrow> 'v trigger_entry \<Rightarrow> registered_trigger" where
  "entry_trigger j entry =
     (let registered = registered_trigger_new (te_name entry) (te_priority entry)
            (trigger_matches j (build_condition (te_condition entry)))
            (bind_job (worklane_job_binding_new (bs_lane (te_bind entry)) (bs_kind (te_bind entry))
               (bs_max_attempts (te_bind entry))))
      in if te_enabled entry then registered else disabled registered)"

definition parse_registry ::
  "'v json_api \<Rightarrow> (string \<Rightarrow> ('v trigger_file, string) result) \<Rightarrow> string \<Rightarrow> (trigger_registry, config_error) result"
where
  "parse_registry j read_file data = (case read_file data of
     Err e \<Rightarrow> Err (ConfigParse e)
   | Ok triggers \<Rightarrow> Ok (foldl (\<lambda>registry entry. register registry (entry_trigger j entry)) [] triggers))"

definition load_registry_file ::
  "'v json_api \<Rightarrow> (string \<Rightarrow> ('v trigger_file, string) result) \<Rightarrow> (string \<Rightarrow> (string, io_error) result)
     \<Rightarrow> string \<Rightarrow> (trigger_registry, config_error) result" where
  "load_registry_file j read_file read_to_string path = (case read_to_string path of
     Err e \<Rightarrow> Err (ConfigRead e)
   | Ok data \<Rightarrow> parse_registry j read_file data)"

definition default_registry :: trigger_registry where
  "default_registry = register []
     (registered_trigger_new ''github-issue-projection'' 10
        (\<lambda>e. ev_type e = EventType EVENT_GITHUB_ISSUE_CREATED)
        (bind_job (worklane_job_binding_new ''projection'' ''CreateProjectionJob'' 3)))"

type_synonym environment = "string \<rightharpoonup> string"

definition load_registry ::
  "'v json_api \<Rightarrow> (string \<Rightarrow> ('v trigger_file, string) result) \<Rightarrow> (string \<Rightarrow> (string, io_error) result)
     \<Rightarrow> environment \<Rightarrow> (trigger_registry, cli_error) result" where
  "load_registry j read_file read_to_string env = (case env ''TRIGGERLANE_TRIGGERS'' of
     Some path \<Rightarrow> map_err Config (load_registry_file j read_file read_to_string path)
   | None \<Rightarrow> Ok default_registry)"

subsection \<open>Broker settings\<close>

datatype broker_backend = Sqlite | Postgres | Redis

definition parse_backend :: "string \<Rightarrow> (broker_backend, cli_error) result" where
  "parse_backend name =
     (if name = ''sqlite'' then Ok Sqlite
      else if name = ''postgres'' then Ok Postgres
      else if name = ''redis'' then Ok Redis
      else Err (BrokerErr (''unknown broker '' @ debug_str name @ '' (expected sqlite, postgres, or redis)'')))"

definition resolve_broker_url ::
  "string option \<Rightarrow> string option \<Rightarrow> string option \<Rightarrow> string \<Rightarrow> string \<Rightarrow> (string \<times> string, cli_error) result" where
  "resolve_broker_url url_flag triggerlane_url fallback fallback_var backend =
     (case url_flag of
        Some url \<Rightarrow> Ok (url, ''--url'')
      | None \<Rightarrow> (case triggerlane_url of
          Some url \<Rightarrow> Ok (url, ''$TRIGGERLANE_WORKLANE_URL'')
        | None \<Rightarrow> (case fallback of
            Some url \<Rightarrow> Ok (url, ''$'' @ fallback_var)
          | None \<Rightarrow> Err (BrokerErr (''--url, $TRIGGERLANE_WORKLANE_URL, or $'' @ fallback_var
                @ '' is required for --broker '' @ backend)))))"

definition nonempty_env :: "environment \<Rightarrow> string \<Rightarrow> string option" where
  "nonempty_env env key = (case env key of Some v \<Rightarrow> if v \<noteq> [] then Some v else None | None \<Rightarrow> None)"

text \<open>Which connector is called with what, and the line announced on the standard error stream.\<close>

datatype connection =
    SqliteOpen string
  | PostgresConnect string "string option"
  | RedisConnect string "string option"

definition connect_plan ::
  "environment \<Rightarrow> broker_backend \<Rightarrow> string option \<Rightarrow> (connection \<times> string option, cli_error) result" where
  "connect_plan env backend url_flag = (case backend of
     Sqlite \<Rightarrow> Ok (SqliteOpen (case env ''TRIGGERLANE_WORKLANE_DB'' of
                 Some p \<Rightarrow> p | None \<Rightarrow> ''triggerlane-jobs.sqlite3''), None)
   | Postgres \<Rightarrow>
       (case resolve_broker_url url_flag (env ''TRIGGERLANE_WORKLANE_URL'') (env ''DATABASE_URL'')
               ''DATABASE_URL'' ''postgres'' of
          Err e \<Rightarrow> Err e
        | Ok (url, src) \<Rightarrow>
            let schema = nonempty_env env ''TRIGGERLANE_WORKLANE_SCHEMA''
            in Ok (PostgresConnect url schema, Some (''postgres: using '' @ src @
                 (case schema of Some s \<Rightarrow> '' (schema '' @ s @ '')'' | None \<Rightarrow> []))))
   | Redis \<Rightarrow>
       (case resolve_broker_url url_flag (env ''TRIGGERLANE_WORKLANE_URL'') (env ''REDIS_URL'')
               ''REDIS_URL'' ''redis'' of
          Err e \<Rightarrow> Err e
        | Ok (url, src) \<Rightarrow>
            let namespace = nonempty_env env ''TRIGGERLANE_WORKLANE_NAMESPACE''
            in Ok (RedisConnect url namespace, Some (''redis: using '' @ src @
                 (case namespace of Some s \<Rightarrow> '' (namespace '' @ s @ '')'' | None \<Rightarrow> [])))))"

definition connect_broker ::
  "(connection \<Rightarrow> ('b, string) result) \<Rightarrow> (string \<Rightarrow> string) \<Rightarrow> environment \<Rightarrow> broker_backend \<Rightarrow> string option
     \<Rightarrow> ('b, cli_error) result" where
  "connect_broker open_connection redact env backend url_flag =
     (case connect_plan env backend url_flag of
        Err e \<Rightarrow> Err e
      | Ok (conn, _) \<Rightarrow> (case open_connection conn of
          Ok b \<Rightarrow> Ok b
        | Err e \<Rightarrow> Err (BrokerErr (case conn of
            SqliteOpen p \<Rightarrow> ''sqlite: failed to open '' @ debug_str p @ '': '' @ e
          | PostgresConnect _ _ \<Rightarrow> ''postgres: connection failed: '' @ redact e
          | RedisConnect _ _ \<Rightarrow> ''redis: connection failed: '' @ redact e))))"

subsection \<open>Durations and bounds\<close>

definition try_seconds_ok :: "(int \<Rightarrow> chrono_duration option) \<Rightarrow> bool" where
  "try_seconds_ok ts \<longleftrightarrow> (\<forall>s d. ts s = Some d \<longrightarrow> d = s * 1000000000)"

text \<open>\<open>raw.chars().last()\<close> on bytes: the last byte is the last character when it is ASCII; otherwise no unit
  matches and the result is \<open>None\<close> either way.\<close>

definition parse_duration :: "(int \<Rightarrow> chrono_duration option) \<Rightarrow> string \<Rightarrow> chrono_duration option" where
  "parse_duration ts raw =
     (if raw = [] then None
      else
        case parse_i64 (butlast raw) of
          None \<Rightarrow> None
        | Some amount \<Rightarrow>
            if amount < 0 then None
            else
              let unit = last raw in
              Option.bind
                (if unit = CHR ''s'' then Some amount
                 else if unit = CHR ''m'' then checked_mul_i64 amount 60
                 else if unit = CHR ''h'' then checked_mul_i64 amount 3600
                 else if unit = CHR ''d'' then checked_mul_i64 amount 86400
                 else None) ts)"

definition no_bound :: "string \<Rightarrow> bool" where
  "no_bound v \<longleftrightarrow> v = [] \<or> v = ''0'' \<or> v = ''off''"

definition parse_bound_duration ::
  "(int \<Rightarrow> chrono_duration option) \<Rightarrow> string option \<Rightarrow> (chrono_duration option, cli_error) result" where
  "parse_bound_duration ts raw = (case map_option str_trim raw of
     None \<Rightarrow> Ok None
   | Some v \<Rightarrow>
       if no_bound v then Ok None
       else (case parse_duration ts v of
               Some d \<Rightarrow> Ok (Some d)
             | None \<Rightarrow> Err (Retention (''invalid retention duration '' @ debug_str v))))"

definition parse_bound_number :: "string option \<Rightarrow> string \<Rightarrow> (nat option, cli_error) result" where
  "parse_bound_number raw label = (case map_option str_trim raw of
     None \<Rightarrow> Ok None
   | Some v \<Rightarrow>
       if no_bound v then Ok None
       else (case parse_unsigned 64 v of
               Some n \<Rightarrow> Ok (Some n)
             | None \<Rightarrow> Err (Retention (''invalid retention '' @ label @ '' '' @ debug_str v))))"

definition parse_auto_retention ::
  "(int \<Rightarrow> chrono_duration option) \<Rightarrow> string option \<Rightarrow> string option \<Rightarrow> string option \<Rightarrow> string option
     \<Rightarrow> (auto_retention, cli_error) result" where
  "parse_auto_retention ts grace age cnt sz =
     (case parse_bound_duration ts grace of
        Err e \<Rightarrow> Err e
      | Ok g \<Rightarrow> (case parse_bound_duration ts age of
          Err e \<Rightarrow> Err e
        | Ok a \<Rightarrow> (case parse_bound_number cnt ''max-count'' of
            Err e \<Rightarrow> Err e
          | Ok c \<Rightarrow> (case parse_bound_number sz ''max-bytes'' of
              Err e \<Rightarrow> Err e
            | Ok b \<Rightarrow> Ok \<lparr>delivered_grace = g, max_age = a, max_count = c, max_bytes = b\<rparr>))))"

definition auto_retention_from_env ::
  "(int \<Rightarrow> chrono_duration option) \<Rightarrow> environment \<Rightarrow> (auto_retention, cli_error) result" where
  "auto_retention_from_env ts env =
     parse_auto_retention ts
       (case env ''TRIGGERLANE_RETENTION_DELIVERED_GRACE'' of Some v \<Rightarrow> Some v | None \<Rightarrow> Some ''24h'')
       (env ''TRIGGERLANE_RETENTION_MAX_AGE'')
       (case env ''TRIGGERLANE_RETENTION_MAX_COUNT'' of Some v \<Rightarrow> Some v | None \<Rightarrow> Some ''1000000'')
       (env ''TRIGGERLANE_RETENTION_MAX_BYTES'')"

text \<open>\<open>chrono::Duration::to_std\<close> fails on a negative duration.\<close>

definition retention_interval_from_env ::
  "(int \<Rightarrow> chrono_duration option) \<Rightarrow> environment \<Rightarrow> (std_duration, cli_error) result" where
  "retention_interval_from_env ts env =
     (let raw = (case env ''TRIGGERLANE_RETENTION_INTERVAL'' of Some v \<Rightarrow> v | None \<Rightarrow> ''5m'')
      in case Option.bind (parse_duration ts raw) (\<lambda>d. if d < 0 then None else Some (nat d)) of
           Some d \<Rightarrow> Ok d
         | None \<Rightarrow> Err (Retention (''invalid retention interval '' @ debug_str raw)))"

subsection \<open>Submission, timeouts, flags\<close>

definition parse_runtime_options :: "string option \<Rightarrow> string option \<Rightarrow> (runtime_options, cli_error) result" where
  "parse_runtime_options attempts backoff_ms =
     (let a = (case attempts of Some v \<Rightarrow> v | None \<Rightarrow> ''3'');
          b = (case backoff_ms of Some v \<Rightarrow> v | None \<Rightarrow> ''100'')
      in case parse_unsigned 32 (str_trim a) of
           None \<Rightarrow> Err (Submission (''invalid submission attempts '' @ debug_str a))
         | Some n \<Rightarrow> (case parse_unsigned 64 (str_trim b) of
             None \<Rightarrow> Err (Submission (''invalid submission backoff '' @ debug_str b))
           | Some ms \<Rightarrow> Ok \<lparr>max_submission_attempts = word_of_nat (max n 1), submission_backoff = from_millis ms\<rparr>))"

definition runtime_options_from_env :: "environment \<Rightarrow> (runtime_options, cli_error) result" where
  "runtime_options_from_env env =
     parse_runtime_options (env ''TRIGGERLANE_SUBMISSION_ATTEMPTS'') (env ''TRIGGERLANE_SUBMISSION_BACKOFF_MS'')"

definition parse_request_timeout :: "string option \<Rightarrow> (std_duration option, cli_error) result" where
  "parse_request_timeout raw =
     (case (case raw of
              Some v \<Rightarrow> (case parse_unsigned 64 v of Some n \<Rightarrow> Ok n | None \<Rightarrow> Err (RequestTimeout v))
            | None \<Rightarrow> Ok 30) of
        Err e \<Rightarrow> Err e
      | Ok secs \<Rightarrow> Ok (if secs > 0 then Some (from_secs secs) else None))"

definition request_timeout :: "environment \<Rightarrow> (std_duration option, cli_error) result" where
  "request_timeout env = parse_request_timeout (env ''TRIGGERLANE_REQUEST_TIMEOUT_SECS'')"

definition env_flag_enabled :: "environment \<Rightarrow> string \<Rightarrow> bool" where
  "env_flag_enabled env key = (case env key of
     None \<Rightarrow> False
   | Some v \<Rightarrow> to_ascii_lowercase (str_trim v) \<in> {''1'', ''true'', ''yes'', ''on''})"

definition async_dispatch_capacity :: "environment \<Rightarrow> (nat, cli_error) result" where
  "async_dispatch_capacity env = (case nonempty_env env ''TRIGGERLANE_ASYNC_DISPATCH_CAPACITY'' of
     None \<Rightarrow> Ok 1024
   | Some raw \<Rightarrow> (case parse_unsigned 64 (str_trim raw) of
        None \<Rightarrow> Err (Submission (''invalid async dispatch capacity '' @ debug_str raw))
      | Some c \<Rightarrow> if c = 0 then Err (Submission ''async dispatch capacity must be greater than 0'') else Ok c))"

datatype prune_policy = PruneOlderThan string | PruneKeep nat

text \<open>\<open>sub\<close> is chrono's \<open>checked_sub_signed\<close>; the operator \<open>-\<close> of the code panics where it gives nothing.\<close>

definition resolve_prune_policy ::
  "(int \<Rightarrow> chrono_duration option) \<Rightarrow> (timestamp \<Rightarrow> chrono_duration \<Rightarrow> timestamp option) \<Rightarrow> timestamp
     \<Rightarrow> prune_policy \<Rightarrow> (manual_retention, cli_error) result" where
  "resolve_prune_policy ts sub now policy = (case policy of
     PruneOlderThan raw \<Rightarrow> (case parse_duration ts raw of
        None \<Rightarrow> Err (Retention (''invalid duration '' @ debug_str raw))
      | Some d \<Rightarrow> (case sub now d of
          None \<Rightarrow> Err (Panicked ''`DateTime - TimeDelta` overflowed'')
        | Some cutoff \<Rightarrow> Ok (OlderThan cutoff)))
   | PruneKeep n \<Rightarrow> Ok (KeepMostRecent n))"

subsection \<open>Specifications\<close>

text \<open>The seconds of a unit of the duration syntax.\<close>

definition unit_seconds :: "char \<Rightarrow> nat option" where
  "unit_seconds u = map_of [(CHR ''s'', 1), (CHR ''m'', 60), (CHR ''h'', 3600), (CHR ''d'', 86400)] u"


text \<open>What a match condition says of an event, independently of the trigger types.\<close>

fun spec_holds :: "'v json_api \<Rightarrow> 'v match_spec \<Rightarrow> event_envelope \<Rightarrow> bool" where
  "spec_holds j (MatchEventType t) e \<longleftrightarrow> as_str (ev_type e) = t"
| "spec_holds j (MatchPayloadFieldEquals ptr v) e \<longleftrightarrow>
     (\<exists>doc. from_slice j (ev_payload e) = Some doc \<and> pointer j doc ptr = Some v)"
| "spec_holds j (MatchAllOf cs) e \<longleftrightarrow> (\<forall>c \<in> set cs. spec_holds j c e)"
| "spec_holds j (MatchAnyOf cs) e \<longleftrightarrow> (\<exists>c \<in> set cs. spec_holds j c e)"

subsection \<open>The meaning of a trigger file\<close>

lemma build_condition_correct: "trigger_matches j (build_condition s) e \<longleftrightarrow> spec_holds j s e"
proof (induction s)
  case (MatchEventType t)
  then show ?case by (cases "ev_type e") auto
qed (auto simp: list_all_iff list_ex_iff split: option.splits)

lemma filter_sort_key: "filter P (sort_key f xs) = sort_key f (filter P xs)"
  by (induction xs) (auto simp: filter_insort filter_insort_triv)

lemma insort_key_map: "insort_key f (g x) (map g xs) = map g (insort_key (\<lambda>y. f (g y)) x xs)"
  by (induction xs) auto

lemma sort_key_map: "sort_key f (map g xs) = map g (sort_key (\<lambda>y. f (g y)) xs)"
  by (induction xs) (auto simp: insort_key_map)

lemma entry_trigger_simps [simp]:
  "rg_name (entry_trigger j t) = te_name t" "rg_priority (entry_trigger j t) = te_priority t"
  "rg_enabled (entry_trigger j t) = te_enabled t"
  "rg_matches (entry_trigger j t) e = spec_holds j (te_condition t) e"
  by (simp_all add: entry_trigger_def registered_trigger_new_def disabled_def Let_def build_condition_correct)

text \<open>C29: a trigger file means what it says. The registry built from a document offers an event to exactly the
  enabled entries whose condition holds of it, by descending priority and otherwise in the order of the
  document; and the job of an entry has its lane, kind and attempts and carries the event's payload.\<close>

theorem parse_registry_meaning:
  assumes "read_file data = Ok entries" and "parse_registry j read_file data = Ok reg"
  shows "matching reg e = map (entry_trigger j)
       (sort_key (\<lambda>t. - te_priority t) (filter (\<lambda>t. te_enabled t \<and> spec_holds j (te_condition t) e) entries))
     \<and> (\<forall>t. rg_bind (entry_trigger j t) e = Ok \<lparr>job_lane = bs_lane (te_bind t), job_kind = bs_kind (te_bind t),
           job_payload = ev_payload e, job_max_attempts = bs_max_attempts (te_bind t)\<rparr>)"
proof
  have "reg = foldl register [] (map (entry_trigger j) entries)"
    using assms by (simp add: parse_registry_def foldl_map)
  also have "\<dots> = map (entry_trigger j) (sort_key (\<lambda>t. - te_priority t) entries)"
    by (simp add: registry_built sort_key_map)
  finally show "matching reg e = map (entry_trigger j)
       (sort_key (\<lambda>t. - te_priority t) (filter (\<lambda>t. te_enabled t \<and> spec_holds j (te_condition t) e) entries))"
    by (simp add: matching_def filter_map comp_def filter_sort_key)
  show "\<forall>t. rg_bind (entry_trigger j t) e = Ok \<lparr>job_lane = bs_lane (te_bind t), job_kind = bs_kind (te_bind t),
           job_payload = ev_payload e, job_max_attempts = bs_max_attempts (te_bind t)\<rparr>"
    by (auto simp: entry_trigger_def registered_trigger_new_def disabled_def Let_def bind_job_def
        worklane_job_binding_new_def worklane_job_new_def)
qed

theorem parse_registry_meaning_witness:
  "\<exists>reg. parse_registry \<lparr>from_slice = (\<lambda>_. None), pointer = (\<lambda>_ _. None)\<rparr>
       (\<lambda>_. Ok [\<lparr>te_name = ''low'', te_priority = 1, te_enabled = True, te_condition = MatchEventType ''t'',
                 te_bind = \<lparr>bs_lane = ''a'', bs_kind = ''k'', bs_max_attempts = 3\<rparr>\<rparr>,
                \<lparr>te_name = ''off'', te_priority = 7, te_enabled = False, te_condition = MatchAllOf [],
                 te_bind = \<lparr>bs_lane = ''a'', bs_kind = ''k'', bs_max_attempts = 3\<rparr>\<rparr>,
                \<lparr>te_name = ''high'', te_priority = 5, te_enabled = True, te_condition = MatchAllOf [],
                 te_bind = \<lparr>bs_lane = ''a'', bs_kind = ''k'', bs_max_attempts = 3\<rparr>\<rparr>]) ''[]'' = Ok reg
     \<and> map rg_name (matching reg (envelope_new (EventId 1) 0 Http ''t'' [])) = [''high'', ''low'']"
  (is "\<exists>reg. parse_registry ?j ?rd ''[]'' = Ok reg \<and> _")
proof -
  obtain entries where e: "?rd ''[]'' = Ok entries" by simp
  obtain reg where r: "parse_registry ?j ?rd ''[]'' = Ok reg" by (simp add: parse_registry_def)
  from parse_registry_meaning [OF e r, of "envelope_new (EventId 1) 0 Http ''t'' []"] e r show ?thesis
    by (auto simp: envelope_new_def)
qed

subsection \<open>Durations\<close>

lemma digits_val_append: "digits_val a (xs @ ys) = Option.bind (digits_val a xs) (\<lambda>b. digits_val b ys)"
  by (induction xs arbitrary: a) (auto split: option.splits)

lemma digit_val_digit: "n < 10 \<Longrightarrow> digit_val (char_of (48 + n)) = Some n"
  by (simp add: digit_val_def byte_in_def)

lemma digits_val_show_nat: "digits_val 0 (show_nat n) = Some n"
proof (induction n rule: show_nat.induct)
  case (1 n)
  show ?case
  proof (cases "n < 10")
    case True
    then show ?thesis by (simp add: show_nat.simps [of n] digit_val_digit)
  next
    case False
    have "digit_val (char_of (48 + n mod 10)) = Some (n mod 10)" by (rule digit_val_digit) simp
    with 1 False show ?thesis by (simp add: show_nat.simps [of n] digits_val_append)
  qed
qed

lemma show_nat_head: "\<exists>d ds. show_nat n = d # ds \<and> digit_val d \<noteq> None"
proof (induction n rule: show_nat.induct)
  case (1 n)
  show ?case
  proof (cases "n < 10")
    case True
    then show ?thesis by (simp add: show_nat.simps [of n] digit_val_digit)
  next
    case False
    with 1 show ?thesis by (auto simp: show_nat.simps [of n])
  qed
qed

lemma parse_i64_show_nat: "parse_i64 (show_nat n) = (if n < 2 ^ 63 then Some (int n) else None)"
proof -
  obtain d ds where d: "show_nat n = d # ds" "digit_val d \<noteq> None" using show_nat_head by blast
  have sign: "d \<noteq> CHR ''+''" "d \<noteq> CHR ''-''" using d(2) by (auto simp: digit_val_def byte_in_def)
  have v: "digits_val 0 (d # ds) = Some n" using digits_val_show_nat [of n] d(1) by simp
  have "int n < 2 ^ 63 \<longleftrightarrow> n < 2 ^ 63" by (metis of_nat_less_iff of_nat_numeral of_nat_power)
  with sign v show ?thesis by (simp add: parse_i64_def d(1) Let_def del: digits_val.simps)
qed

text \<open>Durations are read exactly. Writing a number and one of the units \<open>s\<close>, \<open>m\<close>, \<open>h\<close>, \<open>d\<close> and reading it
  back gives the duration of that many seconds when the seconds fit 64 bits, and nothing when they
  overflow; with any other last character nothing is read.\<close>

theorem parse_duration_show:
  "parse_duration ts (show_nat n @ [u]) =
     (case unit_seconds u of
        None \<Rightarrow> None
      | Some k \<Rightarrow> if n * k < 2 ^ 63 then ts (int (n * k)) else None)"
proof -
  have c: "checked_mul_i64 (int n) (int k) = (if n * k < 2 ^ 63 then Some (int (n * k)) else None)" for k
  proof -
    have "int n * int k < 2 ^ 63 \<longleftrightarrow> n * k < 2 ^ 63"
      by (metis of_nat_less_iff of_nat_mult of_nat_numeral of_nat_power)
    moreover have "- (2 ^ 63) \<le> int n * int k" by (rule order_trans [of _ 0]) simp_all
    ultimately show ?thesis by (simp add: checked_mul_i64_def)
  qed
  have small: "n < 2 ^ 63" if "n * k < 2 ^ 63" "0 < k" for k using that
    by (metis less_imp_le_nat mult.right_neutral mult_le_mono2 order_le_less_trans Suc_leI One_nat_def)
  show ?thesis
    using c [of 60] c [of 3600] c [of 86400] small [of 60] small [of 3600] small [of 86400]
    by (auto simp: parse_duration_def parse_i64_show_nat unit_seconds_def Let_def)
qed

lemma checked_mul_nonneg: "checked_mul_i64 n k = Some s \<Longrightarrow> 0 \<le> n \<Longrightarrow> 0 \<le> k \<Longrightarrow> 0 \<le> s"
  by (auto simp: checked_mul_i64_def split: if_splits)

lemma parse_duration_nonneg:
  assumes "try_seconds_ok ts" and "parse_duration ts raw = Some d"
  shows "0 \<le> d"
proof -
  from assms(2) obtain s where "0 \<le> s" "ts s = Some d"
    by (auto simp: parse_duration_def Let_def Option.bind_eq_Some_conv not_less dest: checked_mul_nonneg
        split: if_splits option.splits)
  moreover from this assms(1) have "d = s * 1000000000" by (simp add: try_seconds_ok_def)
  ultimately show ?thesis by simp
qed

text \<open>So the sweep interval is rejected only when its text is not a duration.\<close>

lemma retention_interval_ok:
  assumes "try_seconds_ok ts" and "env ''TRIGGERLANE_RETENTION_INTERVAL'' = Some raw"
    and "parse_duration ts raw = Some d"
  shows "retention_interval_from_env ts env = Ok (nat d)"
  using parse_duration_nonneg [OF assms(1,3)] assms(2,3) by (simp add: retention_interval_from_env_def)

lemma parse_runtime_options_attempts:
  assumes "parse_runtime_options a b = Ok opts"
  shows "1 \<le> max_submission_attempts opts"
proof -
  from assms obtain n v where n: "parse_unsigned 32 v = Some n" "max_submission_attempts opts = word_of_nat (max n 1)"
    by (auto simp: parse_runtime_options_def Let_def split: option.splits)
  then have "n < 2 ^ 32" by (auto simp: parse_unsigned_def Let_def split: option.splits if_splits)
  then have "unat (word_of_nat (max n 1) :: u32) = max n 1" by (simp add: unat_of_nat)
  with n(2) show ?thesis by (simp add: word_le_nat_alt)
qed

subsection \<open>Bounds\<close>

lemma apply_size_bounds_zero_count: "max_count p = Some 0 \<Longrightarrow> apply_size_bounds enc xs p = []"
  by (auto simp: apply_size_bounds_def Let_def split: option.splits)

text \<open>Only the exact text \<open>0\<close> turns a bound off. A maximal count of \<open>0\<close> is read as no bound and keeps every
  event, but \<open>00\<close> is read as the bound zero, under which a sweep removes every event, delivered or not.\<close>

theorem zero_count_spelling:
  "parse_auto_retention ts None None (Some ''0'') None = Ok unbounded
   \<and> retain_events enc es del unbounded now = es
   \<and> (\<exists>p. parse_auto_retention ts None None (Some ''00'') None = Ok p \<and> retain_events enc es del p now = [])"
proof (intro conjI)
  show "parse_auto_retention ts None None (Some ''0'') None = Ok unbounded"
    by (simp add: parse_auto_retention_def parse_bound_duration_def parse_bound_number_def no_bound_def
        str_trim_def trim_start_not_ws ws_len_ascii unbounded_def)
  show "retain_events enc es del unbounded now = es"
    by (rule retain_events_unbounded) (simp add: unbounded_def is_unbounded_def)
  let ?p = "\<lparr>delivered_grace = None, max_age = None, max_count = Some 0, max_bytes = None\<rparr>"
  have "parse_auto_retention ts None None (Some ''00'') None = Ok ?p"
    by (simp add: parse_auto_retention_def parse_bound_duration_def parse_bound_number_def no_bound_def
        str_trim_def trim_start_not_ws ws_len_ascii parse_unsigned_def Let_def digit_val_def byte_in_def)
  then show "\<exists>p. parse_auto_retention ts None None (Some ''00'') None = Ok p \<and> retain_events enc es del p now = []"
    by (auto simp: retain_events_def Let_def apply_size_bounds_zero_count)
qed

end
