(* ===== verification/Cli.thy ===== *)
theory Cli
  imports Http Cli_Config
begin

text \<open>
  The commands of \<open>crates/triggerlane-cli/src/main.rs\<close>. A command runs in a \<open>world\<close>: the environment, the
  disks with the event store and the dead-trigger queue, the broker system, and what was printed on the
  standard output. The two files are on disks of their own, so their names and those of their siblings never
  collide. What the commands use of other crates is a parameter, a \<open>cli_api\<close>: the broker connections and the
  dead-letter calls of Worklane, \<open>serde_json\<close>, the clock, the random ids and the parsers of \<open>chrono\<close>.
  The commands come parsed, as \<open>clap\<close> hands them to \<open>run\<close>. A handle is released when the command ends.
\<close>

subsection \<open>Parameters and world\<close>

record file_event =
  fv_event_type :: string
  fv_payload :: bytes
  fv_metadata :: event_metadata

record ('b, 'l, 'e, 'd, 'v) cli_api =
  api_uuid :: uuid_api
  api_json :: "'v json_api"
  api_broker :: "('b, 'l, 'e) broker_api"
  api_codecs :: event_codecs
  api_queue_codec :: queue_codec
  api_try_seconds :: "int \<Rightarrow> chrono_duration option"
  api_checked_sub :: "timestamp \<Rightarrow> chrono_duration \<Rightarrow> timestamp option"
  api_parse_utc :: "string \<Rightarrow> (timestamp, string) result"
  api_source_from_value :: "string \<Rightarrow> source option"
  api_read_to_string :: "string \<Rightarrow> (string, io_error) result"
  api_read_triggers :: "string \<Rightarrow> ('v trigger_file, string) result"
  api_read_events :: "string \<Rightarrow> (file_event list, string) result"
  api_open_connection :: "'b \<Rightarrow> connection \<Rightarrow> ('b, string) result"
  api_redact :: "string \<Rightarrow> string"
  api_read_dead_letters :: "'l \<Rightarrow> nat \<Rightarrow> 'b \<Rightarrow> ('d list, 'e) result \<times> 'b"
  api_count_dead_letters :: "'l \<Rightarrow> 'b \<Rightarrow> (nat, 'e) result \<times> 'b"
  api_purge_dead_letters :: "'l \<Rightarrow> 'b \<Rightarrow> (nat, 'e) result \<times> 'b"
  api_envelope_value :: "'d \<Rightarrow> ('v, string) result"
  api_error_value :: "'d \<Rightarrow> 'v"
  api_object_line :: "(string \<times> 'v) list \<Rightarrow> string"
  api_fresh :: "nat \<Rightarrow> event_id \<times> timestamp"
  api_now :: timestamp

record 'b world =
  w_env :: environment
  w_store_fs :: fs
  w_queue_fs :: fs
  w_broker :: 'b
  w_stdout :: "string list"

definition println :: "string \<Rightarrow> 'b world \<Rightarrow> 'b world" where
  "println line w = w\<lparr>w_stdout := w_stdout w @ [line]\<rparr>"

subsection \<open>Opening and closing\<close>

definition open_event_store ::
  "('b, 'l, 'e, 'd, 'v) cli_api \<Rightarrow> 'b world \<Rightarrow> (file_event_store, cli_error) result \<times> 'b world" where
  "open_event_store api w =
     (let p = (case w_env w ''TRIGGERLANE_STORE'' of Some p \<Rightarrow> p | None \<Rightarrow> ''triggerlane-events.jsonl'')
      in case fe_open (api_codecs api) p (w_store_fs w) of
           (r, fs) \<Rightarrow> (map_err Io r, w\<lparr>w_store_fs := fs\<rparr>))"

definition open_dead_trigger_queue ::
  "('b, 'l, 'e, 'd, 'v) cli_api \<Rightarrow> 'b world
     \<Rightarrow> (dead_trigger_record jsonl_store, cli_error) result \<times> 'b world" where
  "open_dead_trigger_queue api w =
     (let p = (case w_env w ''TRIGGERLANE_DTQ'' of Some p \<Rightarrow> p | None \<Rightarrow> ''triggerlane-dead-triggers.jsonl'')
      in case fq_open (api_queue_codec api) p (w_queue_fs w) of
           (r, fs) \<Rightarrow> (map_err Io r, w\<lparr>w_queue_fs := fs\<rparr>))"

text \<open>Dropping the handles releases their locks.\<close>

definition close_store :: "file_event_store \<Rightarrow> 'b world \<Rightarrow> 'b world" where
  "close_store store w =
     w\<lparr>w_store_fs := drop_handle (js_file (fe_inner store))
         (drop_handle (js_file (fe_delivered store)) (fe_fs store))\<rparr>"

definition close_queue :: "file_queue \<Rightarrow> 'b world \<Rightarrow> 'b world" where
  "close_queue q w = w\<lparr>w_queue_fs := drop_handle (js_file (fst q)) (snd q)\<rparr>"

type_synonym 'b cli_pipeline = "(file_event_store, 'b, file_queue) pipeline"

definition end_session :: "'b cli_pipeline \<Rightarrow> 'b world \<Rightarrow> 'b world" where
  "end_session p w =
     (close_queue (st_queue (snd p)) (close_store (fst p) w))\<lparr>w_broker := st_broker (snd p)\<rparr>"

definition broker_from_cli ::
  "('b, 'l, 'e, 'd, 'v) cli_api \<Rightarrow> string \<Rightarrow> string option \<Rightarrow> 'b world \<Rightarrow> ('b, cli_error) result" where
  "broker_from_cli api backend url w = (case parse_backend backend of
     Err e \<Rightarrow> Err e
   | Ok be \<Rightarrow> connect_broker (api_open_connection api (w_broker w)) (api_redact api) (w_env w) be url)"

definition build_ingest ::
  "('b, 'l, 'e, 'd, 'v) cli_api \<Rightarrow> 'b \<Rightarrow> 'b world
     \<Rightarrow> (('b, 'l, 'e, file_queue) trigger_runtime \<times> 'b cli_pipeline, cli_error) result \<times> 'b world" where
  "build_ingest api b w =
     and_then (open_event_store api w) (\<lambda>store w.
       case open_dead_trigger_queue api w of
         (Err e, w) \<Rightarrow> (Err e, close_store store w)
       | (Ok dead, w) \<Rightarrow>
           let q = (dead, w_queue_fs w) in
           (case load_registry (api_json api) (api_read_triggers api) (api_read_to_string api) (w_env w) of
              Err e \<Rightarrow> (Err e, close_queue q (close_store store w))
            | Ok registry \<Rightarrow>
                (case runtime_options_from_env (w_env w) of
                   Err e \<Rightarrow> (Err e, close_queue q (close_store store w))
                 | Ok options \<Rightarrow>
                     let rt = \<lparr>rt_uuid = api_uuid api, rt_registry = registry, rt_broker = api_broker api,
                               rt_dead_triggers = file_dead_trigger_queue (api_queue_codec api),
                               rt_options = options, rt_trace_sink = LoggingTraceSink\<rparr>
                     in (Ok (rt, (store, with_dead_trigger_queue q rt (rt_new b q))), w))))"

text \<open>What most commands share: connect, build the pipeline, run, release.\<close>

definition with_ingest ::
  "('b, 'l, 'e, 'd, 'v) cli_api \<Rightarrow> string \<Rightarrow> string option
     \<Rightarrow> (('b, 'l, 'e, file_queue) trigger_runtime \<Rightarrow> 'b cli_pipeline
           \<Rightarrow> (string, cli_error) result \<times> 'b cli_pipeline)
     \<Rightarrow> 'b world \<Rightarrow> (unit, cli_error) result \<times> 'b world" where
  "with_ingest api backend url f w = (case broker_from_cli api backend url w of
     Err e \<Rightarrow> (Err e, w)
   | Ok b \<Rightarrow>
       and_then (build_ingest api b (w\<lparr>w_broker := b\<rparr>)) (\<lambda>(rt, p) w.
         case f rt p of
           (Err e, p) \<Rightarrow> (Err e, end_session p w)
         | (Ok line, p) \<Rightarrow> (Ok (), println line (end_session p w))))"

subsection \<open>Injecting and loading events\<close>

definition inject :: "event_id \<times> timestamp \<Rightarrow> string \<Rightarrow> bytes \<Rightarrow> event_envelope" where
  "inject fresh et payload = envelope_new (fst fresh) (snd fresh) Manual et payload"

definition load_events_file ::
  "('b, 'l, 'e, 'd, 'v) cli_api \<Rightarrow> string \<Rightarrow> (event_envelope list, cli_error) result" where
  "load_events_file api path = (case api_read_to_string api path of
     Err e \<Rightarrow> Err (Io e)
   | Ok data \<Rightarrow> (case api_read_events api data of
       Err e \<Rightarrow> Err (Json e)
     | Ok inputs \<Rightarrow> Ok (map (\<lambda>(i, input).
         with_metadata (envelope_new (fst (api_fresh api i)) (snd (api_fresh api i)) Manual
           (fv_event_type input) (fv_payload input)) (fv_metadata input)) (List.enumerate 0 inputs))))"

fun load_loop ::
  "('b, 'l, 'e, 'q) trigger_runtime \<Rightarrow> 's event_store_ops \<Rightarrow> event_envelope list \<Rightarrow> nat
     \<Rightarrow> ('s, 'b, 'q) pipeline \<Rightarrow> (nat, runtime_error) result \<times> ('s, 'b, 'q) pipeline" where
  "load_loop rt es [] submitted p = (Ok submitted, p)"
| "load_loop rt es (event # events) submitted p =
     and_then (ingest rt es event p) (\<lambda>report p.
       load_loop rt es events (submitted + length (hr_submitted (ir_handle report))) p)"

definition run_inject ::
  "('b, 'l, 'e, 'd, 'v) cli_api \<Rightarrow> string \<Rightarrow> string \<Rightarrow> ('b, 'l, 'e, file_queue) trigger_runtime
     \<Rightarrow> 'b cli_pipeline \<Rightarrow> (string, cli_error) result \<times> 'b cli_pipeline" where
  "run_inject api et payload rt p =
     (case ingest rt (fe_store (api_codecs api)) (inject (api_fresh api 0) et payload) p of
        (Err e, p) \<Rightarrow> (Err (CliRuntime e), p)
      | (Ok report, p) \<Rightarrow> (Ok (''ingested '' @ ir_event_id report @ '' submitted ''
            @ show_nat (length (hr_submitted (ir_handle report)))), p))"

definition run_load_file ::
  "('b, 'l, 'e, 'd, 'v) cli_api \<Rightarrow> string \<Rightarrow> ('b, 'l, 'e, file_queue) trigger_runtime
     \<Rightarrow> 'b cli_pipeline \<Rightarrow> (string, cli_error) result \<times> 'b cli_pipeline" where
  "run_load_file api path rt p = (case load_events_file api path of
     Err e \<Rightarrow> (Err e, p)
   | Ok events \<Rightarrow> (case load_loop rt (fe_store (api_codecs api)) events 0 p of
       (Err e, p) \<Rightarrow> (Err (CliRuntime e), p)
     | (Ok submitted, p) \<Rightarrow>
         (Ok (''loaded '' @ show_nat (length events) @ '' submitted '' @ show_nat submitted), p)))"

definition run_retry ::
  "('b, 'l, 'e, file_queue) trigger_runtime \<Rightarrow> 'b cli_pipeline
     \<Rightarrow> (string, cli_error) result \<times> 'b cli_pipeline" where
  "run_retry rt p = (case retry_dead_triggers rt (snd p) of
     (Err e, s) \<Rightarrow> (Err (CliRuntime e), (fst p, s))
   | (Ok report, s) \<Rightarrow>
       (Ok (''retried '' @ show_nat (rr_events_retried report) @ '' drained '' @ show_nat (rr_drained report)
            @ '' recovered '' @ show_nat (rr_recovered report) @ '' still-failed ''
            @ show_nat (rr_still_failed report) @ '' submitted '' @ show_nat (length (rr_submitted report))),
        (fst p, s)))"

subsection \<open>Pruning\<close>

definition run_prune ::
  "('b, 'l, 'e, 'd, 'v) cli_api \<Rightarrow> prune_policy \<Rightarrow> 'b world \<Rightarrow> (unit, cli_error) result \<times> 'b world" where
  "run_prune api policy w =
     (case resolve_prune_policy (api_try_seconds api) (api_checked_sub api) (api_now api) policy of
        Err e \<Rightarrow> (Err e, w)
      | Ok policy \<Rightarrow>
          and_then (open_event_store api w) (\<lambda>store w.
            case fe_prune (api_codecs api) policy store of
              (Err e, store) \<Rightarrow> (Err (Io e), close_store store w)
            | (Ok events, store) \<Rightarrow>
                and_then (open_dead_trigger_queue api (close_store store w)) (\<lambda>dead w.
                  case fq_prune (api_queue_codec api) policy (dead, w_queue_fs w) of
                    (Err e, q) \<Rightarrow> (Err (Io e), close_queue q w)
                  | (Ok dead_triggers, q) \<Rightarrow>
                      (Ok (), println (''pruned events '' @ show_nat events @ '' dead-triggers ''
                                @ show_nat dead_triggers) (close_queue q w)))))"

subsection \<open>Events and dead triggers\<close>

text \<open>Printing records until one cannot be encoded.\<close>

fun print_records :: "('a \<Rightarrow> (string, string) result) \<Rightarrow> 'a list \<Rightarrow> 'b world \<Rightarrow> (unit, cli_error) result \<times> 'b world"
where
  "print_records enc [] w = (Ok (), w)"
| "print_records enc (r # rs) w = (case enc r of
     Err e \<Rightarrow> (Err (Json e), w)
   | Ok line \<Rightarrow> print_records enc rs (println line w))"

definition cli_parse_event_id :: "uuid_api \<Rightarrow> string \<Rightarrow> (event_id, cli_error) result" where
  "cli_parse_event_id u raw = (case event_id_from_str u raw of
     Ok i \<Rightarrow> Ok i
   | Err e \<Rightarrow> Err (Events (''invalid event id '' @ debug_str raw @ '': '' @ e)))"

definition parse_timestamp ::
  "(string \<Rightarrow> (timestamp, string) result) \<Rightarrow> string \<Rightarrow> (timestamp, cli_error) result" where
  "parse_timestamp parse_utc raw = (case parse_utc raw of
     Ok t \<Rightarrow> Ok t
   | Err e \<Rightarrow> Err (Events (''invalid timestamp '' @ debug_str raw @ '': '' @ e)))"

definition cli_parse_source :: "(string \<Rightarrow> source option) \<Rightarrow> string \<Rightarrow> (source, cli_error) result" where
  "cli_parse_source from_value raw = (case from_value raw of
     Some s \<Rightarrow> Ok s | None \<Rightarrow> Err (Events (''unknown source '' @ debug_str raw)))"

datatype events_command =
    EventsList
  | EventsGet string
  | EventsReplay string
  | EventsReplayRange string string "string option" "string option" bool

definition run_events_list ::
  "('b, 'l, 'e, 'd, 'v) cli_api \<Rightarrow> 'b world \<Rightarrow> (unit, cli_error) result \<times> 'b world" where
  "run_events_list api w =
     and_then (open_event_store api w) (\<lambda>store w.
       print_records (to_vec (fst (api_codecs api))) (fe_all store) (close_store store w))"

definition run_events_get ::
  "('b, 'l, 'e, 'd, 'v) cli_api \<Rightarrow> string \<Rightarrow> 'b world \<Rightarrow> (unit, cli_error) result \<times> 'b world" where
  "run_events_get api raw w = (case cli_parse_event_id (api_uuid api) raw of
     Err e \<Rightarrow> (Err e, w)
   | Ok i \<Rightarrow>
       and_then (open_event_store api w) (\<lambda>store w.
         case fe_get i store of
           Some event \<Rightarrow> print_records (to_vec (fst (api_codecs api))) [event] (close_store store w)
         | None \<Rightarrow> (Err (Events (''event '' @ event_id_to_string (api_uuid api) i @ '' not found'')),
                    close_store store w)))"

definition run_replay ::
  "('b, 'l, 'e, 'd, 'v) cli_api \<Rightarrow> event_id \<Rightarrow> ('b, 'l, 'e, file_queue) trigger_runtime
     \<Rightarrow> 'b cli_pipeline \<Rightarrow> (string, cli_error) result \<times> 'b cli_pipeline" where
  "run_replay api i rt p = (case replay_by_id rt (fe_store (api_codecs api)) (fst p) i (snd p) of
     (Err e, s) \<Rightarrow> (Err (Events (replay_error_to_string e)), (fst p, s))
   | (Ok report, s) \<Rightarrow> (Ok (''replayed '' @ event_id_to_string (api_uuid api) i @ '' submitted ''
        @ show_nat (length (hr_submitted report))), (fst p, s)))"

definition run_replay_range ::
  "('b, 'l, 'e, 'd, 'v) cli_api \<Rightarrow> timestamp \<Rightarrow> timestamp \<Rightarrow> replay_filter \<Rightarrow> bool
     \<Rightarrow> ('b, 'l, 'e, file_queue) trigger_runtime \<Rightarrow> 'b cli_pipeline
     \<Rightarrow> (string, cli_error) result \<times> 'b cli_pipeline" where
  "run_replay_range api start stop f dry_run rt p =
     (if dry_run
      then (Ok (''would replay '' @ show_nat (length (preview_range (fe_store (api_codecs api)) (fst p) start stop f))
              @ '' (dry-run)''), p)
      else case replay_range rt (fe_store (api_codecs api)) (fst p) start stop f (snd p) of
             (Err e, s) \<Rightarrow> (Err (Events (replay_error_to_string e)), (fst p, s))
           | (Ok events, s) \<Rightarrow> (Ok (''replayed '' @ show_nat (length events)), (fst p, s)))"

definition run_events ::
  "('b, 'l, 'e, 'd, 'v) cli_api \<Rightarrow> events_command \<Rightarrow> string \<Rightarrow> string option \<Rightarrow> 'b world
     \<Rightarrow> (unit, cli_error) result \<times> 'b world" where
  "run_events api command backend url w = (case command of
     EventsList \<Rightarrow> run_events_list api w
   | EventsGet raw \<Rightarrow> run_events_get api raw w
   | EventsReplay raw \<Rightarrow> (case cli_parse_event_id (api_uuid api) raw of
        Err e \<Rightarrow> (Err e, w)
      | Ok i \<Rightarrow> with_ingest api backend url (run_replay api i) w)
   | EventsReplayRange raw_start raw_stop et src dry_run \<Rightarrow>
       (case parse_timestamp (api_parse_utc api) raw_start of
          Err e \<Rightarrow> (Err e, w)
        | Ok start \<Rightarrow> (case parse_timestamp (api_parse_utc api) raw_stop of
            Err e \<Rightarrow> (Err e, w)
          | Ok stop \<Rightarrow>
              (case (case src of
                       None \<Rightarrow> Ok None
                     | Some raw \<Rightarrow> (case cli_parse_source (api_source_from_value api) raw of
                         Ok s \<Rightarrow> Ok (Some s) | Err e \<Rightarrow> Err e)) of
                 Err e \<Rightarrow> (Err e, w)
               | Ok src \<Rightarrow>
                   with_ingest api backend url
                     (run_replay_range api start stop \<lparr>rf_event_type = et, rf_source = src\<rparr> dry_run) w))))"

datatype dead_triggers_command = DeadTriggersList | DeadTriggersRetry

definition run_dead_triggers ::
  "('b, 'l, 'e, 'd, 'v) cli_api \<Rightarrow> dead_triggers_command \<Rightarrow> string \<Rightarrow> string option \<Rightarrow> 'b world
     \<Rightarrow> (unit, cli_error) result \<times> 'b world" where
  "run_dead_triggers api command backend url w = (case command of
     DeadTriggersList \<Rightarrow>
       and_then (open_dead_trigger_queue api w) (\<lambda>dead w.
         let q = (dead, w_queue_fs w)
         in print_records (to_vec (api_queue_codec api)) (jsonl_all q) (close_queue q w))
   | DeadTriggersRetry \<Rightarrow> with_ingest api backend url run_retry w)"

subsection \<open>Worklane's dead letters\<close>

datatype worklane_dlq_command = DlqList string nat | DlqCount string | DlqPurge string

definition parse_lane ::
  "('b, 'l, 'e) broker_api \<Rightarrow> string \<Rightarrow> ('l, cli_error) result" where
  "parse_lane broker lane = (case lane_try_from broker lane of
     Ok l \<Rightarrow> Ok l | Err e \<Rightarrow> Err (BrokerErr (''invalid lane '' @ debug_str lane @ '': '' @ e)))"

definition dead_letter_line :: "('b, 'l, 'e, 'd, 'v) cli_api \<Rightarrow> 'd \<Rightarrow> (string, string) result" where
  "dead_letter_line api record = (case api_envelope_value api record of
     Err e \<Rightarrow> Err e
   | Ok v \<Rightarrow> Ok (api_object_line api [(''envelope'', v), (''error'', api_error_value api record)]))"

text \<open>One call on the broker, its error turned into a command error.\<close>

definition on_lane ::
  "('b, 'l, 'e, 'd, 'v) cli_api \<Rightarrow> string \<Rightarrow> ('l \<Rightarrow> 'b \<Rightarrow> ('a, 'e) result \<times> 'b) \<Rightarrow> 'b world
     \<Rightarrow> ('a, cli_error) result \<times> 'b world" where
  "on_lane api lane call w = (case parse_lane (api_broker api) lane of
     Err e \<Rightarrow> (Err e, w)
   | Ok l \<Rightarrow> (case call l (w_broker w) of
       (r, b) \<Rightarrow> (map_err (\<lambda>e. BrokerErr (broker_error_to_string (api_broker api) e)) r, w\<lparr>w_broker := b\<rparr>)))"

definition run_worklane_dlq ::
  "('b, 'l, 'e, 'd, 'v) cli_api \<Rightarrow> worklane_dlq_command \<Rightarrow> string \<Rightarrow> string option \<Rightarrow> 'b world
     \<Rightarrow> (unit, cli_error) result \<times> 'b world" where
  "run_worklane_dlq api command backend url w = (case broker_from_cli api backend url w of
     Err e \<Rightarrow> (Err e, w)
   | Ok b \<Rightarrow>
       let w = w\<lparr>w_broker := b\<rparr> in
       (case command of
          DlqList lane limit \<Rightarrow>
            and_then (on_lane api lane (\<lambda>l. api_read_dead_letters api l limit) w)
              (\<lambda>records w. print_records (dead_letter_line api) records w)
        | DlqCount lane \<Rightarrow>
            and_then (on_lane api lane (api_count_dead_letters api) w) (\<lambda>n w. (Ok (), println (show_nat n) w))
        | DlqPurge lane \<Rightarrow>
            and_then (on_lane api lane (api_purge_dead_letters api) w)
              (\<lambda>n w. (Ok (), println (''purged '' @ show_nat n) w))))"

subsection \<open>The command line\<close>

datatype command =
    Inject string string
  | LoadFile string
  | RetryDeadTriggers
  | Prune prune_policy
  | EventsCmd events_command
  | DeadTriggersCmd dead_triggers_command
  | WorklaneDlq worklane_dlq_command

text \<open>All commands but \<open>serve\<close>, which does not return; it is in theory \<open>Server\<close>.\<close>

definition run ::
  "('b, 'l, 'e, 'd, 'v) cli_api \<Rightarrow> string \<Rightarrow> string option \<Rightarrow> command \<Rightarrow> 'b world
     \<Rightarrow> (unit, cli_error) result \<times> 'b world" where
  "run api backend url command w = (case command of
     Inject et payload \<Rightarrow> with_ingest api backend url (run_inject api et payload) w
   | LoadFile path \<Rightarrow> with_ingest api backend url (run_load_file api path) w
   | RetryDeadTriggers \<Rightarrow> with_ingest api backend url run_retry w
   | Prune policy \<Rightarrow> run_prune api policy w
   | EventsCmd c \<Rightarrow> run_events api c backend url w
   | DeadTriggersCmd c \<Rightarrow> run_dead_triggers api c backend url w
   | WorklaneDlq c \<Rightarrow> run_worklane_dlq api c backend url w)"

subsection \<open>Loading a file twice\<close>

definition stored_key :: "'s event_store_ops \<Rightarrow> event_envelope \<Rightarrow> 's \<Rightarrow> bool" where
  "stored_key es e s \<longleftrightarrow> idempotency_key (ev_metadata e) \<noteq> None \<and> existing_event es e s \<noteq> None"

lemma load_loop_stored:
  "\<forall>e \<in> set events. stored_key es e (fst p) \<Longrightarrow> load_loop rt es events n p = (Ok n, p)"
  by (induction events) (auto simp: stored_key_def ingest_def)

context event_store
begin

lemma existing_event_mono:
  "existing_event ops e s \<noteq> None \<Longrightarrow> es_all ops s' = es_all ops s @ xs \<Longrightarrow> existing_event ops e s' \<noteq> None"
  by (auto simp: existing_event_def find_by_idempotency_key_def find_append split: option.splits)

lemma ingest_extends:
  assumes "ingest rt ops e p = (Ok rep, p')"
  shows "(\<exists>xs. es_all ops (fst p') = es_all ops (fst p) @ xs)
     \<and> (idempotency_key (ev_metadata e) \<noteq> None \<longrightarrow> stored_key ops e (fst p'))"
proof (cases "existing_event ops e (fst p)")
  case (Some x)
  with assms have "p' = p" by (simp add: ingest_def)
  with Some show ?thesis by (auto simp: stored_key_def)
next
  case None
  from ingest_new [OF None assms] have a: "es_all ops (fst p') = es_all ops (fst p) @ [e]" by auto
  then have "idempotency_key (ev_metadata e) \<noteq> None \<longrightarrow> existing_event ops e (fst p') \<noteq> None"
    by (auto simp: existing_event_def find_by_idempotency_key_def find_append split: option.splits)
  with a show ?thesis by (auto simp: stored_key_def)
qed

lemma load_loop_extends:
  "load_loop rt ops events n p = (Ok m, p') \<Longrightarrow>
     (\<exists>xs. es_all ops (fst p') = es_all ops (fst p) @ xs)
     \<and> (\<forall>e \<in> set events. idempotency_key (ev_metadata e) \<noteq> None \<longrightarrow> stored_key ops e (fst p'))"
proof (induction events arbitrary: n p)
  case (Cons e events)
  then obtain rep p1 where i: "ingest rt ops e p = (Ok rep, p1)"
    and l: "load_loop rt ops events (n + length (hr_submitted (ir_handle rep))) p1 = (Ok m, p')"
    by (auto simp: and_then_eq_Ok)
  from Cons.IH [OF l] obtain ys where ys: "es_all ops (fst p') = es_all ops (fst p1) @ ys" by blast
  have "stored_key ops e (fst p')" if "stored_key ops e (fst p1)"
    using that existing_event_mono [OF _ ys] by (auto simp: stored_key_def)
  with ingest_extends [OF i] Cons.IH [OF l] ys show ?case by auto
qed simp

end

text \<open>C36: loading a file is idempotent. When every event of a file carries an idempotency key and the file was
  loaded, loading it again, under fresh ids and times, reports the same number of events and no submission,
  and changes neither the store nor the broker nor the queue.\<close>

theorem load_file_idempotent:
  assumes "api_read_to_string api path = Ok data" and "api_read_events api data = Ok inputs"
    and "\<forall>input \<in> set inputs. idempotency_key (fv_metadata input) \<noteq> None"
    and "run_load_file api path rt p = (Ok line, p')"
  shows "run_load_file (api\<lparr>api_fresh := fresh\<rparr>) path rt p'
     = (Ok (''loaded '' @ show_nat (length inputs) @ '' submitted 0''), p')"
proof -
  let ?es = "fe_store (api_codecs api)"
  let ?ev = "\<lambda>f. map (\<lambda>(i, input). with_metadata (envelope_new (fst (f i)) (snd (f i)) Manual
       (fv_event_type input) (fv_payload input)) (fv_metadata input)) (List.enumerate 0 inputs)"
  from assms obtain m where l: "load_loop rt ?es (?ev (api_fresh api)) 0 p = (Ok m, p')"
    by (auto simp: run_load_file_def load_events_file_def split: prod.splits result.splits)
  have stored: "\<forall>e \<in> set (?ev fresh). stored_key ?es e (fst p')"
  proof
    fix e
    assume "e \<in> set (?ev fresh)"
    then obtain i input where i: "(i, input) \<in> set (List.enumerate 0 inputs)"
      and e: "ev_metadata e = fv_metadata input" by (auto simp: with_metadata_def)
    let ?o = "with_metadata (envelope_new (fst (api_fresh api i)) (snd (api_fresh api i)) Manual
       (fv_event_type input) (fv_payload input)) (fv_metadata input)"
    from i have "?o \<in> set (?ev (api_fresh api))" by force
    moreover from i have "input \<in> set inputs" by (metis in_set_enumerate_eq nth_mem snd_conv add_diff_cancel_left' less_diff_conv2
          add.commute add.right_neutral diff_zero fst_conv)
    moreover have "ev_metadata ?o = fv_metadata input" by (simp add: with_metadata_def)
    ultimately have "stored_key ?es ?o (fst p')" using fe.load_loop_extends [OF l] assms(3) by auto
    then show "stored_key ?es e (fst p')" by (simp add: stored_key_def existing_event_def e \<open>ev_metadata ?o = _\<close>)
  qed
  have "show_nat 0 = ''0''" by code_simp
  with load_loop_stored [OF stored, of rt 0] assms(1,2) show ?thesis
    by (simp add: run_load_file_def load_events_file_def)
qed

definition demo_api ::
  "file_event list \<Rightarrow> (nat \<times> (string \<times> string) list, string, string, unit, unit) cli_api" where
  "demo_api inputs =
     \<lparr>api_uuid = unary_uuid, api_json = \<lparr>from_slice = (\<lambda>_. None), pointer = (\<lambda>_ _. None)\<rparr>,
      api_broker = list_broker, api_codecs = blank_codecs, api_queue_codec = blank_codec,
      api_try_seconds = (\<lambda>s. Some (s * 1000000000)), api_checked_sub = (\<lambda>t d. Some (t - d)),
      api_parse_utc = (\<lambda>_. Ok 0),
      api_source_from_value = (\<lambda>_. None), api_read_to_string = (\<lambda>_. Ok []), api_read_triggers = (\<lambda>_. Ok []),
      api_read_events = (\<lambda>_. Ok inputs), api_open_connection = (\<lambda>b _. Ok b), api_redact = (\<lambda>m. m),
      api_read_dead_letters = (\<lambda>_ _ b. (Ok [], b)), api_count_dead_letters = (\<lambda>_ b. (Ok 0, b)),
      api_purge_dead_letters = (\<lambda>_ b. (Ok 0, b)), api_envelope_value = (\<lambda>_. Ok ()), api_error_value = (\<lambda>_. ()),
      api_object_line = (\<lambda>_. []), api_fresh = (\<lambda>i. (EventId (of_nat i), 0)), api_now = 0\<rparr>"

theorem load_file_idempotent_witness:
  "\<exists>p. run_load_file ((demo_api [\<lparr>fv_event_type = ''t'', fv_payload = [],
        fv_metadata = default_metadata\<lparr>idempotency_key := Some ''k''\<rparr>\<rparr>])\<lparr>api_fresh := \<lambda>_. (EventId 9, 5)\<rparr>) ''f''
      (demo_runtime [] (file_dead_trigger_queue blank_codec)) p = (Ok (''loaded 1 submitted 0''), p)"
proof -
  let ?in = "[\<lparr>fv_event_type = ''t'', fv_payload = [], fv_metadata = default_metadata\<lparr>idempotency_key := Some ''k''\<rparr>\<rparr>]"
  let ?rt = "demo_runtime [] (file_dead_trigger_queue blank_codec)"
  obtain line p' where run: "run_load_file (demo_api ?in) ''f'' ?rt
      (blank_store [] [], rt_new (0, []) (blank_queue [] [])) = (Ok line, p')"
    by (simp add: run_load_file_def load_events_file_def demo_api_def ingest_def existing_event_def
        find_by_idempotency_key_def fe_store_laws on_store_def on_runtime_def fe_all_def jsonl_all_def
        blank_store_def fe_append_def fe_mark_delivered_def on_inner_def on_delivered_def jsonl_append_def blank_codecs_def
        write_all_def sync_file_def attempt_def empty_fs_def handle_def demo_runtime_def matching_def
        with_metadata_def envelope_new_def Let_def)
  have "show_nat 1 = ''1''" by code_simp
  with load_file_idempotent [OF _ _ _ run, of "[]" ?in "\<lambda>_. (EventId 9, 5)"] show ?thesis
    by (intro exI [of _ p']) (simp add: demo_api_def)
qed

end
