(* ===== verification/Server.thy ===== *)
theory Server
  imports Http_Properties Cli
begin

text \<open>
  The server of \<open>crates/triggerlane-cli/src/main.rs\<close>: \<open>serve\<close> up to the listening socket, the background
  dispatcher and the maintenance task, and the concurrent execution of requests. A request, a dispatch or a
  replay is a task; a task is cut where other tasks can run in between: after the duplicate lookup, after
  the append, while the channel has no room, before each attempt to submit a job, after each matching trigger,
  before the delivery mark. The step relation \<open>server_step\<close> interleaves the tasks freely with new requests, the
  dispatcher and the sweeps, drops requests where they wait, and a label list records what a step did.
\<close>

subsection \<open>Starting up\<close>

record ('b, 'l, 'e) serving =
  sg_runtime :: "('b, 'l, 'e, file_queue) trigger_runtime"
  sg_recovered :: nat
  sg_policy :: auto_retention
  sg_interval :: std_duration
  sg_verifier :: "webhook_verifier option"
  sg_read_auth :: "bytes option"
  sg_dispatch_capacity :: "nat option"
  sg_request_timeout :: "std_duration option"

text \<open>The socket and the metrics recorder are parameters: parsing an address, installing the recorder, binding.\<close>

record 'a net_api =
  parse_socket_addr :: "string \<Rightarrow> ('a, string) result"
  install_recorder :: "(unit, string) result"
  bind_listener :: "'a \<Rightarrow> (unit, io_error) result"

definition nonempty :: "string option \<Rightarrow> string option" where
  "nonempty v = (case v of Some s \<Rightarrow> if s \<noteq> [] then Some s else None | None \<Rightarrow> None)"

text \<open>The part of \<open>serve\<close> after the pipeline is built: it reads the remaining settings and binds.\<close>

definition serve_settings ::
  "'a net_api \<Rightarrow> ('b, 'l, 'e, 'd, 'v) cli_api \<Rightarrow> 'a \<Rightarrow> std_duration option
     \<Rightarrow> ('b, 'l, 'e, file_queue) trigger_runtime \<Rightarrow> nat \<Rightarrow> environment
     \<Rightarrow> (('b, 'l, 'e) serving, cli_error) result" where
  "serve_settings net api addr timeout rt recovered env =
     (case auto_retention_from_env (api_try_seconds api) env of
        Err e \<Rightarrow> Err e
      | Ok policy \<Rightarrow> (case retention_interval_from_env (api_try_seconds api) env of
          Err e \<Rightarrow> Err e
        | Ok interval \<Rightarrow>
            (case (if env_flag_enabled env ''TRIGGERLANE_ASYNC_DISPATCH''
                   then (case async_dispatch_capacity env of Ok c \<Rightarrow> Ok (Some c) | Err e \<Rightarrow> Err e)
                   else Ok None) of
               Err e \<Rightarrow> Err e
             | Ok capacity \<Rightarrow> (case bind_listener net addr of
                 Err e \<Rightarrow> Err (Io e)
               | Ok _ \<Rightarrow> Ok \<lparr>sg_runtime = rt, sg_recovered = recovered, sg_policy = policy, sg_interval = interval,
                     sg_verifier = map_option verifier_github (nonempty (env ''TRIGGERLANE_WEBHOOK_SECRET'')),
                     sg_read_auth = nonempty (env ''TRIGGERLANE_READ_TOKEN''),
                     sg_dispatch_capacity = capacity, sg_request_timeout = timeout\<rparr>))))"

definition serve ::
  "'a net_api \<Rightarrow> ('b, 'l, 'e, 'd, 'v) cli_api \<Rightarrow> string \<Rightarrow> string \<Rightarrow> string option \<Rightarrow> 'b world
     \<Rightarrow> (('b, 'l, 'e) serving \<times> 'b cli_pipeline, cli_error) result \<times> 'b world" where
  "serve net api raw_addr backend url w =
     (case parse_socket_addr net raw_addr of
        Err e \<Rightarrow> (Err (BindAddr e), w)
      | Ok addr \<Rightarrow> (case request_timeout (w_env w) of
          Err e \<Rightarrow> (Err e, w)
        | Ok timeout \<Rightarrow> (case install_recorder net of
            Err e \<Rightarrow> (Err (Metrics e), w)
          | Ok _ \<Rightarrow> (case broker_from_cli api backend url w of
              Err e \<Rightarrow> (Err e, w)
            | Ok b \<Rightarrow>
                and_then (build_ingest api b (w\<lparr>w_broker := b\<rparr>)) (\<lambda>(rt, p) w.
                  case recover_undelivered rt (fe_store (api_codecs api)) p of
                    (Err e, p) \<Rightarrow> (Err (CliRuntime e), end_session p w)
                  | (Ok recovered, p) \<Rightarrow>
                      (case serve_settings net api addr timeout rt recovered (w_env w) of
                         Err e \<Rightarrow> (Err e, end_session p w)
                       | Ok sg \<Rightarrow> (Ok (sg, p), w)))))))"

subsection \<open>Background work\<close>

definition dispatcher_body ::
  "('b, 'l, 'e, 'q) trigger_runtime \<Rightarrow> 's event_store_ops \<Rightarrow> ('s, 'b, 'q) server \<Rightarrow> ('s, 'b, 'q) server" where
  "dispatcher_body rt es sv = (case sv of (p, ch) \<Rightarrow>
     (case ch_queue ch of
        [] \<Rightarrow> sv
      | event # rest \<Rightarrow> (snd (dispatch rt es event p), ch\<lparr>ch_queue := rest\<rparr>)))"

definition maintenance_tick ::
  "('b, 'l, 'e, 'q) trigger_runtime \<Rightarrow> 's event_store_ops \<Rightarrow> (string set \<Rightarrow> string list) \<Rightarrow> auto_retention
     \<Rightarrow> timestamp \<Rightarrow> ('s, 'b, 'q) pipeline \<Rightarrow> (nat, io_error) result \<times> ('s, 'b, 'q) pipeline" where
  "maintenance_tick rt es enumerate_lanes policy now p =
     (let s = record_broker_metrics rt enumerate_lanes (snd p);
          s = record_store_metrics rt es (fst p) s
      in if is_unbounded policy then (Ok 0, (fst p, s))
         else case es_enforce_retention es policy now (fst p) of
                (Err e, store) \<Rightarrow> (Err e, (store, s))
              | (Ok events, store) \<Rightarrow>
                  (case enforce_dead_trigger_retention rt policy now s of
                     (Err e, s) \<Rightarrow> (Err e, (store, s))
                   | (Ok dead, s) \<Rightarrow> (Ok (events + dead), (store, s))))"

subsection \<open>The application\<close>

text \<open>The merged routers of \<open>serve_ingest\<close>, and the timeout layer around them: a request that takes longer than
  the timeout is answered 408.\<close>

datatype app_request =
    PostEvents header_map bytes event_id timestamp
  | ReadRequest header_map read_request
  | Healthz
  | Readyz
  | MetricsRequest

datatype app_body = RouteBody body | TextBody string | NoBody

definition with_request_timeout :: "std_duration option \<Rightarrow> std_duration \<Rightarrow> nat \<times> app_body \<Rightarrow> nat \<times> app_body" where
  "with_request_timeout timeout took r = (case timeout of
     Some limit \<Rightarrow> if limit < took then (408, NoBody) else r
   | None \<Rightarrow> r)"

definition serve_ingest ::
  "web_api \<Rightarrow> ('b, 'l, 'e) serving \<Rightarrow> 's event_store_ops \<Rightarrow> ('b, 'l, 'e, 'q) trigger_runtime \<Rightarrow> (unit \<Rightarrow> string)
     \<Rightarrow> readiness \<Rightarrow> app_request \<Rightarrow> ('s, 'b, 'q) server \<Rightarrow> (nat \<times> app_body) \<times> ('s, 'b, 'q) server" where
  "serve_ingest web sg es rt render_metrics ready req sv = (case req of
     PostEvents headers bdy new_id now \<Rightarrow>
       (case events_router web rt es
               (if sg_dispatch_capacity sg = None then IngestEventHandler else AcceptEventHandler)
               (sg_verifier sg) new_id now headers bdy sv of
          ((status, b), sv) \<Rightarrow> ((status, RouteBody b), sv))
   | ReadRequest headers r \<Rightarrow>
       (case read_router web rt es (sg_read_auth sg) headers r (fst sv) of
          ((status, b), p) \<Rightarrow> ((status, RouteBody b), (p, snd sv)))
   | Healthz \<Rightarrow> ((healthz_route, NoBody), sv)
   | Readyz \<Rightarrow> ((readyz_route ready, NoBody), sv)
   | MetricsRequest \<Rightarrow> ((200, TextBody (snd (metrics_route render_metrics))), sv))"

text \<open>The shutdown future: when the first of the two signals arrives, readiness is withdrawn before the server
  stops accepting connections.\<close>

definition wait_for_first :: "nat option \<Rightarrow> nat option \<Rightarrow> nat option" where
  "wait_for_first a b = (case (a, b) of
     (Some s, Some t) \<Rightarrow> Some (min s t) | (Some s, None) \<Rightarrow> Some s | (None, Some t) \<Rightarrow> Some t | (None, None) \<Rightarrow> None)"

definition readiness_at :: "nat option \<Rightarrow> nat option \<Rightarrow> nat \<Rightarrow> readiness" where
  "readiness_at interrupt terminate now = (case wait_for_first interrupt terminate of
     Some t \<Rightarrow> if t \<le> now then set_ready False readiness_ready else readiness_ready
   | None \<Rightarrow> readiness_ready)"

subsection \<open>Tasks\<close>

record ('s, 'b, 'l, 'e, 'q) server_config =
  cf_runtime :: "('b, 'l, 'e, 'q) trigger_runtime"
  cf_store :: "'s event_store_ops"
  cf_handler :: event_handler
  cf_capacity :: nat
  cf_web :: web_api
  cf_verifier :: "webhook_verifier option"
  cf_policy :: auto_retention

text \<open>Whose handling it is. A replay carries the events it still has to handle: the list was read from the
  store when the request came in.\<close>

datatype owner = Request | Dispatcher | Replayer "event_envelope list"

text \<open>A task, by what it does next. \<open>Sending\<close> has not tried the channel yet, \<open>Waiting\<close> has found it full.
  \<open>Submitting\<close> has bound the trigger to a job and is about to make the attempt with the given number, with the
  given number of attempts left after it.\<close>

datatype task =
    Looking event_envelope
  | Appending event_envelope
  | Sending event_envelope
  | Waiting event_envelope
  | Handling owner event_envelope "registered_trigger list" handle_report
  | Submitting owner event_envelope registered_trigger "registered_trigger list" handle_report worklane_job nat nat
  | Marking owner event_envelope handle_report

datatype label =
    Received event_envelope
  | Stored event_envelope
  | Dispatched event_envelope
  | Replayed "event_envelope list"
  | Handled event_envelope
  | Delivered event_id
  | Answered event_envelope "(event_handling_report, handler_error) result"
  | Cancelled event_envelope

definition no_report :: handle_report where
  "no_report = \<lparr>hr_submitted = [], hr_failed = []\<rparr>"

definition start_handling ::
  "('s, 'b, 'l, 'e, 'q) server_config \<Rightarrow> owner \<Rightarrow> event_envelope \<Rightarrow> task" where
  "start_handling cf owner event =
     Handling owner event (matching (rt_registry (cf_runtime cf)) event) no_report"

text \<open>The end of \<open>handle\<close>, after the loop over the matching triggers.\<close>

definition finish_handling ::
  "('b, 'l, 'e, 'q) trigger_runtime \<Rightarrow> event_envelope \<Rightarrow> handle_report \<Rightarrow> ('b, 'q) rt_state \<Rightarrow> ('b, 'q) rt_state"
where
  "finish_handling rt event report s =
     (let s = emit (Counter ''triggerlane_events_handled_total''
                [(''source'', source_debug (ev_source event)), (''event_type'', as_str (ev_type event))]) s;
          s = emit (Histogram ''triggerlane_handle_duration_seconds'') s;
          s = record_dead_trigger_depth rt s
      in sink_record (rt_trace_sink rt)
           (from_event_report (rt_uuid rt) event (map rg_name (matching (rt_registry rt) event)) report) s)"

text \<open>The answer to the client, when a client waits.\<close>

definition answer :: "owner \<Rightarrow> event_envelope \<Rightarrow> (handle_report, runtime_error) result \<Rightarrow> label list" where
  "answer owner event r = (if owner \<noteq> Request then []
     else [Answered event (case r of
        Ok report \<Rightarrow> Ok (handling_report_new (hr_submitted report) (length (hr_failed report)))
      | Err e \<Rightarrow> Err (HandlerError (runtime_error_to_string e)))])"

text \<open>The body of the loop of \<open>handle\<close> over the matching triggers, cut where it waits: first everything up to the
  first attempt to submit, which is the binding, the check of the lane and the recording of a failure there; then one
  attempt of \<open>enqueue_with_retries\<close> at a time, the last of which may end in the recording of a failure. The left
  summand is the job to submit with the number of the attempt and how many are left after it.\<close>

definition failed_trigger ::
  "('b, 'l, 'e, 'q) trigger_runtime \<Rightarrow> event_envelope \<Rightarrow> registered_trigger \<Rightarrow> string \<Rightarrow> ('b, 'q) rt_state
     \<Rightarrow> (string + dead_trigger_record, runtime_error) result \<times> ('b, 'q) rt_state" where
  "failed_trigger rt event r err s =
     and_then (record_dead_trigger rt event (rg_name r) err
         (emit (Counter ''triggerlane_trigger_failures_total'' [(''trigger'', rg_name r)]) s))
       (\<lambda>record s. (Ok (Inr record), s))"

definition lane_error :: "('b, 'l, 'e) broker_api \<Rightarrow> worklane_job \<Rightarrow> string \<Rightarrow> 'e" where
  "lane_error api job e = broker_error api (''invalid worklane lane '' @ debug_str (job_lane job) @ '': '' @ e)"

definition begin_trigger ::
  "('b, 'l, 'e, 'q) trigger_runtime \<Rightarrow> event_envelope \<Rightarrow> registered_trigger \<Rightarrow> ('b, 'q) rt_state
     \<Rightarrow> (worklane_job \<times> nat \<times> nat + (string + dead_trigger_record, runtime_error) result) \<times> ('b, 'q) rt_state" where
  "begin_trigger rt event r s =
     (let s = emit (Counter ''triggerlane_trigger_matches_total'' [(''trigger'', rg_name r)]) s
      in case rg_bind r event of
           Err e \<Rightarrow> apfst Inr (failed_trigger rt event r (binding_error_to_string e) s)
         | Ok job \<Rightarrow>
             (case lane_try_from (rt_broker rt) (job_lane job) of
                Err e \<Rightarrow> apfst Inr (failed_trigger rt event r
                           (broker_error_to_string (rt_broker rt) (lane_error (rt_broker rt) job e)) s)
              | Ok _ \<Rightarrow> (Inl (job, 0, unat (max (max_submission_attempts (rt_options rt)) 1) - 1),
                           s\<lparr>st_observed_lanes := insert (job_lane job) (st_observed_lanes s)\<rparr>)))"

text \<open>One attempt: the sleep before it and the call of the broker. The lane was checked before.\<close>

definition submit_once ::
  "('b, 'l, 'e, 'q) trigger_runtime \<Rightarrow> event_envelope \<Rightarrow> registered_trigger \<Rightarrow> worklane_job \<Rightarrow> nat \<Rightarrow> ('b, 'q) rt_state
     \<Rightarrow> (string, 'e) result \<times> ('b, 'q) rt_state" where
  "submit_once rt event r job n s =
     (case lane_try_from (rt_broker rt) (job_lane job) of
        Err e \<Rightarrow> (Err (lane_error (rt_broker rt) job e), s)
      | Ok lane \<Rightarrow>
          (let delay = (if n > 0
                        then submission_backoff_delay (word_of_nat n) (submission_backoff (rt_options rt))
                        else 0);
               s = (if delay \<noteq> 0 then s\<lparr>st_slept := st_slept s @ [delay]\<rparr> else s)
           in case enqueue (rt_broker rt) (new_job_of lane job (unique_key (rt_uuid rt) event r)) (st_broker s) of
                (x, b) \<Rightarrow> (x, s\<lparr>st_broker := b\<rparr>)))"

definition continue_trigger ::
  "('b, 'l, 'e, 'q) trigger_runtime \<Rightarrow> event_envelope \<Rightarrow> registered_trigger \<Rightarrow> worklane_job \<Rightarrow> nat \<Rightarrow> nat \<Rightarrow> ('b, 'q) rt_state
     \<Rightarrow> (worklane_job \<times> nat \<times> nat + (string + dead_trigger_record, runtime_error) result) \<times> ('b, 'q) rt_state" where
  "continue_trigger rt event r job n left s =
     (case submit_once rt event r job n s of
        (Ok job_id, s) \<Rightarrow>
          (Inr (Ok (Inl job_id)), emit (Counter ''triggerlane_jobs_submitted_total'' [(''trigger'', rg_name r)]) s)
      | (Err e, s) \<Rightarrow>
          (case left of
             Suc left' \<Rightarrow> (Inl (job, Suc n, left'), s)
           | 0 \<Rightarrow> apfst Inr (failed_trigger rt event r (broker_error_to_string (rt_broker rt) e) s)))"

definition add_outcome :: "string + dead_trigger_record \<Rightarrow> handle_report \<Rightarrow> handle_report" where
  "add_outcome outcome report = (case outcome of
     Inl job_id \<Rightarrow> report\<lparr>hr_submitted := hr_submitted report @ [job_id]\<rparr>
   | Inr record \<Rightarrow> report\<lparr>hr_failed := hr_failed report @ [record]\<rparr>)"

text \<open>How the handling goes on after such a piece.\<close>

definition next_task ::
  "owner \<Rightarrow> event_envelope \<Rightarrow> registered_trigger \<Rightarrow> registered_trigger list \<Rightarrow> handle_report
     \<Rightarrow> (worklane_job \<times> nat \<times> nat + (string + dead_trigger_record, runtime_error) result) \<Rightarrow> label list \<times> task list" where
  "next_task owner event r rs report x = (case x of
     Inl (job, n, left) \<Rightarrow> ([], [Submitting owner event r rs report job n left])
   | Inr (Ok outcome) \<Rightarrow> ([], [Handling owner event rs (add_outcome outcome report)])
   | Inr (Err e) \<Rightarrow> (answer owner event (Err e), []))"

text \<open>After the handling: the delivery mark, or the next event of a replay.\<close>

definition after_handling ::
  "('s, 'b, 'l, 'e, 'q) server_config \<Rightarrow> owner \<Rightarrow> event_envelope \<Rightarrow> handle_report \<Rightarrow> task list" where
  "after_handling cf owner event report = (case owner of
     Replayer [] \<Rightarrow> []
   | Replayer (e # rest) \<Rightarrow> [start_handling cf (Replayer rest) e]
   | _ \<Rightarrow> [Marking owner event report])"

text \<open>Handing an event to the dispatcher, or waiting for room.\<close>

definition send_step ::
  "('s, 'b, 'l, 'e, 'q) server_config \<Rightarrow> event_envelope \<Rightarrow> channel \<Rightarrow> (label list \<times> channel) option" where
  "send_step cf event ch =
     (if \<not> ch_open ch then Some ([Answered event (Err (HandlerError ''dispatch channel closed''))], ch)
      else if length (ch_queue ch) < cf_capacity cf
      then Some ([Answered event (Ok handling_report_accepted)], ch\<lparr>ch_queue := ch_queue ch @ [event]\<rparr>)
      else None)"

text \<open>One step of a task: what it did, the tasks that replace it, the new state; \<open>None\<close> while it has to wait.\<close>

fun task_step ::
  "('s, 'b, 'l, 'e, 'q) server_config \<Rightarrow> task \<Rightarrow> ('s, 'b, 'q) server
     \<Rightarrow> (label list \<times> task list \<times> ('s, 'b, 'q) server) option" where
  "task_step cf (Looking event) (p, ch) =
     (case existing_event (cf_store cf) event (fst p) of
        Some _ \<Rightarrow> Some ([Answered event (Ok (case cf_handler cf of
                     IngestEventHandler \<Rightarrow> handling_report_new [] 0
                   | AcceptEventHandler \<Rightarrow> handling_report_accepted))], [], (p, ch))
      | None \<Rightarrow> Some ([], [Appending event], (p, ch)))"
| "task_step cf (Appending event) (p, ch) =
     (case on_store (es_append (cf_store cf) event) p of
        (Err e, p) \<Rightarrow> Some (answer Request event (Err e), [], (p, ch))
      | (Ok _, p) \<Rightarrow> Some ([Stored event],
           [case cf_handler cf of
              IngestEventHandler \<Rightarrow> start_handling cf Request event
            | AcceptEventHandler \<Rightarrow> Sending event], (p, ch)))"
| "task_step cf (Sending event) (p, ch) =
     (case send_step cf event ch of
        Some (ls, ch) \<Rightarrow> Some (ls, [], (p, ch))
      | None \<Rightarrow> Some ([], [Waiting event], (p, ch)))"
| "task_step cf (Waiting event) (p, ch) =
     (case send_step cf event ch of
        Some (ls, ch) \<Rightarrow> Some (ls, [], (p, ch))
      | None \<Rightarrow> None)"
| "task_step cf (Handling owner event [] report) (p, ch) =
     Some ([Handled event], after_handling cf owner event report,
           ((fst p, finish_handling (cf_runtime cf) event report (snd p)), ch))"
| "task_step cf (Handling owner event (r # rs) report) (p, ch) =
     (case begin_trigger (cf_runtime cf) event r (snd p) of
        (x, s) \<Rightarrow> (case next_task owner event r rs report x of (ls, ts) \<Rightarrow> Some (ls, ts, ((fst p, s), ch))))"
| "task_step cf (Submitting owner event r rs report job n left) (p, ch) =
     (case continue_trigger (cf_runtime cf) event r job n left (snd p) of
        (x, s) \<Rightarrow> (case next_task owner event r rs report x of (ls, ts) \<Rightarrow> Some (ls, ts, ((fst p, s), ch))))"
| "task_step cf (Marking owner event report) (p, ch) =
     (case on_store (es_mark_delivered (cf_store cf) (ev_id event)) p of
        (Err e, p) \<Rightarrow> Some (answer owner event (Err e), [], (p, ch))
      | (Ok _, p) \<Rightarrow> Some (Delivered (ev_id event) # answer owner event (Ok report), [], (p, ch)))"

text \<open>The guards of \<open>POST /events\<close>: the event a request is handled as, when it is handled.\<close>

definition admit ::
  "web_api \<Rightarrow> webhook_verifier option \<Rightarrow> event_id \<Rightarrow> timestamp \<Rightarrow> header_map \<Rightarrow> bytes \<Rightarrow> event_envelope option" where
  "admit web verifier new_id now headers bdy =
     (if length bdy > MAX_EVENT_BODY_BYTES then None
      else if (case verifier of Some v \<Rightarrow> \<not> verify web v headers bdy | None \<Rightarrow> False) then None
      else case incoming_from_slice web bdy of
             Err _ \<Rightarrow> None | Ok input \<Rightarrow> Some (post_events new_id now input))"

primrec task_owner :: "task \<Rightarrow> owner" where
  "task_owner (Looking _) = Request"
| "task_owner (Appending _) = Request"
| "task_owner (Sending _) = Request"
| "task_owner (Waiting _) = Request"
| "task_owner (Handling owner _ _ _) = owner"
| "task_owner (Submitting owner _ _ _ _ _ _ _) = owner"
| "task_owner (Marking owner _ _) = owner"

primrec task_event :: "task \<Rightarrow> event_envelope" where
  "task_event (Looking e) = e"
| "task_event (Appending e) = e"
| "task_event (Sending e) = e"
| "task_event (Waiting e) = e"
| "task_event (Handling _ e _ _) = e"
| "task_event (Submitting _ e _ _ _ _ _ _) = e"
| "task_event (Marking _ e _) = e"

text \<open>The event of a task that can be dropped: the request timeout, or a client that goes away, drops the future
  of a request where it waits, for room in a full channel or for the broker.\<close>

fun cancellable :: "task \<Rightarrow> event_envelope option" where
  "cancellable (Waiting e) = Some e"
| "cancellable (Submitting owner e _ _ _ _ _ _) = (if owner = Dispatcher then None else Some e)"
| "cancellable _ = None"

text \<open>The two routes of a replay, and the events they read from the store before they handle the first.\<close>

datatype replay_request = ReplayById event_id | ReplayRange timestamp timestamp replay_filter

definition replayed_events :: "'s event_store_ops \<Rightarrow> 's \<Rightarrow> replay_request \<Rightarrow> event_envelope list" where
  "replayed_events es store q = (case q of
     ReplayById i \<Rightarrow> (case es_get es i store of Some event \<Rightarrow> [event] | None \<Rightarrow> [])
   | ReplayRange start stop f \<Rightarrow> preview_range es store start stop f)"

subsection \<open>The server as a step relation\<close>

text \<open>A request that is dropped while it waits for the broker may have been dropped before the broker saw the job
  (\<open>cancel\<close>) or after (\<open>cancel_sent\<close>).\<close>

type_synonym ('s, 'b, 'q) server_state = "('s, 'b, 'q) server \<times> task list"

inductive server_step ::
  "('s, 'b, 'l, 'e, 'q) server_config \<Rightarrow> ('s, 'b, 'q) server_state \<Rightarrow> label list \<Rightarrow> ('s, 'b, 'q) server_state \<Rightarrow> bool"
  for cf where
  task: "task_step cf t sv = Some (ls, ts, sv') \<Longrightarrow>
     server_step cf (sv, xs @ t # ys) ls (sv', xs @ ts @ ys)"
| receive: "admit (cf_web cf) (cf_verifier cf) i now headers bdy = Some event \<Longrightarrow>
     server_step cf (sv, tasks) [Received event] (sv, tasks @ [Looking event])"
| dispatch: "ch_queue ch = event # rest \<Longrightarrow> \<forall>t \<in> set tasks. task_owner t \<noteq> Dispatcher \<Longrightarrow>
     server_step cf ((p, ch), tasks) [Dispatched event]
       ((p, ch\<lparr>ch_queue := rest\<rparr>), tasks @ [start_handling cf Dispatcher event])"
| replay: "replayed_events (cf_store cf) (fst p) q = event # rest \<Longrightarrow>
     server_step cf ((p, ch), tasks) [Replayed (event # rest)]
       ((p, ch), tasks @ [start_handling cf (Replayer rest) event])"
| cancel: "cancellable t = Some event \<Longrightarrow>
     server_step cf (sv, xs @ t # ys) [Cancelled event] (sv, xs @ ys)"
| cancel_sent: "cancellable (Submitting owner event r rs report job n left) = Some event \<Longrightarrow>
     submit_once (cf_runtime cf) event r job n s = (x, s') \<Longrightarrow>
     server_step cf (((st, s), ch), xs @ Submitting owner event r rs report job n left # ys) [Cancelled event]
       (((st, s'), ch), xs @ ys)"
| maintain: "maintenance_tick (cf_runtime cf) (cf_store cf) enumerate_lanes (cf_policy cf) now p = (r, p') \<Longrightarrow>
     server_step cf ((p, ch), tasks) [] ((p', ch), tasks)"

inductive server_run ::
  "('s, 'b, 'l, 'e, 'q) server_config \<Rightarrow> ('s, 'b, 'q) server_state \<Rightarrow> label list \<Rightarrow> ('s, 'b, 'q) server_state \<Rightarrow> bool"
  for cf where
  refl: "server_run cf s [] s"
| step: "server_run cf s ls t \<Longrightarrow> server_step cf t ls' u \<Longrightarrow> server_run cf s (ls @ ls') u"

inductive_cases server_stepE: "server_step cf s ls s'"

end
