(* ===== verification/Server_Properties.thy ===== *)
theory Server_Properties
  imports Server
begin

text \<open>
  What the server guarantees under every interleaving of its tasks: the uninterrupted runs are the handlers
  of the HTTP surface, no stored event is lost before it is handled, a positive answer means that the event
  is stored; and what it does not guarantee, that a key is stored once.
\<close>

subsection \<open>Runs\<close>

lemma server_run_trans: "server_run cf t ls' u \<Longrightarrow> server_run cf s ls t \<Longrightarrow> server_run cf s (ls @ ls') u"
proof (induction rule: server_run.induct)
  case (step t l1 v l2 u)
  then show ?case using server_run.step [of cf s "ls @ l1" v l2 u] by simp
qed simp

lemma server_run_single: "server_step cf s ls t \<Longrightarrow> server_run cf s ls t"
  using server_run.step [OF server_run.refl] by fastforce

lemma server_run_then_task:
  assumes "server_run cf s ls (sv, [t])" and "task_step cf t sv = Some (ls', ts, sv')"
  shows "server_run cf s (ls @ ls') (sv', ts)"
  using server_run.step [OF assms(1) server_step.task [where xs = "[]" and ys = "[]", OF assms(2), simplified]] .

text \<open>What the pieces of a trigger leave to do.\<close>

lemma next_task_result:
  assumes "next_task ow e r rs rep x = (ls, ts)"
  shows "(\<forall>t \<in> set ts. (\<exists>job n left. t = Submitting ow e r rs rep job n left) \<or> (\<exists>rep'. t = Handling ow e rs rep'))
     \<and> (ls = [] \<and> ts \<noteq> [] \<or> (\<exists>y. ls = answer ow e (Err y)) \<and> ts = [])"
  using assms by (auto simp: next_task_def split: sum.splits result.splits)

lemma after_handling_simps [simp]:
  "after_handling cf Request e rep = [Marking Request e rep]" "after_handling cf Dispatcher e rep = [Marking Dispatcher e rep]"
  "after_handling cf (Replayer []) e rep = []"
  "after_handling cf (Replayer (x # xs)) e rep = [start_handling cf (Replayer xs) x]"
  by (simp_all add: after_handling_def)

lemma owner_cases:
  obtains "ow = Request" | "ow = Dispatcher" | "ow = Replayer []" | x xs where "ow = Replayer (x # xs)"
  by (metis neq_Nil_conv owner.exhaust)

text \<open>The body of the handling loop is its pieces, one after the other.\<close>

definition finish_trigger ::
  "('b, 'l, 'e, 'q) trigger_runtime \<Rightarrow> event_envelope \<Rightarrow> registered_trigger \<Rightarrow> (string, 'e) result \<times> ('b, 'q) rt_state
     \<Rightarrow> (string + dead_trigger_record, runtime_error) result \<times> ('b, 'q) rt_state" where
  "finish_trigger rt e r x = (case x of
     (Ok job_id, s) \<Rightarrow> (Ok (Inl job_id), emit (Counter ''triggerlane_jobs_submitted_total'' [(''trigger'', rg_name r)]) s)
   | (Err y, s) \<Rightarrow> failed_trigger rt e r (broker_error_to_string (rt_broker rt) y) s)"

lemma handle_one_pieces:
  assumes "handle_one rt e r s = (res, s')"
  obtains (at_once) "begin_trigger rt e r s = (Inr res, s')"
  | (submit) job n left lane s1 where "begin_trigger rt e r s = (Inl (job, n, left), s1)"
      "lane_try_from (rt_broker rt) (job_lane job) = Ok lane"
      "finish_trigger rt e r (submit_attempts rt (new_job_of lane job (unique_key (rt_uuid rt) e r)) n left s1) = (res, s')"
proof (cases "rg_bind r e")
  case (Err x)
  with assms at_once show thesis by (simp add: handle_one_def begin_trigger_def failed_trigger_def Let_def)
next
  case (Ok job)
  show thesis
  proof (cases "lane_try_from (rt_broker rt) (job_lane job)")
    case (Err x)
    with Ok assms at_once show thesis
      by (simp add: handle_one_def begin_trigger_def failed_trigger_def enqueue_with_retries_def lane_error_def Let_def)
  next
    case lane: (Ok lane)
    let ?l = "unat (max (max_submission_attempts (rt_options rt)) 1) - 1"
    let ?s1 = "(emit (Counter ''triggerlane_trigger_matches_total'' [(''trigger'', rg_name r)]) s)
        \<lparr>st_observed_lanes := insert (job_lane job) (st_observed_lanes s)\<rparr>"
    let ?a = "submit_attempts rt (new_job_of lane job (unique_key (rt_uuid rt) e r)) 0 ?l ?s1"
    have "begin_trigger rt e r s = (Inl (job, 0, ?l), ?s1)" using Ok lane by (simp add: begin_trigger_def Let_def)
    moreover have "finish_trigger rt e r ?a = (res, s')"
      using Ok lane assms by (cases ?a; cases "fst ?a")
        (simp_all add: handle_one_def finish_trigger_def failed_trigger_def enqueue_with_retries_def Let_def)
    ultimately show thesis using submit lane by blast
  qed
qed

lemma submitting_run:
  assumes "lane_try_from (rt_broker (cf_runtime cf)) (job_lane job) = Ok lane"
    and "finish_trigger (cf_runtime cf) e r (submit_attempts (cf_runtime cf)
       (new_job_of lane job (unique_key (rt_uuid (cf_runtime cf)) e r)) n left s) = (res, s')"
    and "next_task ow e r rs rep (Inr res) = (ls, ts)"
  shows "server_run cf (((st, s), ch), [Submitting ow e r rs rep job n left]) ls (((st, s'), ch), ts)"
  using assms(2)
proof (induction left arbitrary: n s)
  case 0
  obtain x s1 where o: "submit_once (cf_runtime cf) e r job n s = (x, s1)" by force
  with 0 assms(1) have "finish_trigger (cf_runtime cf) e r (x, s1) = (res, s')"
    by (cases x) (auto simp: submit_once_def submit_attempts.simps Let_def split: prod.splits result.splits)
  with o have "continue_trigger (cf_runtime cf) e r job n 0 s = (Inr res, s')"
    by (cases x) (simp_all add: continue_trigger_def finish_trigger_def)
  with assms(3) server_run_then_task [OF server_run.refl, of cf "Submitting ow e r rs rep job n 0" "((st, s), ch)"]
  show ?case by simp
next
  case (Suc left)
  let ?nj = "new_job_of lane job (unique_key (rt_uuid (cf_runtime cf)) e r)"
  obtain x s1 where o: "submit_once (cf_runtime cf) e r job n s = (x, s1)" by force
  show ?case
  proof (cases x)
    case (Ok i)
    with Suc.prems o assms(1) have "finish_trigger (cf_runtime cf) e r (Ok i, s1) = (res, s')"
      by (auto simp: submit_once_def submit_attempts.simps Let_def split: prod.splits result.splits)
    with o Ok have "continue_trigger (cf_runtime cf) e r job n (Suc left) s = (Inr res, s')"
      by (simp add: continue_trigger_def finish_trigger_def)
    with assms(3) server_run_then_task [OF server_run.refl, of cf "Submitting ow e r rs rep job n (Suc left)" "((st, s), ch)"]
    show ?thesis by simp
  next
    case (Err y)
    with Suc.prems o assms(1)
    have "finish_trigger (cf_runtime cf) e r (submit_attempts (cf_runtime cf) ?nj (Suc n) left s1) = (res, s')"
      by (simp add: submit_once_def submit_attempts.simps [of _ _ n] Let_def split: prod.splits result.splits)
    note rest = Suc.IH [OF this]
    from o Err have "task_step cf (Submitting ow e r rs rep job n (Suc left)) ((st, s), ch)
        = Some ([], [Submitting ow e r rs rep job (Suc n) left], ((st, s1), ch))"
      by (simp add: continue_trigger_def next_task_def)
    from server_run_trans [OF rest server_run_then_task [OF server_run.refl this]] show ?thesis by simp
  qed
qed

lemma trigger_run:
  assumes "handle_one (cf_runtime cf) e r s = (res, s')" and "next_task ow e r rs rep (Inr res) = (ls, ts)"
  shows "server_run cf (((st, s), ch), [Handling ow e (r # rs) rep]) ls (((st, s'), ch), ts)"
  using assms(1)
proof (cases rule: handle_one_pieces)
  case at_once
  with assms(2) server_run_then_task [OF server_run.refl, of cf "Handling ow e (r # rs) rep" "((st, s), ch)"]
  show ?thesis by simp
next
  case (submit job n left lane s1)
  then have "task_step cf (Handling ow e (r # rs) rep) ((st, s), ch)
      = Some ([], [Submitting ow e r rs rep job n left], ((st, s1), ch))" by (simp add: next_task_def)
  from server_run_trans [OF submitting_run [OF submit(2,3) assms(2)] server_run_then_task [OF server_run.refl this]]
  show ?thesis by simp
qed

lemma handle_split:
  "handle rt e s =
     and_then (handle_loop rt e (matching (rt_registry rt) e) no_report s)
       (\<lambda>report s. (Ok report, finish_handling rt e report s))"
  by (simp add: handle_def finish_handling_def no_report_def Let_def)

lemma handling_run:
  "handle_loop (cf_runtime cf) e rs rep s = (r, s') \<Longrightarrow>
     (case r of
        Ok rep' \<Rightarrow> server_run cf (((st, s), ch), [Handling ow e rs rep]) [] (((st, s'), ch), [Handling ow e [] rep'])
      | Err x \<Rightarrow> server_run cf (((st, s), ch), [Handling ow e rs rep]) (answer ow e (Err x)) (((st, s'), ch), []))"
proof (induction rs arbitrary: rep s)
  case Nil
  then show ?case by (auto intro: server_run.refl)
next
  case (Cons t rs)
  obtain r1 s1 where h: "handle_one (cf_runtime cf) e t s = (r1, s1)" by force
  show ?case
  proof (cases r1)
    case (Err x)
    with h Cons.prems have "r = Err x" "s' = s1" by simp_all
    with trigger_run [OF h, of ow rs rep "answer ow e (Err x)" "[]"] Err show ?thesis by (simp add: next_task_def)
  next
    case (Ok oc)
    have first: "server_run cf (((st, s), ch), [Handling ow e (t # rs) rep]) [] (((st, s1), ch), [Handling ow e rs (add_outcome oc rep)])"
      using trigger_run [OF h, of ow rs rep "[]" "[Handling ow e rs (add_outcome oc rep)]"] Ok by (simp add: next_task_def)
    from Ok h Cons.prems have "handle_loop (cf_runtime cf) e rs (add_outcome oc rep) s1 = (r, s')"
      by (simp add: add_outcome_def)
    from Cons.IH [OF this] show ?thesis
      by (cases r) (auto dest: server_run_trans [OF _ first])
  qed
qed

lemma handle_run:
  assumes "handle (cf_runtime cf) e s = (r, s')"
  shows "case r of
      Ok rep \<Rightarrow> server_run cf (((st, s), ch), [start_handling cf ow e]) [Handled e]
         (((st, s'), ch), after_handling cf ow e rep)
    | Err x \<Rightarrow> server_run cf (((st, s), ch), [start_handling cf ow e]) (answer ow e (Err x)) (((st, s'), ch), [])"
proof -
  obtain r1 s1 where l: "handle_loop (cf_runtime cf) e (matching (rt_registry (cf_runtime cf)) e) no_report s = (r1, s1)"
    by force
  note run = handling_run [OF l, of st ch ow, folded start_handling_def]
  show ?thesis
  proof (cases r1)
    case (Err x)
    with l assms have "r = Err x" "s' = s1" by (simp_all add: handle_split)
    with run Err show ?thesis by simp
  next
    case (Ok rep)
    with l assms have "r = Ok rep" "s' = finish_handling (cf_runtime cf) e rep s1" by (simp_all add: handle_split)
    with run Ok show ?thesis by (auto dest: server_run_then_task)
  qed
qed

lemma marking_run:
  assumes "on_store (es_mark_delivered (cf_store cf) (ev_id e)) q = (r, q')"
  shows "server_run cf ((q, ch), [Marking Request e rep])
     (case r of Ok _ \<Rightarrow> Delivered (ev_id e) # answer Request e (Ok rep) | Err x \<Rightarrow> answer Request e (Err x)) ((q', ch), [])"
  using server_run_then_task [OF server_run.refl, of cf "Marking Request e rep" "(q, ch)"] assms by (cases r) simp_all

text \<open>A new event from its append on, in the synchronous server.\<close>

lemma appending_run_sync:
  assumes "cf_handler cf = IngestEventHandler" and "existing_event (cf_store cf) e (fst p) = None"
    and "ingest (cf_runtime cf) (cf_store cf) e p = (r, p')"
  shows "\<exists>ls. server_run cf ((p, ch), [Appending e]) ls ((p', ch), [])
     \<and> set (answer Request e (case r of Ok rep \<Rightarrow> Ok (ir_handle rep) | Err x \<Rightarrow> Err x)) \<subseteq> set ls"
proof -
  note task = server_run_then_task [OF server_run.refl, of cf _ "(_, ch)", unfolded append_Nil]
  obtain r1 p1 where a: "on_store (es_append (cf_store cf) e) p = (r1, p1)"
    by (cases "on_store (es_append (cf_store cf) e) p") blast
  show ?thesis
  proof (cases r1)
    case (Err x)
    with a assms have "r = Err x" "p' = p1" by (simp_all add: ingest_def)
    with task [of "Appending e" p] a Err show ?thesis by (intro exI [of _ "answer Request e (Err x)"]) simp
  next
    case (Ok u)
    from task [of "Appending e" p] a Ok assms(1)
    have r1: "server_run cf ((p, ch), [Appending e]) [Stored e] ((p1, ch), [start_handling cf Request e])" by simp
    obtain r2 s2 where h: "handle (cf_runtime cf) e (snd p1) = (r2, s2)" by force
    note run2 = handle_run [OF h, of "fst p1" ch Request, unfolded after_handling_def, simplified]
    show ?thesis
    proof (cases r2)
      case (Err x)
      with a Ok h assms have r: "r = Err x" "p' = (fst p1, s2)" by (simp_all add: ingest_def on_runtime_def)
      from run2 Err have "server_run cf ((p1, ch), [start_handling cf Request e]) (answer Request e (Err x)) ((p', ch), [])"
        by (simp add: r)
      from server_run_trans [OF this r1] show ?thesis
        by (intro exI [of _ "[Stored e] @ answer Request e (Err x)"]) (auto simp: r)
    next
      case r2: (Ok rep)
      let ?q = "(fst p1, s2)"
      from run2 r2 have "server_run cf ((p1, ch), [start_handling cf Request e]) [Handled e] ((?q, ch), [Marking Request e rep])"
        by simp
      from server_run_trans [OF this r1]
      have run3: "server_run cf ((p, ch), [Appending e]) [Stored e, Handled e] ((?q, ch), [Marking Request e rep])" by simp
      obtain r3 p3 where m: "on_store (es_mark_delivered (cf_store cf) (ev_id e)) ?q = (r3, p3)"
        by (cases "on_store (es_mark_delivered (cf_store cf) (ev_id e)) ?q") blast
      from a Ok h r2 m assms have "p' = p3" "(case r of Ok rep \<Rightarrow> Ok (ir_handle rep) | Err x \<Rightarrow> Err x)
          = (case r3 of Ok _ \<Rightarrow> Ok rep | Err x \<Rightarrow> Err x)"
        by (cases r3; auto simp: ingest_def on_runtime_def)+
      with server_run_trans [OF marking_run [OF m] run3] show ?thesis
        by (cases r3) (auto intro!: exI)
    qed
  qed
qed

text \<open>The same in the asynchronous server, when the channel has room or is closed.\<close>

lemma appending_run_async:
  assumes "cf_handler cf = AcceptEventHandler" and "existing_event (cf_store cf) e (fst p) = None"
    and "handle_event (cf_runtime cf) (cf_store cf) AcceptEventHandler e (p, ch) = (r, sv')"
    and "ch_open ch \<longrightarrow> length (ch_queue ch) < cf_capacity cf"
  shows "\<exists>ls. server_run cf ((p, ch), [Appending e]) ls (sv', []) \<and> Answered e r \<in> set ls"
proof -
  note task = server_run_then_task [OF server_run.refl, of cf _ "(_, ch)", unfolded append_Nil]
  obtain r1 p1 where a: "on_store (es_append (cf_store cf) e) p = (r1, p1)"
    by (cases "on_store (es_append (cf_store cf) e) p") blast
  show ?thesis
  proof (cases r1)
    case (Err x)
    with a assms(2,3) have "sv' = (p1, ch)" "answer Request e (Err x) = [Answered e r]"
      by (simp_all add: handle_event_def accept_def answer_def)
    with task [of "Appending e" p] a Err show ?thesis by (intro exI [of _ "[Answered e r]"]) simp
  next
    case (Ok u)
    from task [of "Appending e" p] a Ok assms(1)
    have run: "server_run cf ((p, ch), [Appending e]) [Stored e] ((p1, ch), [Sending e])" by simp
    have ts: "task_step cf (Sending e) (p1, ch) = Some ([Answered e r], [], sv')"
      using a Ok assms(2-4) by (auto simp: handle_event_def accept_def send_def send_step_def split: if_splits)
    from server_run_then_task [OF run ts] show ?thesis by (intro exI conjI, assumption) simp
  qed
qed

text \<open>The step relation agrees with the handlers. Whatever \<open>handle_event\<close> does with an event, storing,
  handling, marking, sending it to the dispatcher or failing on the way, is what the task of the request does
  when nothing runs in between: same store, broker, queue and channel, and the same answer.\<close>

theorem handlers_are_runs:
  assumes "handle_event (cf_runtime cf) (cf_store cf) (cf_handler cf) e (p, ch) = (r, sv')"
    and "ch_open ch \<longrightarrow> length (ch_queue ch) < cf_capacity cf"
  shows "\<exists>ls. server_run cf ((p, ch), [Looking e]) ls (sv', []) \<and> Answered e r \<in> set ls"
proof (cases "existing_event (cf_store cf) e (fst p)")
  case (Some x)
  then have "sv' = (p, ch)" "r = Ok (case cf_handler cf of
       IngestEventHandler \<Rightarrow> handling_report_new [] 0 | AcceptEventHandler \<Rightarrow> handling_report_accepted)"
    using assms(1) by (auto simp: handle_event_def ingest_def accept_def split: event_handler.splits)
  with Some have "task_step cf (Looking e) (p, ch) = Some ([Answered e r], [], sv')" by simp
  from server_run_then_task [OF server_run.refl this] show ?thesis by (intro exI conjI, assumption) simp
next
  case None
  have look: "server_run cf ((p, ch), [Looking e]) [] ((p, ch), [Appending e])"
    using None server_run_then_task [OF server_run.refl, of cf "Looking e" "(p, ch)"] by simp
  show ?thesis
  proof (cases "cf_handler cf")
    case IngestEventHandler
    obtain ri p' where i: "ingest (cf_runtime cf) (cf_store cf) e p = (ri, p')"
      by (cases "ingest (cf_runtime cf) (cf_store cf) e p") blast
    obtain ls where ls: "server_run cf ((p, ch), [Appending e]) ls ((p', ch), [])"
      "set (answer Request e (case ri of Ok rep \<Rightarrow> Ok (ir_handle rep) | Err x \<Rightarrow> Err x)) \<subseteq> set ls"
      using appending_run_sync [OF IngestEventHandler None i] by blast
    from i IngestEventHandler assms(1) have "sv' = (p', ch)"
      "answer Request e (case ri of Ok rep \<Rightarrow> Ok (ir_handle rep) | Err x \<Rightarrow> Err x) = [Answered e r]"
      by (cases ri; auto simp: handle_event_def answer_def)+
    with ls server_run_trans [OF ls(1) look] show ?thesis by auto
  next
    case AcceptEventHandler
    with appending_run_async [OF AcceptEventHandler None _ assms(2)] assms(1) obtain ls where
      ls: "server_run cf ((p, ch), [Appending e]) ls (sv', [])" "Answered e r \<in> set ls" by auto
    from server_run_trans [OF ls(1) look] ls(2) show ?thesis by auto
  qed
qed

text \<open>A small server for concrete runs: no triggers, the file store on a fresh disk.\<close>

definition demo_config ::
  "event_handler \<Rightarrow> (file_event_store, nat \<times> (string \<times> string) list, string, string, in_memory_queue) server_config"
where
  "demo_config h =
     \<lparr>cf_runtime = demo_runtime [] (im_queue (\<lambda>_. Ok [])), cf_store = fe_store blank_codecs, cf_handler = h,
      cf_capacity = 4, cf_web = demo_web None, cf_verifier = None,
      cf_policy = unbounded\<lparr>delivered_grace := Some 0\<rparr>\<rparr>"

definition demo_pipeline ::
  "event_envelope list \<Rightarrow> (file_event_store, nat \<times> (string \<times> string) list, in_memory_queue) pipeline" where
  "demo_pipeline es = (blank_store es [], rt_new (0, []) [])"

definition demo_channel :: channel where
  "demo_channel = \<lparr>ch_queue = [], ch_open = True\<rparr>"

theorem handlers_are_runs_witness:
  "\<exists>ls r sv. server_run (demo_config AcceptEventHandler) ((demo_pipeline [], demo_channel), [Looking demo_event]) ls (sv, [])
     \<and> Answered demo_event r \<in> set ls"
proof -
  let ?cf = "demo_config AcceptEventHandler"
  obtain r sv where h: "handle_event (cf_runtime ?cf) (cf_store ?cf) (cf_handler ?cf) demo_event
      (demo_pipeline [], demo_channel) = (r, sv)"
    by (cases "handle_event (cf_runtime ?cf) (cf_store ?cf) (cf_handler ?cf) demo_event (demo_pipeline [], demo_channel)")
      blast
  have "ch_open demo_channel \<longrightarrow> length (ch_queue demo_channel) < cf_capacity ?cf"
    by (simp add: demo_channel_def demo_config_def)
  from handlers_are_runs [OF h this] show ?thesis by blast
qed

subsection \<open>No event is lost\<close>

definition marking_ids :: "task list \<Rightarrow> event_id set" where
  "marking_ids ts = {ev_id e | ow e rep. Marking ow e rep \<in> set ts}"

lemma marking_ids_simps [simp]:
  "marking_ids [] = {}" "marking_ids (xs @ ys) = marking_ids xs \<union> marking_ids ys"
  "marking_ids (t # ts) = (case t of Marking ow e rep \<Rightarrow> {ev_id e} | _ \<Rightarrow> {}) \<union> marking_ids ts"
  by (auto simp: marking_ids_def split: task.splits)

lemma marking_ids_start [simp]: "marking_ids [start_handling cf ow e] = {}"
  by (simp add: start_handling_def)

lemma marking_ids_next: "next_task ow e r rs rep x = (ls, ts) \<Longrightarrow> marking_ids ts = {}"
  by (auto simp: next_task_def split: sum.splits result.splits)

lemma marking_ids_after: "marking_ids (after_handling cf ow e rep) \<subseteq> {ev_id e}"
  by (rule owner_cases [of ow]) (simp_all add: start_handling_def)

definition safe_in ::
  "'s event_store_ops \<Rightarrow> ('s \<Rightarrow> event_id set) \<Rightarrow> event_envelope \<Rightarrow> ('s, 'b, 'q) server_state \<Rightarrow> bool" where
  "safe_in ops delivered e s \<longleftrightarrow>
     finite (delivered (fst (fst (fst s)))) \<and> e \<in> set (es_all ops (fst (fst (fst s))))
     \<and> ev_id e \<notin> delivered (fst (fst (fst s))) \<and> ev_id e \<notin> marking_ids (snd s)"

lemma maintenance_store:
  assumes "maintenance_tick rt es enum p now q = (r, q')"
  shows "fst q' = fst q \<or> (\<exists>x. es_enforce_retention es p now (fst q) = (x, fst q'))"
  using assms by (auto simp: maintenance_tick_def Let_def split: if_splits prod.splits result.splits)

context event_store
begin

lemma task_step_safe:
  assumes "task_step cf t sv = Some (ls, ts, sv')" and "cf_store cf = ops"
    and "safe_in ops delivered e (sv, xs @ t # ys)"
  shows "safe_in ops delivered e (sv', xs @ ts @ ys) \<or> (\<exists>e'. ev_id e' = ev_id e \<and> Handled e' \<in> set ls)"
proof -
  obtain p ch where sv: "sv = (p, ch)" by (cases sv) blast
  have keep: ?thesis if "fst (fst sv') = fst p" "marking_ids ts = {}"
    using assms(3) that by (simp add: safe_in_def sv)
  show ?thesis
  proof (cases t)
    case (Appending a)
    obtain r st where a: "es_append ops a (fst p) = (r, st)" by force
    from append_all [OF a] assms a Appending show ?thesis
      by (cases r) (auto simp: sv on_store_def safe_in_def start_handling_def split: event_handler.splits)
  next
    case (Marking ow a rep)
    obtain r st where m: "es_mark_delivered ops (ev_id a) (fst p) = (r, st)" by force
    from mark_delivered_state [OF m] assms m Marking show ?thesis
      by (cases r) (auto simp: sv on_store_def safe_in_def)
  next
    case (Handling ow a rs rep)
    show ?thesis
    proof (cases rs)
      case Nil
      with Handling assms marking_ids_after [of cf ow a rep] show ?thesis by (auto simp: sv safe_in_def)
    next
      case (Cons b bs)
      with Handling assms show ?thesis
        by (intro keep) (auto simp: sv dest: marking_ids_next split: prod.splits)
    qed
  next
    case (Submitting ow a b bs rep job n left)
    with assms show ?thesis by (intro keep) (auto simp: sv dest: marking_ids_next split: prod.splits)
  next
    case (Looking a)
    with assms show ?thesis by (intro keep) (auto simp: sv split: option.splits)
  next
    case (Sending a)
    with assms show ?thesis by (intro keep) (auto simp: sv split: option.splits)
  next
    case (Waiting a)
    with assms show ?thesis by (intro keep) (auto simp: sv split: option.splits)
  qed
qed

lemma retention_safe:
  assumes "es_enforce_retention ops p now s = (r, s')" and "no_hard_bounds p" and "finite (delivered s)"
    and "e \<in> set (es_all ops s)" and "ev_id e \<notin> delivered s"
  shows "finite (delivered s') \<and> e \<in> set (es_all ops s') \<and> ev_id e \<notin> delivered s'"
proof -
  have kept: "e \<in> set (retain_events enc (es_all ops s) (delivered s) p now)"
    using assms by (intro retain_events_no_hard_bounds)
  show ?thesis
  proof (cases r)
    case (Ok n)
    with retention_Ok [of s p now n s'] assms(1,3)
    have ok: "es_all ops s' = retain_events enc (es_all ops s) (delivered s) p now" "delivered s' \<subseteq> delivered s" by simp_all
    from finite_subset [OF ok(2) assms(3)] ok(2) assms(5) kept show ?thesis unfolding ok(1) by blast
  next
    case (Err x)
    with retention_Err [of p now s x s'] assms(1) have err: "delivered s' = delivered s"
      "es_all ops s' \<in> {es_all ops s, retain_events enc (es_all ops s) (delivered s) p now}" by simp_all
    from err(2) kept assms(4) have "e \<in> set (es_all ops s')" by force
    with assms(3,5) show ?thesis unfolding err(1) by blast
  qed
qed

lemma server_step_safe:
  assumes "server_step cf s ls s'" and "cf_store cf = ops" and "no_hard_bounds (cf_policy cf)"
    and "safe_in ops delivered e s"
  shows "safe_in ops delivered e s' \<or> (\<exists>e'. ev_id e' = ev_id e \<and> Handled e' \<in> set ls)"
  using assms(1)
proof (cases rule: server_step.cases)
  case (task t sv ts sv' xs ys)
  with assms task_step_safe show ?thesis by blast
next
  case (maintain en now p r p' ch tasks)
  from assms(4) maintain(1) have e: "finite (delivered (fst p))" "e \<in> set (es_all ops (fst p))"
    "ev_id e \<notin> delivered (fst p)" "ev_id e \<notin> marking_ids tasks" by (simp_all add: safe_in_def)
  from maintenance_store [OF maintain(4)] show ?thesis
  proof
    assume "fst p' = fst p"
    with e maintain(3) show ?thesis by (simp add: safe_in_def)
  next
    assume "\<exists>x. es_enforce_retention (cf_store cf) (cf_policy cf) now (fst p) = (x, fst p')"
    then obtain x where "es_enforce_retention ops (cf_policy cf) now (fst p) = (x, fst p')" using assms(2) by auto
    from retention_safe [OF this assms(3) e(1-3)] e(4) maintain(3) show ?thesis by (simp add: safe_in_def)
  qed
qed (use assms(4) in \<open>auto simp: safe_in_def start_handling_def\<close>)

lemma server_run_safe:
  assumes "server_run cf s ls s'" and "cf_store cf = ops" and "no_hard_bounds (cf_policy cf)"
    and "safe_in ops delivered e s"
  shows "safe_in ops delivered e s' \<or> (\<exists>e'. ev_id e' = ev_id e \<and> Handled e' \<in> set ls)"
  using assms
proof (induction rule: server_run.induct)
  case (step s ls t ls' u)
  then show ?case using server_step_safe [of cf t ls' u e] by auto
qed simp

end

text \<open>No event is lost while the server runs. Without hard retention bounds, under every interleaving of
  requests, dispatches, replays and sweeps and whatever I/O or broker calls fail, an event that is stored and
  not yet delivered stays so until a handling of an event with its id has come to its end.\<close>

theorem no_event_lost:
  assumes "server_run cf s ls s'" and "cf_store cf = fe_store cs" and "no_hard_bounds (cf_policy cf)"
    and "finite (fe_delivered_set (fst (fst (fst s))))" and "e \<in> set (fe_undelivered (fst (fst (fst s))))"
    and "ev_id e \<notin> marking_ids (snd s)"
  shows "e \<in> set (fe_undelivered (fst (fst (fst s')))) \<or> (\<exists>e'. ev_id e' = ev_id e \<and> Handled e' \<in> set ls)"
  using fe.server_run_safe [OF assms(1-3), of e] assms(4-6)
  by (auto simp: safe_in_def fe_undelivered_def fe_store_laws)

theorem no_event_lost_witness:
  "\<exists>s' r. maintenance_tick (cf_runtime (demo_config IngestEventHandler)) (fe_store blank_codecs) (\<lambda>_. [])
        (cf_policy (demo_config IngestEventHandler)) 5 (demo_pipeline [demo_event]) = (r, fst (fst s'))
     \<and> server_run (demo_config IngestEventHandler) ((demo_pipeline [demo_event], demo_channel), []) [] s'
     \<and> demo_event \<in> set (fe_undelivered (fst (fst (fst s'))))"
proof -
  let ?cf = "demo_config IngestEventHandler" and ?p = "demo_pipeline [demo_event]"
  obtain r p' where tick: "maintenance_tick (cf_runtime ?cf) (cf_store ?cf) (\<lambda>_. []) (cf_policy ?cf) 5 ?p = (r, p')"
    using surjective_pairing by blast
  from server_step.maintain [OF this]
  have "server_run ?cf ((?p, demo_channel), []) ([] @ []) ((p', demo_channel), [])"
    by (rule server_run.step [OF server_run.refl])
  then have run: "server_run ?cf ((?p, demo_channel), []) [] ((p', demo_channel), [])" by simp
  have "demo_event \<in> set (fe_undelivered (fst p'))"
    using no_event_lost [OF run, of blank_codecs demo_event]
    by (simp add: demo_config_def no_hard_bounds_def unbounded_def demo_pipeline_def blank_store_def
          fe_undelivered_def fe_all_def jsonl_all_def)
  moreover have "cf_store ?cf = fe_store blank_codecs" by (simp add: demo_config_def)
  ultimately show ?thesis using run tick by (intro exI [of _ "((p', demo_channel), [])"] exI [of _ r]) simp
qed

subsection \<open>Answers\<close>

text \<open>What a task of a request has already done.\<close>

definition task_progress :: "event_handler \<Rightarrow> label list \<Rightarrow> task \<Rightarrow> bool" where
  "task_progress h ls t \<longleftrightarrow> (case t of
     Sending e \<Rightarrow> Stored e \<in> set ls \<and> h = AcceptEventHandler
   | Waiting e \<Rightarrow> Stored e \<in> set ls \<and> h = AcceptEventHandler
   | Handling ow e _ _ \<Rightarrow> ow = Request \<longrightarrow> Stored e \<in> set ls \<and> h = IngestEventHandler
   | Submitting ow e _ _ _ _ _ _ \<Rightarrow> ow = Request \<longrightarrow> Stored e \<in> set ls \<and> h = IngestEventHandler
   | Marking ow e _ \<Rightarrow> ow = Request \<longrightarrow> Stored e \<in> set ls \<and> Handled e \<in> set ls \<and> h = IngestEventHandler
   | _ \<Rightarrow> True)"

text \<open>What backs a positive answer: the event is stored and, with the synchronous handler, handled and marked,
  with the asynchronous one, queued or dispatched; or it is a duplicate of an event that was stored before.\<close>

definition stored_event :: "event_envelope set \<Rightarrow> label list \<Rightarrow> event_envelope \<Rightarrow> bool" where
  "stored_event before ls x \<longleftrightarrow> x \<in> before \<or> Stored x \<in> set ls"

definition backed :: "event_handler \<Rightarrow> event_envelope set \<Rightarrow> label list \<Rightarrow> event_envelope list \<Rightarrow> event_envelope \<Rightarrow> bool" where
  "backed h before ls queue e \<longleftrightarrow>
     (Stored e \<in> set ls
        \<and> (h = IngestEventHandler \<longrightarrow> Handled e \<in> set ls \<and> Delivered (ev_id e) \<in> set ls)
        \<and> (h = AcceptEventHandler \<longrightarrow> e \<in> set queue \<or> Dispatched e \<in> set ls))
     \<or> (\<exists>k x. idempotency_key (ev_metadata e) = Some k \<and> idempotency_key (ev_metadata x) = Some k \<and> stored_event before ls x)"

definition answers_backed :: "event_handler \<Rightarrow> event_envelope set \<Rightarrow> label list \<Rightarrow> ('s, 'b, 'q) server_state \<Rightarrow> bool" where
  "answers_backed h before ls c \<longleftrightarrow>
     (\<forall>t \<in> set (snd c). task_progress h ls t)
     \<and> (\<forall>e rep. Answered e (Ok rep) \<in> set ls \<longrightarrow> backed h before ls (ch_queue (snd (fst c))) e)"

lemma task_progress_mono: "task_progress h ls t \<Longrightarrow> task_progress h (ls @ ls') t"
  by (auto simp: task_progress_def split: task.splits)

lemma backed_mono:
  assumes "backed h before ls q e" and "set q \<subseteq> set q' \<union> {x. Dispatched x \<in> set ls'}"
  shows "backed h before (ls @ ls') q' e"
  using assms unfolding backed_def stored_event_def set_append by blast

text \<open>Answers of a step are backed when its new answers are and the queue keeps what it holds, but for what is dispatched.\<close>

lemma answers_backed_step:
  assumes "answers_backed h before ls (sv, tasks)" and "\<forall>t \<in> set tasks'. t \<in> set tasks \<or> task_progress h (ls @ ls') t"
    and "set (ch_queue (snd sv)) \<subseteq> set (ch_queue (snd sv')) \<union> {x. Dispatched x \<in> set ls'}"
    and "\<And>e rep. Answered e (Ok rep) \<in> set ls' \<Longrightarrow> backed h before (ls @ ls') (ch_queue (snd sv')) e"
  shows "answers_backed h before (ls @ ls') (sv', tasks')"
  using assms backed_mono [OF _ assms(3)] task_progress_mono by (auto simp: answers_backed_def)

lemma task_step_backs:
  assumes "task_step cf t (p, ch) = Some (ls', ts, sv')" and "task_progress (cf_handler cf) ls t"
    and "\<forall>x \<in> set (es_all (cf_store cf) (fst p)). stored_event before ls x"
  shows "set (ch_queue ch) \<subseteq> set (ch_queue (snd sv'))"
    and "\<forall>t \<in> set ts. task_progress (cf_handler cf) (ls @ ls') t"
    and "Answered e (Ok rep) \<in> set ls' \<Longrightarrow> backed (cf_handler cf) before (ls @ ls') (ch_queue (snd sv')) e"
proof -
  let ?goal = "set (ch_queue ch) \<subseteq> set (ch_queue (snd sv')) \<and> (\<forall>t \<in> set ts. task_progress (cf_handler cf) (ls @ ls') t)
     \<and> (Answered e (Ok rep) \<in> set ls' \<longrightarrow> backed (cf_handler cf) before (ls @ ls') (ch_queue (snd sv')) e)"
  have ?goal
  proof (cases t)
    case (Looking a)
    show ?thesis
    proof (cases "existing_event (cf_store cf) a (fst p)")
      case None
      with Looking assms(1) show ?thesis by (auto simp: task_progress_def)
    next
      case (Some x)
      then obtain k where "idempotency_key (ev_metadata a) = Some k" "idempotency_key (ev_metadata x) = Some k"
        "x \<in> set (es_all (cf_store cf) (fst p))"
        by (auto simp: existing_event_def find_by_idempotency_key_def dest!: find_SomeD split: option.splits)
      with assms(3) have "backed (cf_handler cf) before (ls @ ls') q a" for q
        unfolding backed_def stored_event_def by auto
      with Some Looking assms(1) show ?thesis by auto
    qed
  next
    case (Appending a)
    with assms(1) show ?thesis
      by (auto simp: task_progress_def answer_def start_handling_def split: prod.splits result.splits event_handler.splits)
  next
    case (Sending a)
    with assms(1,2) show ?thesis
      by (auto simp: task_progress_def send_step_def backed_def split: if_splits)
  next
    case (Waiting a)
    with assms(1,2) show ?thesis
      by (auto simp: task_progress_def send_step_def backed_def split: if_splits)
  next
    case (Handling ow a rs report)
    show ?thesis
    proof (cases rs)
      case Nil
      with Handling assms(1,2) show ?thesis
        by (cases rule: owner_cases [of ow]) (auto simp: task_progress_def start_handling_def)
    next
      case (Cons b bs)
      with Handling assms(1,2) show ?thesis
        by (auto simp: task_progress_def answer_def dest!: next_task_result split: prod.splits if_splits)
    qed
  next
    case (Submitting ow a b bs report job n left)
    with assms(1,2) show ?thesis
      by (auto simp: task_progress_def answer_def dest!: next_task_result split: prod.splits if_splits)
  next
    case (Marking ow a report)
    with assms(1,2) show ?thesis
      by (auto simp: task_progress_def answer_def backed_def split: prod.splits result.splits if_splits)
  qed
  then show "set (ch_queue ch) \<subseteq> set (ch_queue (snd sv'))" "\<forall>t \<in> set ts. task_progress (cf_handler cf) (ls @ ls') t"
    "Answered e (Ok rep) \<in> set ls' \<Longrightarrow> backed (cf_handler cf) before (ls @ ls') (ch_queue (snd sv')) e" by blast+
qed

text \<open>What a step can add to the file store is what it reports as stored.\<close>

lemma task_step_store:
  assumes "task_step cf t (p, ch) = Some (ls, ts, sv')" and "cf_store cf = fe_store cs"
  shows "set (fe_all (fst (fst sv'))) \<subseteq> set (fe_all (fst p)) \<union> {x. Stored x \<in> set ls}"
proof (cases t)
  case (Appending a)
  with assms fe_append_memory [of cs a "fst p"] show ?thesis
    by (auto simp: on_store_def fe_store_laws split: prod.splits result.splits)
next
  case (Marking ow a rep)
  with assms fe_mark_delivered_memory [of cs "ev_id a" "fst p"] show ?thesis
    by (auto simp: on_store_def fe_store_laws split: prod.splits result.splits)
next
  case (Handling ow a rs rep)
  with assms show ?thesis by (cases rs) (auto split: prod.splits)
qed (use assms in \<open>auto split: option.splits prod.splits\<close>)

lemma server_step_store:
  assumes "server_step cf c ls c'" and "cf_store cf = fe_store cs"
  shows "set (fe_all (fst (fst (fst c')))) \<subseteq> set (fe_all (fst (fst (fst c)))) \<union> {x. Stored x \<in> set ls}"
  using assms(1)
proof (cases rule: server_step.cases)
  case (task t sv ts sv' xs ys)
  with task_step_store [of cf t "fst sv" "snd sv" ls ts sv' cs] assms(2) show ?thesis by simp
next
  case (maintain en now p r p' ch tasks)
  from maintenance_store [OF maintain(4)] assms(2) maintain(1,3) show ?thesis
    by (auto simp: fe_store_laws dest!: fe_retention_subseq subseq_set)
qed auto

lemma server_step_backed:
  assumes "server_step cf c ls' c'" and "answers_backed (cf_handler cf) before ls c"
    and "\<forall>x \<in> set (es_all (cf_store cf) (fst (fst (fst c)))). stored_event before ls x"
  shows "answers_backed (cf_handler cf) before (ls @ ls') c'"
  using assms(1)
proof (cases rule: server_step.cases)
  case (task t sv ts sv' xs ys)
  obtain p ch where sv: "sv = (p, ch)" by (cases sv)
  have t: "task_progress (cf_handler cf) ls t" using assms(2) task(1) by (simp add: answers_backed_def)
  note backs = task_step_backs [OF task(3) [unfolded sv] t, of before]
  show ?thesis unfolding task(2)
    by (rule answers_backed_step [OF assms(2) [unfolded task(1)]]) (use backs assms(3) task(1) sv in auto)
next
  case (receive i now headers bdy event sv tasks)
  show ?thesis unfolding receive(2,3)
    by (rule answers_backed_step [OF assms(2) [unfolded receive(1)]]) (auto simp: task_progress_def)
next
  case (dispatch ch event rest tasks p)
  show ?thesis unfolding dispatch(2,3)
    by (rule answers_backed_step [OF assms(2) [unfolded dispatch(1)]])
       (use dispatch(4) in \<open>auto simp: task_progress_def start_handling_def\<close>)
next
  case (replay p q event rest ch tasks)
  show ?thesis unfolding replay(2,3)
    by (rule answers_backed_step [OF assms(2) [unfolded replay(1)]]) (auto simp: task_progress_def start_handling_def)
next
  case (cancel t event sv xs ys)
  show ?thesis unfolding cancel(2,3) by (rule answers_backed_step [OF assms(2) [unfolded cancel(1)]]) auto
next
  case (cancel_sent owner event r rs report job n left s x s' st ch xs ys)
  show ?thesis unfolding cancel_sent(2,3) by (rule answers_backed_step [OF assms(2) [unfolded cancel_sent(1)]]) auto
next
  case (maintain en now p r p' ch tasks)
  show ?thesis unfolding maintain(2,3) by (rule answers_backed_step [OF assms(2) [unfolded maintain(1)]]) auto
qed

lemma server_run_backed:
  assumes "server_run cf c0 ls c" and "snd c0 = []" and "cf_store cf = fe_store cs"
  shows "answers_backed (cf_handler cf) (set (fe_all (fst (fst (fst c0))))) ls c
     \<and> (\<forall>x \<in> set (fe_all (fst (fst (fst c)))). stored_event (set (fe_all (fst (fst (fst c0))))) ls x)"
  using assms
proof (induction rule: server_run.induct)
  case (refl c)
  then show ?case by (simp add: answers_backed_def stored_event_def)
next
  case (step c0 ls c ls' c')
  let ?E = "set (fe_all (fst (fst (fst c0))))"
  from step have IH: "answers_backed (cf_handler cf) ?E ls c" "\<forall>x \<in> set (fe_all (fst (fst (fst c)))). stored_event ?E ls x"
    by simp_all
  from server_step_backed [OF step.hyps(2) IH(1)] IH(2) step.prems(2)
  have "answers_backed (cf_handler cf) ?E (ls @ ls') c'" by (simp add: fe_store_laws)
  moreover have "\<forall>x \<in> set (fe_all (fst (fst (fst c')))). stored_event ?E (ls @ ls') x"
    using server_step_store [OF step.hyps(2) step.prems(2)] IH(2) unfolding stored_event_def set_append by blast
  ultimately show ?case ..
qed

text \<open>C21: a positive answer is backed. Under every interleaving, when the server has answered a post with success,
  then either the event has been stored and, with the synchronous handler, handled to the end and marked delivered,
  with the asynchronous one, put into the dispatch channel, from which it has been dispatched if it is not there any
  more; or the post carries an idempotency key, and an event with this key was in the store at the start or
  has been stored since.\<close>

theorem positive_answers_are_backed:
  assumes "server_run cf (sv, []) ls ((p', ch'), ts)" and "cf_store cf = fe_store cs" and "Answered e (Ok rep) \<in> set ls"
  shows "(Stored e \<in> set ls
        \<and> (cf_handler cf = IngestEventHandler \<longrightarrow> Handled e \<in> set ls \<and> Delivered (ev_id e) \<in> set ls)
        \<and> (cf_handler cf = AcceptEventHandler \<longrightarrow> e \<in> set (ch_queue ch') \<or> Dispatched e \<in> set ls))
     \<or> (\<exists>k x. idempotency_key (ev_metadata e) = Some k \<and> idempotency_key (ev_metadata x) = Some k
          \<and> (x \<in> set (fe_all (fst (fst sv))) \<or> Stored x \<in> set ls))"
proof -
  from server_run_backed [OF assms(1) _ assms(2)] assms(3)
  have "backed (cf_handler cf) (set (fe_all (fst (fst sv)))) ls (ch_queue ch') e" by (auto simp: answers_backed_def)
  then show ?thesis unfolding backed_def stored_event_def .
qed

lemma blank_append:
  "fe_append blank_codecs e (blank_store es []) =
     (Ok (), blank_store (es @ [e]) []\<lparr>fe_fs := empty_fs\<lparr>fs_data := (\<lambda>_. [])(0 := ''{}'' @ [newline]),
        fs_synced := (\<lambda>_. [])(0 := ''{}'' @ [newline])\<rparr>\<rparr>)"
  by (simp add: fe_append_def on_inner_def jsonl_append_def blank_codecs_def blank_store_def write_all_def
      sync_file_def attempt_def empty_fs_def)

theorem positive_answers_are_backed_witness:
  "\<exists>ls s'. server_run (demo_config AcceptEventHandler) ((demo_pipeline [], demo_channel), []) ls s'
     \<and> (\<exists>e rep. Answered e (Ok rep) \<in> set ls \<and> Stored e \<in> set ls)"
proof -
  let ?cf = "demo_config AcceptEventHandler" and ?e = "envelope_new (EventId 1) 0 Http ''event.demo'' []"
  have key: "idempotency_key (ev_metadata ?e) = None" by (simp add: envelope_new_def default_metadata_def)
  have "admit (cf_web ?cf) (cf_verifier ?cf) (EventId 1) 0 Map.empty ''event.demo'' = Some ?e"
    by (simp add: admit_def demo_config_def MAX_EVENT_BODY_BYTES_def demo_web_def post_events_def with_metadata_def
        envelope_new_def default_metadata_def)
  from server_run_single [OF server_step.receive [OF this, of "(demo_pipeline [], demo_channel)" "[]"]]
  have r1: "server_run ?cf ((demo_pipeline [], demo_channel), []) [Received ?e] ((demo_pipeline [], demo_channel), [Looking ?e])"
    by simp
  have "task_step ?cf (Looking ?e) (demo_pipeline [], demo_channel) = Some ([], [Appending ?e], (demo_pipeline [], demo_channel))"
    by (simp add: existing_event_def envelope_new_def default_metadata_def)
  note r2 = server_run_then_task [OF r1 this]
  obtain p' where "task_step ?cf (Appending ?e) (demo_pipeline [], demo_channel) = Some ([Stored ?e], [Sending ?e], (p', demo_channel))"
    by (simp add: demo_config_def demo_pipeline_def on_store_def fe_store_laws blank_append)
  note r3 = server_run_then_task [OF r2 this]
  have "task_step ?cf (Sending ?e) (p', demo_channel)
      = Some ([Answered ?e (Ok handling_report_accepted)], [], (p', demo_channel\<lparr>ch_queue := [?e]\<rparr>))"
    by (simp add: demo_config_def demo_channel_def send_step_def)
  note r4 = server_run_then_task [OF r3 this]
  have "Stored ?e \<in> set (((([Received ?e] @ []) @ [Stored ?e]) @ [Answered ?e (Ok handling_report_accepted)]))"
    using positive_answers_are_backed [OF r4, of blank_codecs ?e handling_report_accepted] key by (auto simp: demo_config_def)
  then show ?thesis by - (rule exI, rule exI, rule conjI, rule r4, rule exI, rule exI, rule conjI, simp_all)
qed

subsection \<open>Duplicates\<close>

text \<open>C27: concurrent posts can store one idempotency key twice. The lookup and the append are separate
  critical sections: when two posts with the same key both look it up before either is appended, both are
  stored (and both handled), so the uniqueness that one post at a time maintains is lost.\<close>

theorem concurrent_posts_store_duplicates:
  assumes "idempotency_key (ev_metadata e1) = Some k" and "idempotency_key (ev_metadata e2) = Some k"
    and "find_by_idempotency_key (fe_store cs) k st = None" and "cf_store cf = fe_store cs"
    and "fe_append cs e1 st = (Ok u, st1)" and "fe_append cs e2 st1 = (Ok v, st2)"
  shows "(\<exists>ts. server_run cf (((st, r), ch), [Looking e1, Looking e2]) [Stored e1, Stored e2] (((st2, r), ch), ts))
     \<and> \<not> keys_unique (fe_all st2)"
proof
  let ?s = "((st, r), ch)" and ?s1 = "((st1, r), ch)" and ?s2 = "((st2, r), ch)"
  let ?n = "\<lambda>e. case cf_handler cf of IngestEventHandler \<Rightarrow> start_handling cf Request e | AcceptEventHandler \<Rightarrow> Sending e"
  have l: "task_step cf (Looking e) ?s = Some ([], [Appending e], ?s)" if "e \<in> {e1, e2}" for e
    using that assms by (auto simp: existing_event_def)
  have a1: "task_step cf (Appending e1) ?s = Some ([Stored e1], [?n e1], ?s1)"
    and a2: "task_step cf (Appending e2) ?s1 = Some ([Stored e2], [?n e2], ?s2)"
    using assms by (simp_all add: on_store_def fe_store_laws)
  have "server_run cf (?s, [Looking e1, Looking e2]) [] (?s, [Appending e1, Looking e2])"
    using server_run_single [OF server_step.task [OF l [of e1], of "[]" "[Looking e2]"]] by simp
  from server_run.step [OF this server_step.task [OF l [of e2], of "[Appending e1]" "[]", simplified]]
  have "server_run cf (?s, [Looking e1, Looking e2]) [] (?s, [Appending e1, Appending e2])" by simp
  from server_run.step [OF this server_step.task [OF a1, of "[]" "[Appending e2]", simplified]]
  have "server_run cf (?s, [Looking e1, Looking e2]) [Stored e1] (?s1, [?n e1, Appending e2])" by simp
  from server_run.step [OF this server_step.task [OF a2, of "[?n e1]" "[]", simplified]]
  show "\<exists>ts. server_run cf (?s, [Looking e1, Looking e2]) [Stored e1, Stored e2] (?s2, ts)" by auto
  from fe_append_memory [OF assms(5)] fe_append_memory [OF assms(6)] assms(1,2)
  show "\<not> keys_unique (fe_all st2)" by (simp add: keys_unique_def)
qed

theorem concurrent_posts_store_duplicates_witness:
  "\<exists>ls s'. server_run (demo_config IngestEventHandler) ((demo_pipeline [], demo_channel),
       [Looking (demo_event\<lparr>ev_metadata := default_metadata\<lparr>idempotency_key := Some ''k''\<rparr>\<rparr>),
        Looking (demo_event\<lparr>ev_id := EventId 8, ev_metadata := default_metadata\<lparr>idempotency_key := Some ''k''\<rparr>\<rparr>)]) ls s'
     \<and> \<not> keys_unique (fe_all (fst (fst (fst s'))))"
proof -
  let ?e1 = "demo_event\<lparr>ev_metadata := default_metadata\<lparr>idempotency_key := Some ''k''\<rparr>\<rparr>"
  let ?e2 = "demo_event\<lparr>ev_id := EventId 8, ev_metadata := default_metadata\<lparr>idempotency_key := Some ''k''\<rparr>\<rparr>"
  obtain st1 where a1: "fe_append blank_codecs ?e1 (blank_store [] []) = (Ok (), st1)" by (simp add: blank_append)
  then have "st1 = snd (fe_append blank_codecs ?e1 (blank_store [] []))" by simp
  then have st1: "fs_script (fe_fs st1) = []" "js_file (fe_inner st1) = 0"
    unfolding blank_append by (simp_all add: blank_store_def empty_fs_def)
  obtain st2 where a2: "fe_append blank_codecs ?e2 st1 = (Ok (), st2)"
    using st1 by (simp add: fe_append_def on_inner_def jsonl_append_def blank_codecs_def write_all_def
        sync_file_def attempt_def)
  have "find_by_idempotency_key (fe_store blank_codecs) ''k'' (blank_store [] []) = None"
    by (simp add: find_by_idempotency_key_def fe_store_laws fe_all_def jsonl_all_def blank_store_def)
  from concurrent_posts_store_duplicates [OF _ _ this _ a1 a2, of "demo_config IngestEventHandler" "rt_new (0, []) []" demo_channel]
  show ?thesis by (fastforce simp: demo_config_def demo_pipeline_def)
qed

subsection \<open>Cancelled requests\<close>

text \<open>The events a task has to do with: a replay still has others to handle.\<close>

definition task_events :: "task \<Rightarrow> event_envelope set" where
  "task_events t = insert (task_event t) (case task_owner t of Replayer rest \<Rightarrow> set rest | _ \<Rightarrow> {})"

text \<open>An id is stranded when it is not delivered and no task and no entry of the dispatch channel has to do with it.\<close>

definition stranded :: "event_id \<Rightarrow> (file_event_store, 'b, 'q) server_state \<Rightarrow> bool" where
  "stranded i c \<longleftrightarrow> i \<notin> fe_delivered_set (fst (fst (fst c))) \<and> (\<forall>e \<in> set (ch_queue (snd (fst c))). ev_id e \<noteq> i)
     \<and> (\<forall>t \<in> set (snd c). \<forall>e \<in> task_events t. ev_id e \<noteq> i)"

lemma task_events_start [simp]:
  "task_events (start_handling cf ow e) = insert e (case ow of Replayer rest \<Rightarrow> set rest | _ \<Rightarrow> {})"
  by (simp add: start_handling_def task_events_def)

lemma task_step_events:
  assumes "task_step cf t (p, ch) = Some (ls, ts, sv')"
  shows "\<forall>t' \<in> set ts. task_events t' \<subseteq> task_events t"
    and "\<forall>x. Handled x \<in> set ls \<longrightarrow> x \<in> task_events t"
    and "\<forall>i. Delivered i \<in> set ls \<longrightarrow> i \<in> ev_id ` task_events t"
    and "\<forall>x. Dispatched x \<notin> set ls"
    and "set (ch_queue (snd sv')) \<subseteq> set (ch_queue ch) \<union> task_events t"
proof -
  have "(\<forall>t' \<in> set ts. task_events t' \<subseteq> task_events t) \<and> (\<forall>x. Handled x \<in> set ls \<longrightarrow> x \<in> task_events t)
      \<and> (\<forall>i. Delivered i \<in> set ls \<longrightarrow> i \<in> ev_id ` task_events t) \<and> (\<forall>x. Dispatched x \<notin> set ls)
      \<and> set (ch_queue (snd sv')) \<subseteq> set (ch_queue ch) \<union> task_events t"
  proof (cases t)
    case (Handling ow a rs rep)
    show ?thesis
    proof (cases rs)
      case Nil
      with Handling assms show ?thesis
        by (cases rule: owner_cases [of ow]) (auto simp: task_events_def start_handling_def)
    next
      case (Cons b bs)
      with Handling assms show ?thesis
        by (auto simp: task_events_def answer_def dest!: next_task_result split: prod.splits if_splits)
    qed
  next
    case (Submitting ow a b bs rep job n left)
    with assms show ?thesis
      by (auto simp: task_events_def answer_def dest!: next_task_result split: prod.splits if_splits)
  qed (use assms in \<open>auto simp: task_events_def answer_def start_handling_def send_step_def
        split: option.splits prod.splits result.splits event_handler.splits if_splits\<close>)
  then show "\<forall>t' \<in> set ts. task_events t' \<subseteq> task_events t" "\<forall>x. Handled x \<in> set ls \<longrightarrow> x \<in> task_events t"
    "\<forall>i. Delivered i \<in> set ls \<longrightarrow> i \<in> ev_id ` task_events t" "\<forall>x. Dispatched x \<notin> set ls"
    "set (ch_queue (snd sv')) \<subseteq> set (ch_queue ch) \<union> task_events t" by blast+
qed

lemma task_step_delivered:
  assumes "task_step cf t (p, ch) = Some (ls, ts, sv')" and "cf_store cf = fe_store cs"
  shows "fe_delivered_set (fst (fst sv')) \<subseteq> fe_delivered_set (fst p) \<union> ev_id ` task_events t"
proof (cases t)
  case (Appending a)
  with assms fe_append_memory [of cs a "fst p"] show ?thesis
    by (auto simp: on_store_def fe_store_laws split: prod.splits result.splits)
next
  case (Marking ow a rep)
  with assms fe_mark_delivered_memory [of cs "ev_id a" "fst p"] show ?thesis
    by (auto simp: on_store_def fe_store_laws task_events_def split: prod.splits result.splits if_splits)
next
  case (Handling ow a rs rep)
  with assms show ?thesis by (cases rs) (auto split: prod.splits)
qed (use assms in \<open>auto split: option.splits prod.splits\<close>)

lemma fe_retention_delivered:
  "fe_enforce_retention cs policy now s = (r, s') \<Longrightarrow> fe_delivered_set s' \<subseteq> fe_delivered_set s"
  using sorted_list_of_set_subset [of "fe_delivered_set s"]
  by (auto dest!: fe_retention_memory split: result.splits if_splits)

text \<open>Nothing the server does on its own reaches a stranded id.\<close>

lemma server_step_stranded:
  assumes "server_step cf c ls c'" and "cf_store cf = fe_store cs" and "stranded i c"
    and "\<forall>x. Received x \<in> set ls \<longrightarrow> ev_id x \<noteq> i" and "\<forall>xs. Replayed xs \<in> set ls \<longrightarrow> (\<forall>x \<in> set xs. ev_id x \<noteq> i)"
  shows "stranded i c' \<and> (\<forall>x. ev_id x = i \<longrightarrow> Dispatched x \<notin> set ls \<and> Handled x \<notin> set ls)"
  using assms(1)
proof (cases rule: server_step.cases)
  case (task t sv ts sv' xs ys)
  obtain p ch where sv: "sv = (p, ch)" by (cases sv)
  note step = task(3) [unfolded sv]
  have t: "\<forall>e \<in> task_events t. ev_id e \<noteq> i" using assms(3) task(1) by (simp add: stranded_def)
  note ev = task_step_events [OF step] and del = task_step_delivered [OF step assms(2)]
  have "i \<notin> fe_delivered_set (fst (fst sv'))" using del t assms(3) task(1) sv by (auto simp: stranded_def)
  moreover have "\<forall>e \<in> set (ch_queue (snd sv')). ev_id e \<noteq> i" using ev(5) t assms(3) task(1) sv by (auto simp: stranded_def)
  moreover have "\<forall>t' \<in> set (xs @ ts @ ys). \<forall>e \<in> task_events t'. ev_id e \<noteq> i"
    using ev(1) t assms(3) task(1) by (auto simp: stranded_def)
  ultimately have "stranded i c'" unfolding task(2) stranded_def by simp
  then show ?thesis using ev(2,4) t by blast
next
  case (maintain en now p r p' ch tasks)
  from maintenance_store [OF maintain(4)] assms(2) have "fe_delivered_set (fst p') \<subseteq> fe_delivered_set (fst p)"
    by (auto simp: fe_store_laws dest: fe_retention_delivered)
  with maintain assms(3) show ?thesis by (auto simp: stranded_def)
next
  case (receive j now headers bdy event sv tasks)
  with assms(3,4) show ?thesis by (auto simp: stranded_def task_events_def)
next
  case (dispatch ch event rest tasks p)
  with assms(3) show ?thesis by (auto simp: stranded_def)
next
  case (replay p q event rest ch tasks)
  with assms(3,5) show ?thesis by (auto simp: stranded_def)
qed (use assms(3) in \<open>auto simp: stranded_def\<close>)

lemma server_run_stranded:
  assumes "server_run cf c ls c'" and "cf_store cf = fe_store cs" and "stranded i c"
    and "\<forall>x. Received x \<in> set ls \<longrightarrow> ev_id x \<noteq> i" and "\<forall>xs. Replayed xs \<in> set ls \<longrightarrow> (\<forall>x \<in> set xs. ev_id x \<noteq> i)"
  shows "stranded i c' \<and> (\<forall>x. ev_id x = i \<longrightarrow> Dispatched x \<notin> set ls \<and> Handled x \<notin> set ls)"
  using assms
proof (induction rule: server_run.induct)
  case (step c ls d ls' c')
  then have d: "stranded i d \<and> (\<forall>x. ev_id x = i \<longrightarrow> Dispatched x \<notin> set ls \<and> Handled x \<notin> set ls)" by simp
  from server_step_stranded [OF step.hyps(2) step.prems(1), of i] d step.prems(3,4) show ?case by simp
qed simp

lemma duplicate_accepted:
  assumes "e \<in> set (fe_all (fst p))" and "idempotency_key (ev_metadata e) = Some k"
    and "idempotency_key (ev_metadata retry) = Some k"
  shows "handle_event rt (fe_store cs) AcceptEventHandler retry (p, ch) = (Ok handling_report_accepted, (p, ch))"
proof -
  obtain x where "existing_event (fe_store cs) retry (fst p) = Some x"
    using assms by (cases "existing_event (fe_store cs) retry (fst p)")
      (auto simp: existing_event_def find_by_idempotency_key_def fe_store_laws find_None_iff)
  then show ?thesis by (auto simp: handle_event_def accept_def)
qed

text \<open>C28: a cancelled post is stranded, and posting it again does not help. When the asynchronous server has
  stored an event with an idempotency key, finds the dispatch channel full, and the request is dropped while it
  waits for room, then in every later run of this server in which no operator replays the event and no new
  request gets its id, the event is never dispatched, handled or marked delivered, although it stays in the
  store (as long as no hard retention bound removes it); and as long as it is there, a retry of the request with the
  same key is answered as accepted and changes nothing.\<close>

theorem cancelled_post_is_stranded:
  assumes "cf_store cf = fe_store cs" and "cf_handler cf = AcceptEventHandler"
    and "ch_open ch" and "cf_capacity cf \<le> length (ch_queue ch)" and "\<forall>x \<in> set (ch_queue ch). ev_id x \<noteq> ev_id e"
    and "existing_event (fe_store cs) e (fst p) = None" and "ev_id e \<notin> fe_delivered_set (fst p)"
    and "finite (fe_delivered_set (fst p))" and "fe_append cs e (fst p) = (Ok u, st)"
    and "idempotency_key (ev_metadata e) = Some k"
  shows "\<exists>c. server_run cf ((p, ch), [Looking e]) [Stored e, Cancelled e] c \<and> snd c = [] \<and> e \<in> set (fe_undelivered (fst (fst (fst c))))
     \<and> (\<forall>ls p' ch' ts. server_run cf c ls ((p', ch'), ts)
           \<and> (\<forall>x. Received x \<in> set ls \<longrightarrow> ev_id x \<noteq> ev_id e)
           \<and> (\<forall>xs. Replayed xs \<in> set ls \<longrightarrow> (\<forall>x \<in> set xs. ev_id x \<noteq> ev_id e)) \<longrightarrow>
         (\<forall>x. ev_id x = ev_id e \<longrightarrow> Dispatched x \<notin> set ls \<and> Handled x \<notin> set ls)
         \<and> ev_id e \<notin> fe_delivered_set (fst p')
         \<and> (no_hard_bounds (cf_policy cf) \<longrightarrow> e \<in> set (fe_undelivered (fst p')))
         \<and> (\<forall>retry. e \<in> set (fe_all (fst p')) \<and> idempotency_key (ev_metadata retry) = Some k \<longrightarrow>
              handle_event (cf_runtime cf) (fe_store cs) AcceptEventHandler retry (p', ch') = (Ok handling_report_accepted, (p', ch'))))"
proof (intro exI conjI allI impI)
  let ?c = "(((st, snd p), ch), [] :: task list)"
  have l: "task_step cf (Looking e) (p, ch) = Some ([], [Appending e], (p, ch))" using assms(1,6) by simp
  have a: "task_step cf (Appending e) (p, ch) = Some ([Stored e], [Sending e], ((st, snd p), ch))"
    using assms(1,2,9) by (simp add: on_store_def fe_store_laws)
  have w: "task_step cf (Sending e) ((st, snd p), ch) = Some ([], [Waiting e], ((st, snd p), ch))"
    using assms(3,4) by (simp add: send_step_def)
  note r = server_run_then_task [OF server_run_then_task [OF server_run_then_task [OF server_run.refl l] a] w]
  have "server_step cf (((st, snd p), ch), [Waiting e]) [Cancelled e] ?c"
    using server_step.cancel [where xs = "[]" and ys = "[]" and t = "Waiting e" and event = e] by simp
  from server_run.step [OF r this] show "server_run cf ((p, ch), [Looking e]) [Stored e, Cancelled e] ?c" by simp
  show "snd ?c = []" by simp
  from fe_append_memory [OF assms(9)] have mem: "fe_all st = fe_all (fst p) @ [e]" "fe_delivered_set st = fe_delivered_set (fst p)" by auto
  then show und: "e \<in> set (fe_undelivered (fst (fst (fst ?c))))" using assms(7) by (simp add: fe_undelivered_def)
  have str: "stranded (ev_id e) ?c" using mem assms(5,7) by (simp add: stranded_def)
  fix ls p' ch' ts
  assume later: "server_run cf ?c ls ((p', ch'), ts) \<and> (\<forall>x. Received x \<in> set ls \<longrightarrow> ev_id x \<noteq> ev_id e)
      \<and> (\<forall>xs. Replayed xs \<in> set ls \<longrightarrow> (\<forall>x \<in> set xs. ev_id x \<noteq> ev_id e))"
  then have run: "server_run cf ?c ls ((p', ch'), ts)" by blast
  from server_run_stranded [OF run assms(1) str] later have s: "stranded (ev_id e) ((p', ch'), ts)"
    "\<forall>x. ev_id x = ev_id e \<longrightarrow> Dispatched x \<notin> set ls \<and> Handled x \<notin> set ls" by blast+
  then show "Dispatched x \<notin> set ls" "Handled x \<notin> set ls" if "ev_id x = ev_id e" for x using that by blast+
  show "ev_id e \<notin> fe_delivered_set (fst p')" using s(1) by (simp add: stranded_def)
  show "e \<in> set (fe_undelivered (fst p'))" if "no_hard_bounds (cf_policy cf)"
  proof -
    have "safe_in (fe_store cs) fe_delivered_set e ?c"
      using und mem assms(8) by (auto simp: safe_in_def fe_undelivered_def fe_store_laws)
    from fe.server_run_safe [OF run assms(1) that this] s(2) show ?thesis
      by (auto simp: safe_in_def fe_undelivered_def fe_store_laws)
  qed
  show "handle_event (cf_runtime cf) (fe_store cs) AcceptEventHandler retry (p', ch') = (Ok handling_report_accepted, (p', ch'))"
    if "e \<in> set (fe_all (fst p')) \<and> idempotency_key (ev_metadata retry) = Some k" for retry
    using duplicate_accepted assms(10) that by blast
qed

text \<open>A server whose channel is full: four events wait in it.\<close>

definition full_channel :: channel where
  "full_channel = \<lparr>ch_queue = replicate 4 demo_event, ch_open = True\<rparr>"

theorem cancelled_post_is_stranded_witness:
  "\<exists>c. server_run (demo_config AcceptEventHandler) ((demo_pipeline [], full_channel), [Looking (keyed_event ''k'' 1)])
         [Stored (keyed_event ''k'' 1), Cancelled (keyed_event ''k'' 1)] c
     \<and> keyed_event ''k'' 1 \<in> set (fe_undelivered (fst (fst (fst c))))
     \<and> handle_event (cf_runtime (demo_config AcceptEventHandler)) (fe_store blank_codecs) AcceptEventHandler
         (keyed_event ''k'' 2) (fst c) = (Ok handling_report_accepted, fst c)"
proof -
  let ?e = "keyed_event ''k'' 1" and ?cf = "demo_config AcceptEventHandler"
  have "cf_store ?cf = fe_store blank_codecs" "cf_handler ?cf = AcceptEventHandler" by (simp_all add: demo_config_def)
  moreover have "ch_open full_channel" "cf_capacity ?cf \<le> length (ch_queue full_channel)"
    "\<forall>x \<in> set (ch_queue full_channel). ev_id x \<noteq> ev_id ?e"
    by (simp_all add: full_channel_def demo_config_def demo_event_def envelope_new_def)
  moreover have "existing_event (fe_store blank_codecs) ?e (fst (demo_pipeline [])) = None"
    "ev_id ?e \<notin> fe_delivered_set (fst (demo_pipeline []))" "finite (fe_delivered_set (fst (demo_pipeline [])))"
    by (simp_all add: existing_event_def find_by_idempotency_key_def fe_store_laws demo_pipeline_def blank_store_def
        fe_all_def jsonl_all_def)
  moreover obtain st where "fe_append blank_codecs ?e (fst (demo_pipeline [])) = (Ok (), st)"
    by (simp add: demo_pipeline_def blank_append)
  ultimately obtain c where run: "server_run ?cf ((demo_pipeline [], full_channel), [Looking ?e]) [Stored ?e, Cancelled ?e] c"
    and und: "?e \<in> set (fe_undelivered (fst (fst (fst c))))"
    and later: "\<And>ls p' ch' ts retry. server_run ?cf c ls ((p', ch'), ts) \<Longrightarrow> ls = [] \<Longrightarrow>
        ?e \<in> set (fe_all (fst p')) \<Longrightarrow> idempotency_key (ev_metadata retry) = Some ''k'' \<Longrightarrow>
        handle_event (cf_runtime ?cf) (fe_store blank_codecs) AcceptEventHandler retry (p', ch') = (Ok handling_report_accepted, (p', ch'))"
    using cancelled_post_is_stranded [of ?cf blank_codecs full_channel ?e "demo_pipeline []" "()" st "''k''"] by fastforce
  obtain p' ch' ts where c: "c = ((p', ch'), ts)" by (metis prod.exhaust)
  from later [of "[]" p' ch' ts "keyed_event ''k'' 2"] und run c show ?thesis
    by (intro exI [of _ c]) (auto simp: fe_undelivered_def server_run.refl)
qed

end
