(* ===== verification/Store_Threads.thy ===== *)
theory Store_Threads
  imports Ingest
begin

text \<open>
  The file event store of \<open>crates/triggerlane-storage/src/lib.rs\<close> under concurrent calls. The store is shared
  between the request handlers, the dispatcher and the maintenance task; \<open>append\<close> and \<open>prune\<close> run under one
  lock, but \<open>mark_delivered\<close> and \<open>enforce_retention\<close> take and release the locks of the event log, of the
  journal and of the delivered set several times. Here a call is a thread, cut where a lock is released, and
  threads interleave freely. The methods of \<open>Event_Stores\<close> are the uninterrupted threads, and no interleaving
  drops or hides an event that nobody has marked.
\<close>

subsection \<open>Calls as threads\<close>

datatype store_thread =
    AppendCall event_envelope
  | PruneCall manual_retention
  | MarkCall event_id
  | MarkJournal event_id
  | MarkInsert event_id
  | RetentionCall auto_retention timestamp
  | RetentionRetain "event_id set" auto_retention timestamp
  | RetentionJournal "event_id list" nat
  | RetentionAssign "event_id list" nat

datatype reply = UnitReply "(unit, io_error) result" | CountReply "(nat, io_error) result"

text \<open>What the locked section of a thread does: the thread goes on, or the call returns.\<close>

fun thread_step ::
  "event_codecs \<Rightarrow> store_thread \<Rightarrow> file_event_store \<Rightarrow> (store_thread + reply) \<times> file_event_store" where
  "thread_step cs (AppendCall event) s = apfst (Inr \<circ> UnitReply) (fe_append cs event s)"
| "thread_step cs (PruneCall policy) s = apfst (Inr \<circ> CountReply) (fe_prune cs policy s)"
| "thread_step cs (MarkCall i) s =
     (if i \<in> fe_delivered_set s then (Inr (UnitReply (Ok ())), s) else (Inl (MarkJournal i), s))"
| "thread_step cs (MarkJournal i) s =
     (case on_delivered (jsonl_append (snd cs) i) s of
        (Err e, s) \<Rightarrow> (Inr (UnitReply (Err e)), s)
      | (Ok _, s) \<Rightarrow> (Inl (MarkInsert i), s))"
| "thread_step cs (MarkInsert i) s =
     (Inr (UnitReply (Ok ())), s\<lparr>fe_delivered_set := insert i (fe_delivered_set s)\<rparr>)"
| "thread_step cs (RetentionCall policy now) s =
     (if is_unbounded policy then (Inr (CountReply (Ok 0)), s)
      else (Inl (RetentionRetain (fe_delivered_set s) policy now), s))"
| "thread_step cs (RetentionRetain delivered policy now) s =
     (let select = (\<lambda>events. retain_events (to_vec (fst cs)) events delivered policy now);
          kept_ids = set (map ev_id (select (fe_all s)))
      in case on_inner (jsonl_retain (fst cs) select) s of
           (Err e, s) \<Rightarrow> (Inr (CountReply (Err e)), s)
         | (Ok removed, s) \<Rightarrow>
             if removed > 0
             then (Inl (RetentionJournal (filter (\<lambda>i. i \<in> kept_ids) (sorted_list_of_set delivered)) removed), s)
             else (Inr (CountReply (Ok removed)), s))"
| "thread_step cs (RetentionJournal kept_delivered removed) s =
     (case on_delivered (jsonl_replace_all (snd cs) kept_delivered) s of
        (Err e, s) \<Rightarrow> (Inr (CountReply (Err e)), s)
      | (Ok _, s) \<Rightarrow> (Inl (RetentionAssign kept_delivered removed), s))"
| "thread_step cs (RetentionAssign kept_delivered removed) s =
     (Inr (CountReply (Ok removed)), s\<lparr>fe_delivered_set := set kept_delivered\<rparr>)"

fun is_call :: "store_thread \<Rightarrow> bool" where
  "is_call (AppendCall _) = True"
| "is_call (PruneCall _) = True"
| "is_call (MarkCall _) = True"
| "is_call (RetentionCall _ _) = True"
| "is_call _ = False"

text \<open>A store in use: calls come in at any time, and any thread may go on. A label says which call came in, or
  what a thread returned from its last section.\<close>

datatype store_label = Called store_thread | Returned store_thread reply

inductive store_step ::
  "event_codecs \<Rightarrow> file_event_store \<times> store_thread list \<Rightarrow> store_label list
     \<Rightarrow> file_event_store \<times> store_thread list \<Rightarrow> bool" for cs where
  called: "is_call t \<Longrightarrow> store_step cs (s, ts) [Called t] (s, ts @ [t])"
| continued: "thread_step cs t s = (Inl t', s') \<Longrightarrow> store_step cs (s, xs @ t # ys) [] (s', xs @ t' # ys)"
| returned: "thread_step cs t s = (Inr r, s') \<Longrightarrow> store_step cs (s, xs @ t # ys) [Returned t r] (s', xs @ ys)"

inductive store_run ::
  "event_codecs \<Rightarrow> file_event_store \<times> store_thread list \<Rightarrow> store_label list
     \<Rightarrow> file_event_store \<times> store_thread list \<Rightarrow> bool" for cs where
  refl: "store_run cs c [] c"
| step: "store_run cs a ls b \<Longrightarrow> store_step cs b ls' c \<Longrightarrow> store_run cs a (ls @ ls') c"

subsection \<open>The methods are the uninterrupted threads\<close>

lemma alone_continues:
  "store_run cs c ls (s, [t]) \<Longrightarrow> thread_step cs t s = (Inl t', s') \<Longrightarrow> store_run cs c ls (s', [t'])"
  using store_run.step [of cs c ls "(s, [t])" "[]"] store_step.continued [of cs t s t' s' "[]" "[]"] by auto

lemma alone_returns:
  "store_run cs c ls (s, [t]) \<Longrightarrow> thread_step cs t s = (Inr r, s') \<Longrightarrow>
     store_run cs c (ls @ [Returned t r]) (s', [])"
  using store_run.step [of cs c ls "(s, [t])"] store_step.returned [of cs t s r s' "[]" "[]"] by auto

text \<open>The result of a thread that runs alone.\<close>

inductive finishes :: "event_codecs \<Rightarrow> store_thread \<Rightarrow> file_event_store \<Rightarrow> reply \<Rightarrow> file_event_store \<Rightarrow> bool" for cs where
  returns: "thread_step cs t s = (Inr r, s') \<Longrightarrow> finishes cs t s r s'"
| continues: "thread_step cs t s = (Inl t', s1) \<Longrightarrow> finishes cs t' s1 r s' \<Longrightarrow> finishes cs t s r s'"

lemma append_finishes: "fe_append cs e s = (r, s') \<Longrightarrow> finishes cs (AppendCall e) s (UnitReply r) s'"
  by (rule finishes.returns) simp

lemma prune_finishes: "fe_prune cs m s = (r, s') \<Longrightarrow> finishes cs (PruneCall m) s (CountReply r) s'"
  by (rule finishes.returns) simp

lemma mark_finishes:
  assumes "fe_mark_delivered cs i s = (r, s')"
  shows "finishes cs (MarkCall i) s (UnitReply r) s'"
proof (cases "i \<in> fe_delivered_set s")
  case True
  with assms show ?thesis by (intro finishes.returns) (simp add: fe_mark_delivered_def)
next
  case False
  obtain r1 s1 where j: "on_delivered (jsonl_append (snd cs) i) s = (r1, s1)" by force
  have "finishes cs (MarkJournal i) s (UnitReply r) s'"
  proof (cases r1)
    case (Err e)
    with j assms False show ?thesis by (intro finishes.returns) (auto simp: fe_mark_delivered_def)
  next
    case (Ok u)
    with j assms False show ?thesis
      by (intro finishes.continues [of _ _ _ "MarkInsert i" s1, OF _ finishes.returns]) (auto simp: fe_mark_delivered_def)
  qed
  then show ?thesis by (rule finishes.continues [rotated]) (simp add: False)
qed

lemma retention_finishes:
  assumes "fe_enforce_retention cs p now s = (r, s')"
  shows "finishes cs (RetentionCall p now) s (CountReply r) s'"
proof (cases "is_unbounded p")
  case True
  with assms show ?thesis by (intro finishes.returns) (simp add: fe_enforce_retention_def)
next
  case bounded: False
  let ?d = "fe_delivered_set s"
  let ?f = "\<lambda>es. retain_events (to_vec (fst cs)) es ?d p now"
  let ?kd = "filter (\<lambda>i. i \<in> set (map ev_id (?f (fe_all s)))) (sorted_list_of_set ?d)"
  obtain r1 s1 where i: "on_inner (jsonl_retain (fst cs) ?f) s = (r1, s1)" by force
  have "finishes cs (RetentionRetain ?d p now) s (CountReply r) s'"
  proof (cases "\<exists>n > 0. r1 = Ok n")
    case False
    with i assms bounded show ?thesis
      by (cases r1; intro finishes.returns) (auto simp: fe_enforce_retention_def Let_def)
  next
    case True
    then obtain n where n: "r1 = Ok n" "n > 0" by blast
    obtain r2 s2 where d: "on_delivered (jsonl_replace_all (snd cs) ?kd) s1 = (r2, s2)" by force
    from bounded i n assms have eq: "and_then (on_delivered (jsonl_replace_all (snd cs) ?kd) s1)
        (\<lambda>_ s. (Ok n, s\<lparr>fe_delivered_set := set ?kd\<rparr>)) = (r, s')"
      by (simp add: fe_enforce_retention_def Let_def)
    have "finishes cs (RetentionJournal ?kd n) s1 (CountReply r) s'"
    proof (cases r2)
      case (Err e)
      with d eq show ?thesis by (intro finishes.returns) simp
    next
      case (Ok u)
      with d eq show ?thesis
        by (intro finishes.continues [of _ _ _ "RetentionAssign ?kd n" s2, OF _ finishes.returns]) simp_all
    qed
    moreover have "thread_step cs (RetentionRetain ?d p now) s = (Inl (RetentionJournal ?kd n), s1)"
      using i n by (simp add: Let_def)
    ultimately show ?thesis by (rule finishes.continues [rotated])
  qed
  then show ?thesis by (rule finishes.continues [rotated]) (simp add: bounded)
qed

lemma finishes_alone:
  "finishes cs t s r s' \<Longrightarrow> store_run cs c ls (s, [t]) \<Longrightarrow> \<exists>t'. store_run cs c (ls @ [Returned t' r]) (s', [])"
proof (induction rule: finishes.induct)
  case (returns t s r s')
  then show ?case using alone_returns by blast
next
  case (continues t s t' s1 r s')
  then show ?case using alone_continues by blast
qed

lemmas finishes_run = finishes_alone [OF _ store_run.refl, unfolded append_Nil]

text \<open>The store's methods are the uninterrupted threads. Run without interruption, a call that is cut at
  every release of a lock leaves the store and returns what the method as a whole does, on every branch and
  whatever fails.\<close>

theorem store_methods_are_runs:
  "(\<exists>t. store_run cs (s, [MarkCall i]) [Returned t (UnitReply (fst (fe_mark_delivered cs i s)))]
       (snd (fe_mark_delivered cs i s), []))
   \<and> (\<exists>t. store_run cs (s, [RetentionCall p now]) [Returned t (CountReply (fst (fe_enforce_retention cs p now s)))]
       (snd (fe_enforce_retention cs p now s), []))
   \<and> (\<exists>t. store_run cs (s, [AppendCall e]) [Returned t (UnitReply (fst (fe_append cs e s)))] (snd (fe_append cs e s), []))
   \<and> (\<exists>t. store_run cs (s, [PruneCall m]) [Returned t (CountReply (fst (fe_prune cs m s)))] (snd (fe_prune cs m s), []))"
  using finishes_run [OF mark_finishes] finishes_run [OF retention_finishes]
    finishes_run [OF append_finishes] finishes_run [OF prune_finishes]
  by (meson surjective_pairing)

subsection \<open>No interleaving loses an event\<close>

text \<open>A thread that leaves an id alone: it neither marks it nor has read it as delivered, and it drops nothing
  by a hard bound or an operator's prune.\<close>

fun leaves :: "event_id \<Rightarrow> store_thread \<Rightarrow> bool" where
  "leaves i (AppendCall _) \<longleftrightarrow> True"
| "leaves i (PruneCall _) \<longleftrightarrow> False"
| "leaves i (MarkCall j) \<longleftrightarrow> i \<noteq> j"
| "leaves i (MarkJournal j) \<longleftrightarrow> i \<noteq> j"
| "leaves i (MarkInsert j) \<longleftrightarrow> i \<noteq> j"
| "leaves i (RetentionCall policy _) \<longleftrightarrow> no_hard_bounds policy"
| "leaves i (RetentionRetain delivered policy _) \<longleftrightarrow> i \<notin> delivered \<and> no_hard_bounds policy"
| "leaves i (RetentionJournal kept_delivered _) \<longleftrightarrow> i \<notin> set kept_delivered"
| "leaves i (RetentionAssign kept_delivered _) \<longleftrightarrow> i \<notin> set kept_delivered"

lemma on_delivered_frame:
  "on_delivered f s = (r, s') \<Longrightarrow> fe_all s' = fe_all s \<and> fe_delivered_set s' = fe_delivered_set s"
  by (auto simp: on_delivered_def fe_all_def jsonl_all_def split: prod.splits)

lemma thread_step_leaves:
  assumes "thread_step cs t s = (next, s')" and "leaves (ev_id e) t" and "ev_id e \<notin> fe_delivered_set s"
  shows "ev_id e \<notin> fe_delivered_set s' \<and> (\<forall>t'. next = Inl t' \<longrightarrow> leaves (ev_id e) t')
     \<and> (e \<in> set (fe_all s) \<longrightarrow> e \<in> set (fe_all s'))
     \<and> (t = AppendCall e \<and> next = Inr (UnitReply (Ok ())) \<longrightarrow> e \<in> set (fe_all s'))"
proof (cases t)
  case (AppendCall x)
  obtain r s1 where a: "fe_append cs x s = (r, s1)" by force
  from fe_append_memory [OF a] a assms AppendCall show ?thesis by (cases r) auto
next
  case (RetentionRetain d p now)
  let ?f = "\<lambda>es. retain_events (to_vec (fst cs)) es d p now"
  obtain r s1 where i: "on_inner (jsonl_retain (fst cs) ?f) s = (r, s1)" by force
  have "e \<in> set (fe_all s) \<longrightarrow> e \<in> set (?f (fe_all s))"
    using assms(2) RetentionRetain by (auto intro: retain_events_no_hard_bounds)
  with on_inner_retain_memory [OF i retain_events_subseq] i assms RetentionRetain
    sorted_list_of_set_subset [of d] show ?thesis
    by (cases r) (auto simp: Let_def split: if_splits)
next
  case (MarkJournal i)
  with assms show ?thesis by (auto split: prod.splits result.splits dest: on_delivered_frame)
next
  case (RetentionJournal kd n)
  with assms show ?thesis by (auto split: prod.splits result.splits dest: on_delivered_frame)
qed (use assms in \<open>auto simp: fe_all_def split: if_splits\<close>)

definition kept_by :: "event_envelope \<Rightarrow> file_event_store \<times> store_thread list \<Rightarrow> bool" where
  "kept_by e c \<longleftrightarrow> ev_id e \<notin> fe_delivered_set (fst c) \<and> (\<forall>t \<in> set (snd c). leaves (ev_id e) t)"

lemma store_step_kept:
  assumes "store_step cs c ls c'" and "kept_by e c" and "\<forall>t. Called t \<in> set ls \<longrightarrow> leaves (ev_id e) t"
  shows "kept_by e c' \<and> (e \<in> set (fe_all (fst c)) \<or> Returned (AppendCall e) (UnitReply (Ok ())) \<in> set ls
     \<longrightarrow> e \<in> set (fe_all (fst c')))"
  using assms(1)
proof (cases rule: store_step.cases)
  case (called t s ts)
  with assms(2,3) show ?thesis by (auto simp: kept_by_def)
next
  case (continued t s t' s' xs ys)
  with thread_step_leaves [OF continued(4), of e] assms(2) show ?thesis by (auto simp: kept_by_def)
next
  case (returned t s r s' xs ys)
  with thread_step_leaves [OF returned(4), of e] assms(2) show ?thesis by (auto simp: kept_by_def)
qed

lemma store_run_kept:
  assumes "store_run cs c ls c'" and "kept_by e c" and "\<forall>t. Called t \<in> set ls \<longrightarrow> leaves (ev_id e) t"
  shows "kept_by e c' \<and> (e \<in> set (fe_all (fst c)) \<or> Returned (AppendCall e) (UnitReply (Ok ())) \<in> set ls
     \<longrightarrow> e \<in> set (fe_all (fst c')))"
  using assms
proof (induction rule: store_run.induct)
  case (step a ls b ls' c)
  then show ?case using store_step_kept [OF step.hyps(2), of e] by auto
qed simp

text \<open>No interleaving of the store's methods loses an event. While appends, marks and retention sweeps
  without hard bounds overlap in any way and whatever fails, an event that is in the store at the start or
  whose append has returned success, and whose id nobody marks, is in the store and undelivered. A sweep that
  decides on a stale snapshot of the delivered set, or that writes the set back over concurrent marks, never
  drops or hides it.\<close>

theorem concurrent_store_keeps_unmarked:
  assumes "store_run cs (s, []) ls (s', ts)" and "ev_id e \<notin> fe_delivered_set s"
    and "e \<in> set (fe_all s) \<or> Returned (AppendCall e) (UnitReply (Ok ())) \<in> set ls"
    and "\<forall>t. Called t \<in> set ls \<longrightarrow> leaves (ev_id e) t"
  shows "e \<in> set (fe_undelivered s')"
  using store_run_kept [OF assms(1) _ assms(4)] assms(2,3) by (simp add: kept_by_def fe_undelivered_def)

theorem concurrent_store_keeps_unmarked_witness:
  "\<exists>s'. store_run blank_codecs (blank_store [] [], [])
       [Called (RetentionCall (unbounded\<lparr>delivered_grace := Some 0\<rparr>) 5), Called (AppendCall demo_event),
        Returned (AppendCall demo_event) (UnitReply (Ok ()))] (s', [RetentionRetain {} (unbounded\<lparr>delivered_grace := Some 0\<rparr>) 5])
     \<and> demo_event \<in> set (fe_undelivered s')"
proof -
  let ?p = "unbounded\<lparr>delivered_grace := Some 0\<rparr>" and ?s = "blank_store [] []"
  obtain s' where a: "fe_append blank_codecs demo_event ?s = (Ok (), s')"
    by (simp add: fe_append_def on_inner_def jsonl_append_def blank_codecs_def blank_store_def write_all_def
        sync_file_def attempt_def empty_fs_def)
  have "store_run blank_codecs (?s, []) ([] @ [Called (RetentionCall ?p 5)]) (?s, [] @ [RetentionCall ?p 5])"
    by (intro store_run.step [OF store_run.refl] store_step.called) simp
  moreover have "thread_step blank_codecs (RetentionCall ?p 5) ?s = (Inl (RetentionRetain {} ?p 5), ?s)"
    by (simp add: is_unbounded_def blank_store_def)
  ultimately have "store_run blank_codecs (?s, []) [Called (RetentionCall ?p 5)] (?s, [RetentionRetain {} ?p 5])"
    using alone_continues by (metis append_Nil)
  from store_run.step [OF this store_step.called [of "AppendCall demo_event"]]
  have "store_run blank_codecs (?s, []) [Called (RetentionCall ?p 5), Called (AppendCall demo_event)]
      (?s, [RetentionRetain {} ?p 5] @ [AppendCall demo_event])" by simp
  from store_run.step [OF this store_step.returned [of _ _ _ "UnitReply (Ok ())" s']] a
  have run: "store_run blank_codecs (?s, []) [Called (RetentionCall ?p 5), Called (AppendCall demo_event),
      Returned (AppendCall demo_event) (UnitReply (Ok ()))] (s', [RetentionRetain {} ?p 5])" by simp
  from concurrent_store_keeps_unmarked [OF this, of demo_event] run show ?thesis
    by (auto simp: blank_store_def no_hard_bounds_def unbounded_def)
qed

end
