(* ===== verification/Server_Locks.thy ===== *)
theory Server_Locks
  imports Server_Properties Store_Threads
begin

text \<open>
  The running server at the granularity of the store's locks. In \<open>Server\<close> a method of the store is one step of
  the server; here the file store's methods are the threads of \<open>Store_Threads\<close>, so a request that is about to
  mark an event can be overtaken by a retention sweep that has already read the delivered set, and the other
  way round. The coarse server is the special case in which no method is interrupted, and the guarantee that
  no event is lost before it is handled holds for every interleaving of the fine one.
\<close>

subsection \<open>Tasks inside store calls\<close>

datatype lock_task =
    Plain task
  | InStore task store_thread
  | Sweeping store_thread timestamp
  | SweepingQueue timestamp

text \<open>The store call a task is about to make.\<close>

fun store_call :: "task \<Rightarrow> store_thread option" where
  "store_call (Appending event) = Some (AppendCall event)"
| "store_call (Marking owner event report) = Some (MarkCall (ev_id event))"
| "store_call _ = None"

text \<open>What a task does with the reply.\<close>

fun resume ::
  "('s, 'b, 'l, 'e, 'q) server_config \<Rightarrow> task \<Rightarrow> (unit, runtime_error) result \<Rightarrow> label list \<times> task list" where
  "resume cf (Appending event) r = (case r of
     Err e \<Rightarrow> (answer Request event (Err e), [])
   | Ok _ \<Rightarrow> ([Stored event],
       [case cf_handler cf of
          IngestEventHandler \<Rightarrow> start_handling cf Request event
        | AcceptEventHandler \<Rightarrow> Sending event]))"
| "resume cf (Marking owner event report) r = (case r of
     Err e \<Rightarrow> (answer owner event (Err e), [])
   | Ok _ \<Rightarrow> (Delivered (ev_id event) # answer owner event (Ok report), []))"
| "resume cf t r = ([], [t])"

fun lock_owner :: "lock_task \<Rightarrow> owner option" where
  "lock_owner (Plain t) = Some (task_owner t)"
| "lock_owner (InStore t _) = Some (task_owner t)"
| "lock_owner _ = None"

fun is_sweep :: "lock_task \<Rightarrow> bool" where
  "is_sweep (Sweeping _ _) = True"
| "is_sweep (SweepingQueue _) = True"
| "is_sweep _ = False"

text \<open>What a maintenance tick does before it touches the store: it publishes the metrics.\<close>

definition tick_metrics ::
  "('s, 'b, 'l, 'e, 'q) server_config \<Rightarrow> (string set \<Rightarrow> string list) \<Rightarrow> ('s, 'b, 'q) pipeline \<Rightarrow> ('s, 'b, 'q) pipeline" where
  "tick_metrics cf enumerate_lanes p =
     (fst p, record_store_metrics (cf_runtime cf) (cf_store cf) (fst p)
               (record_broker_metrics (cf_runtime cf) enumerate_lanes (snd p)))"

subsection \<open>The step relation\<close>

type_synonym ('b, 'q) lock_state = "(file_event_store, 'b, 'q) server \<times> lock_task list"

inductive lock_step ::
  "(file_event_store, 'b, 'l, 'e, 'q) server_config \<Rightarrow> event_codecs \<Rightarrow> ('b, 'q) lock_state \<Rightarrow> label list
     \<Rightarrow> ('b, 'q) lock_state \<Rightarrow> bool" for cf cs where
  plain: "store_call t = None \<Longrightarrow> task_step cf t sv = Some (ls, ts, sv') \<Longrightarrow>
     lock_step cf cs (sv, xs @ Plain t # ys) ls (sv', xs @ map Plain ts @ ys)"
| enter: "store_call t = Some th \<Longrightarrow>
     lock_step cf cs (sv, xs @ Plain t # ys) [] (sv, xs @ InStore t th # ys)"
| locked: "thread_step cs th st = (Inl th', st') \<Longrightarrow>
     lock_step cf cs (((st, s), ch), xs @ InStore t th # ys) [] (((st', s), ch), xs @ InStore t th' # ys)"
| leave: "thread_step cs th st = (Inr (UnitReply r), st') \<Longrightarrow> resume cf t (map_err Storage r) = (ls, ts) \<Longrightarrow>
     lock_step cf cs (((st, s), ch), xs @ InStore t th # ys) ls (((st', s), ch), xs @ map Plain ts @ ys)"
| receive: "admit (cf_web cf) (cf_verifier cf) i now headers bdy = Some event \<Longrightarrow>
     lock_step cf cs (sv, tasks) [Received event] (sv, tasks @ [Plain (Looking event)])"
| dispatch: "ch_queue ch = event # rest \<Longrightarrow> \<forall>t \<in> set tasks. lock_owner t \<noteq> Some Dispatcher \<Longrightarrow>
     lock_step cf cs ((p, ch), tasks) [Dispatched event]
       ((p, ch\<lparr>ch_queue := rest\<rparr>), tasks @ [Plain (start_handling cf Dispatcher event)])"
| replay: "replayed_events (cf_store cf) (fst p) q = event # rest \<Longrightarrow>
     lock_step cf cs ((p, ch), tasks) [Replayed (event # rest)]
       ((p, ch), tasks @ [Plain (start_handling cf (Replayer rest) event)])"
| cancel: "cancellable t = Some event \<Longrightarrow>
     lock_step cf cs (sv, xs @ Plain t # ys) [Cancelled event] (sv, xs @ ys)"
| cancel_sent: "cancellable (Submitting owner event r rs report job n left) = Some event \<Longrightarrow>
     submit_once (cf_runtime cf) event r job n s = (x, s') \<Longrightarrow>
     lock_step cf cs (((st, s), ch), xs @ Plain (Submitting owner event r rs report job n left) # ys) [Cancelled event]
       (((st, s'), ch), xs @ ys)"
| tick: "\<forall>t \<in> set tasks. \<not> is_sweep t \<Longrightarrow>
     lock_step cf cs ((p, ch), tasks) [] ((tick_metrics cf enumerate_lanes p, ch),
       tasks @ (if is_unbounded (cf_policy cf) then [] else [Sweeping (RetentionCall (cf_policy cf) now) now]))"
| sweep: "thread_step cs th st = (Inl th', st') \<Longrightarrow>
     lock_step cf cs (((st, s), ch), xs @ Sweeping th now # ys) [] (((st', s), ch), xs @ Sweeping th' now # ys)"
| swept: "thread_step cs th st = (Inr (CountReply r), st') \<Longrightarrow>
     lock_step cf cs (((st, s), ch), xs @ Sweeping th now # ys) []
       (((st', s), ch), xs @ (if is_ok r then [SweepingQueue now] else []) @ ys)"
| queue_swept: "enforce_dead_trigger_retention (cf_runtime cf) (cf_policy cf) now s = (r, s') \<Longrightarrow>
     lock_step cf cs (((st, s), ch), xs @ SweepingQueue now # ys) [] (((st, s'), ch), xs @ ys)"

inductive lock_run ::
  "(file_event_store, 'b, 'l, 'e, 'q) server_config \<Rightarrow> event_codecs \<Rightarrow> ('b, 'q) lock_state \<Rightarrow> label list
     \<Rightarrow> ('b, 'q) lock_state \<Rightarrow> bool" for cf cs where
  refl: "lock_run cf cs s [] s"
| step: "lock_run cf cs s ls t \<Longrightarrow> lock_step cf cs t ls' u \<Longrightarrow> lock_run cf cs s (ls @ ls') u"

subsection \<open>The coarse server is the uninterrupted one\<close>

lemma lock_run_trans: "lock_run cf cs t ls' u \<Longrightarrow> lock_run cf cs s ls t \<Longrightarrow> lock_run cf cs s (ls @ ls') u"
proof (induction rule: lock_run.induct)
  case (step t l1 v l2 u)
  then show ?case using lock_run.step [of cf cs s "ls @ l1" v l2 u] by simp
qed simp

lemma lock_run_single: "lock_step cf cs s ls t \<Longrightarrow> lock_run cf cs s ls t"
  using lock_run.step [OF lock_run.refl] by fastforce

lemma lock_run_Cons: "lock_step cf cs s [] t \<Longrightarrow> lock_run cf cs t ls u \<Longrightarrow> lock_run cf cs s ls u"
  using lock_run_trans [OF _ lock_run_single] by fastforce

lemma in_store_run:
  "finishes cs th st (UnitReply r) st' \<Longrightarrow> resume cf t (map_err Storage r) = (ls, ts) \<Longrightarrow>
     lock_run cf cs (((st, s), ch), xs @ InStore t th # ys) ls (((st', s), ch), xs @ map Plain ts @ ys)"
proof (induction th st "UnitReply r" st' rule: finishes.induct)
  case (returns th st st')
  then show ?case by (intro lock_run_single lock_step.leave)
next
  case (continues th st th' s1 st')
  then show ?case by (blast intro: lock_run_Cons [OF lock_step.locked [OF continues.hyps(1)]])
qed

lemma sweep_run:
  "finishes cs th st (CountReply r) st' \<Longrightarrow>
     lock_run cf cs (((st, s), ch), xs @ Sweeping th now # ys) []
       (((st', s), ch), xs @ (if is_ok r then [SweepingQueue now] else []) @ ys)"
proof (induction th st "CountReply r" st' rule: finishes.induct)
  case (returns th st st')
  then show ?case by (intro lock_run_single lock_step.swept)
next
  case (continues th st th' s1 st')
  then show ?case by (blast intro: lock_run_Cons [OF lock_step.sweep [OF continues.hyps(1)]])
qed

lemma task_step_as_call:
  assumes "store_call t = Some th" and "cf_store cf = fe_store cs"
    and "task_step cf t ((st, s), ch) = Some (ls, ts, sv')"
  obtains r st' where "finishes cs th st (UnitReply r) st'" "resume cf t (map_err Storage r) = (ls, ts)"
    "sv' = ((st', s), ch)"
proof (cases t)
  case (Appending event)
  obtain r st' where a: "fe_append cs event st = (r, st')" by force
  with Appending assms append_finishes [OF a] show thesis
    by (cases r; intro that [of r st']) (auto simp: on_store_def fe_store_laws)
next
  case (Marking owner event report)
  obtain r st' where a: "fe_mark_delivered cs (ev_id event) st = (r, st')" by force
  with Marking assms mark_finishes [OF a] show thesis
    by (cases r; intro that [of r st']) (auto simp: on_store_def fe_store_laws)
qed (use assms in simp_all)

lemma maintenance_run:
  assumes "maintenance_tick (cf_runtime cf) (cf_store cf) enumerate_lanes (cf_policy cf) now p = (r, p')"
    and "cf_store cf = fe_store cs"
  shows "lock_run cf cs ((p, ch), map Plain ts) [] ((p', ch), map Plain ts)"
proof -
  let ?s = "snd (tick_metrics cf enumerate_lanes p)"
  have "\<forall>t \<in> set (map Plain ts). \<not> is_sweep t" by auto
  from lock_step.tick [OF this, of cf cs p ch enumerate_lanes now]
  have start: "lock_step cf cs ((p, ch), map Plain ts) [] (((fst p, ?s), ch),
      map Plain ts @ (if is_unbounded (cf_policy cf) then [] else [Sweeping (RetentionCall (cf_policy cf) now) now]))"
    by (simp add: tick_metrics_def)
  show ?thesis
  proof (cases "is_unbounded (cf_policy cf)")
    case True
    with assms(1) start show ?thesis
      by (intro lock_run_single) (auto simp: maintenance_tick_def tick_metrics_def Let_def)
  next
    case False
    obtain r1 st where e: "fe_enforce_retention cs (cf_policy cf) now (fst p) = (r1, st)" by force
    obtain r2 s2 where q: "enforce_dead_trigger_retention (cf_runtime cf) (cf_policy cf) now ?s = (r2, s2)" by force
    have p': "p' = (st, if is_ok r1 then s2 else ?s)"
      using assms False e q by (cases r1; cases r2) (auto simp: maintenance_tick_def tick_metrics_def Let_def fe_store_laws)
    from sweep_run [OF retention_finishes [OF e], of cf ?s ch "map Plain ts" now "[]"]
    have "lock_run cf cs (((fst p, ?s), ch), map Plain ts @ [Sweeping (RetentionCall (cf_policy cf) now) now]) []
        (((st, ?s), ch), map Plain ts @ (if is_ok r1 then [SweepingQueue now] else []))" by simp
    moreover have "lock_run cf cs (((st, ?s), ch), map Plain ts @ (if is_ok r1 then [SweepingQueue now] else [])) []
        ((p', ch), map Plain ts)"
      using lock_run_single [OF lock_step.queue_swept [OF q, of cs st ch "map Plain ts" "[]"]] p'
      by (cases r1) (simp_all add: lock_run.refl)
    ultimately have "lock_run cf cs (((fst p, ?s), ch), map Plain ts @ [Sweeping (RetentionCall (cf_policy cf) now) now]) []
        ((p', ch), map Plain ts)" using lock_run_trans by fastforce
    with start False show ?thesis by (auto intro: lock_run_Cons)
  qed
qed

lemma lock_step_of_server_step:
  assumes "server_step cf s ls s'" and "cf_store cf = fe_store cs"
  shows "lock_run cf cs (fst s, map Plain (snd s)) ls (fst s', map Plain (snd s'))"
  using assms(1)
proof (cases rule: server_step.cases)
  case (task t sv ts sv' xs ys)
  obtain st r ch where sv: "sv = ((st, r), ch)" by (metis prod.exhaust)
  show ?thesis
  proof (cases "store_call t")
    case None
    from lock_run_single [OF lock_step.plain [OF None task(3), of cs "map Plain xs" "map Plain ys"]] task
    show ?thesis by simp
  next
    case (Some th)
    from task_step_as_call [OF Some assms(2) task(3) [unfolded sv]] obtain x st' where
      x: "finishes cs th st (UnitReply x) st'" "resume cf t (map_err Storage x) = (ls, ts)" "sv' = ((st', r), ch)" by blast
    have "lock_run cf cs (((st, r), ch), map Plain xs @ Plain t # map Plain ys) ls
        (((st', r), ch), map Plain xs @ map Plain ts @ map Plain ys)"
      by (rule lock_run_Cons [OF lock_step.enter [OF Some] in_store_run [OF x(1,2)]])
    with task sv x(3) show ?thesis by simp
  qed
next
  case (receive i now headers bdy event sv tasks)
  from lock_run_single [OF lock_step.receive [OF receive(4), of cs sv "map Plain tasks"]] receive
  show ?thesis by simp
next
  case (dispatch ch event rest tasks p)
  then have "\<forall>t \<in> set (map Plain tasks). lock_owner t \<noteq> Some Dispatcher" by auto
  from lock_run_single [OF lock_step.dispatch [OF dispatch(4) this, of cf cs p]] dispatch
  show ?thesis by simp
next
  case (replay p q event rest ch tasks)
  from lock_run_single [OF lock_step.replay [OF replay(4), of cs ch "map Plain tasks"]] replay
  show ?thesis by simp
next
  case (cancel t event sv xs ys)
  from lock_run_single [OF lock_step.cancel [OF cancel(4), of cf cs sv "map Plain xs" "map Plain ys"]] cancel
  show ?thesis by simp
next
  case (cancel_sent owner event r rs report job n left s x s' st ch xs ys)
  from lock_run_single [OF lock_step.cancel_sent [OF cancel_sent(4,5), of cs st ch "map Plain xs" "map Plain ys"]] cancel_sent
  show ?thesis by simp
next
  case (maintain enumerate_lanes now p r p' ch tasks)
  from maintenance_run [OF maintain(4) assms(2), of ch tasks] maintain show ?thesis by simp
qed

text \<open>The coarse server is a refinement of the fine one. Every run of the server in which a store method is one
  step is a run of the server in which the methods are cut at every release of a lock, with the same labels,
  answers included, and the same final store, runtime state, channel and tasks.\<close>

theorem server_runs_are_lock_runs:
  assumes "server_run cf s ls s'" and "cf_store cf = fe_store cs"
  shows "lock_run cf cs (fst s, map Plain (snd s)) ls (fst s', map Plain (snd s'))"
  using assms(1)
proof (induction rule: server_run.induct)
  case (step s ls t ls' u)
  then show ?case using lock_run_trans [OF lock_step_of_server_step [OF step.hyps(2) assms(2)]] by blast
qed (rule lock_run.refl)

theorem server_runs_are_lock_runs_witness:
  "\<exists>r p'. maintenance_tick (cf_runtime (demo_config IngestEventHandler)) (fe_store blank_codecs) (\<lambda>_. [])
        (cf_policy (demo_config IngestEventHandler)) 5 (demo_pipeline [demo_event]) = (r, p')
     \<and> lock_run (demo_config IngestEventHandler) blank_codecs ((demo_pipeline [demo_event], demo_channel), []) []
          ((p', demo_channel), [])"
proof -
  let ?cf = "demo_config IngestEventHandler" and ?p = "demo_pipeline [demo_event]"
  have st: "cf_store ?cf = fe_store blank_codecs" by (simp add: demo_config_def)
  obtain r p' where tick: "maintenance_tick (cf_runtime ?cf) (cf_store ?cf) (\<lambda>_. []) (cf_policy ?cf) 5 ?p = (r, p')"
    using surjective_pairing by blast
  from server_runs_are_lock_runs [OF server_run_single [OF server_step.maintain [OF tick, of demo_channel "[]"]] st] tick st
  show ?thesis by (intro exI [of _ r] exI [of _ p']) simp
qed

subsection \<open>No event is lost\<close>

text \<open>A task that leaves an id alone. A request that appends is inside the append of its event.\<close>

fun spares :: "event_id \<Rightarrow> lock_task \<Rightarrow> bool" where
  "spares i (Plain t) \<longleftrightarrow> (\<forall>owner e report. t = Marking owner e report \<longrightarrow> ev_id e \<noteq> i)"
| "spares i (InStore t th) \<longleftrightarrow> leaves i th \<and> (\<forall>a. t = Appending a \<longrightarrow> th = AppendCall a)"
| "spares i (Sweeping th now) \<longleftrightarrow> leaves i th"
| "spares i (SweepingQueue now) \<longleftrightarrow> True"

definition lock_kept :: "event_envelope \<Rightarrow> ('b, 'q) lock_state \<Rightarrow> bool" where
  "lock_kept e c \<longleftrightarrow> ev_id e \<notin> fe_delivered_set (fst (fst (fst c))) \<and> (\<forall>t \<in> set (snd c). spares (ev_id e) t)"

definition in_log :: "event_envelope \<Rightarrow> ('b, 'q) lock_state \<Rightarrow> bool" where
  "in_log e c \<longleftrightarrow> e \<in> set (fe_all (fst (fst (fst c))))"

lemma start_not_marking [simp]:
  "start_handling cf ow e \<noteq> Marking ow' e' rep" "Marking ow' e' rep \<noteq> start_handling cf ow e"
  by (simp_all add: start_handling_def)

lemma next_task_spares:
  "next_task ow e r rs rep x = (ls, ts) \<Longrightarrow> Stored a \<notin> set ls \<and> (\<forall>t \<in> set ts. spares i (Plain t))"
  by (auto simp: next_task_def answer_def split: sum.splits prod.splits result.splits if_splits)

lemma plain_step_spares:
  assumes "task_step cf t (p, ch) = Some (ls, ts, (p', ch'))" and "store_call t = None"
  shows "fst p' = fst p \<and> Stored a \<notin> set ls
     \<and> ((\<forall>t \<in> set ts. spares i (Plain t)) \<or> (\<exists>e. ev_id e = i \<and> Handled e \<in> set ls))"
proof (cases t)
  case (Looking e)
  with assms show ?thesis by (auto split: option.splits)
next
  case (Sending e)
  with assms show ?thesis by (auto simp: send_step_def split: if_splits)
next
  case (Waiting e)
  with assms show ?thesis by (auto simp: send_step_def split: if_splits)
next
  case (Handling owner e rs report)
  show ?thesis
  proof (cases rs)
    case Nil
    with Handling assms show ?thesis by (cases owner rule: owner_cases) auto
  next
    case (Cons r rs')
    with Handling assms next_task_spares [of owner e r rs' report _ ls ts a i] show ?thesis by (auto split: prod.splits)
  qed
next
  case (Submitting owner e r rs report job n left)
  with assms next_task_spares [of owner e r rs report _ ls ts a i] show ?thesis by (auto split: prod.splits)
qed (use assms in simp_all)

lemma resume_spares: "resume cf t r = (ls, ts) \<Longrightarrow> \<forall>t \<in> set ts. spares i (Plain t)"
  by (cases t) (auto split: result.splits event_handler.splits)

lemma resume_stores:
  "resume cf t (map_err Storage r) = (ls, ts) \<Longrightarrow> Stored a \<in> set ls \<Longrightarrow> t = Appending a \<and> r = Ok ()"
  by (cases t) (auto simp: answer_def split: result.splits if_splits)

lemma store_call_leaves: "store_call t = Some th \<Longrightarrow> spares i (Plain t) \<Longrightarrow> spares i (InStore t th)"
  by (cases t) auto

lemma lock_kept_thread:
  assumes "lock_kept e (((st, s), ch), xs @ t # ys)" and "leaves (ev_id e) th"
    and "thread_step cs th st = (n, st')" and "\<forall>t \<in> set ts. spares (ev_id e) t"
  shows "lock_kept e (((st', s), ch), xs @ ts @ ys)
     \<and> (in_log e (((st, s), ch), xs @ t # ys) \<or> th = AppendCall e \<and> n = Inr (UnitReply (Ok ()))
          \<longrightarrow> in_log e (((st', s), ch), xs @ ts @ ys))"
  using thread_step_leaves [OF assms(3,2)] assms(1,4) by (auto simp: lock_kept_def in_log_def)

lemma lock_step_kept:
  assumes "lock_step cf cs c ls c'" and "no_hard_bounds (cf_policy cf)" and "lock_kept e c"
  shows "lock_kept e c' \<and> (in_log e c \<or> Stored e \<in> set ls \<longrightarrow> in_log e c')
     \<or> (\<exists>e'. ev_id e' = ev_id e \<and> Handled e' \<in> set ls)"
  using assms(1)
proof (cases rule: lock_step.cases)
  case (plain t sv ts sv' xs ys)
  obtain p ch p' ch' where sv: "sv = (p, ch)" "sv' = (p', ch')" by (metis prod.exhaust)
  from plain_step_spares [OF plain(4) [unfolded sv] plain(3), of e "ev_id e"] plain sv assms(3)
  show ?thesis by (auto simp: lock_kept_def in_log_def)
next
  case (enter t th sv xs ys)
  with assms(3) store_call_leaves [OF enter(4), of "ev_id e"] show ?thesis by (auto simp: lock_kept_def in_log_def)
next
  case (locked th st th' st' s ch xs t ys)
  with assms(3) have l: "leaves (ev_id e) th" "ev_id e \<notin> fe_delivered_set st" "\<forall>a. t \<noteq> Appending a"
    by (auto simp: lock_kept_def apfst_def map_prod_def split: prod.splits)
  from thread_step_leaves [OF locked(4) l(1,2)] have "leaves (ev_id e) th'" by simp
  with lock_kept_thread [OF assms(3) [unfolded locked(1)] l(1) locked(4), of "[InStore t th']"] l(3) locked show ?thesis by simp
next
  case (leave th st r st' t ts s ch xs ys)
  with assms(3) have l: "leaves (ev_id e) th" "\<forall>a. t = Appending a \<longrightarrow> th = AppendCall a" by (auto simp: lock_kept_def)
  from resume_spares [OF leave(4), of "ev_id e"] resume_stores [OF leave(4), of e] l(2)
    lock_kept_thread [OF assms(3) [unfolded leave(1)] l(1) leave(3), of "map Plain ts"] leave show ?thesis by auto
next
  case (sweep th st th' st' s ch xs now ys)
  with assms(3) have l: "leaves (ev_id e) th" "ev_id e \<notin> fe_delivered_set st" by (auto simp: lock_kept_def)
  from thread_step_leaves [OF sweep(4) l] have "leaves (ev_id e) th'" by simp
  with lock_kept_thread [OF assms(3) [unfolded sweep(1)] l(1) sweep(4), of "[Sweeping th' now]"] sweep show ?thesis by simp
next
  case (swept th st r st' s ch xs now ys)
  with assms(3) have l: "leaves (ev_id e) th" by (auto simp: lock_kept_def)
  from lock_kept_thread [OF assms(3) [unfolded swept(1)] l swept(4), of "if is_ok r then [SweepingQueue now] else []"]
    swept show ?thesis by auto
qed (use assms(2,3) in \<open>auto simp: lock_kept_def in_log_def tick_metrics_def\<close>)

lemma lock_run_kept:
  assumes "lock_run cf cs c ls c'" and "no_hard_bounds (cf_policy cf)" and "lock_kept e c"
  shows "lock_kept e c' \<and> (in_log e c \<or> Stored e \<in> set ls \<longrightarrow> in_log e c')
     \<or> (\<exists>e'. ev_id e' = ev_id e \<and> Handled e' \<in> set ls)"
  using assms(1,3)
proof (induction rule: lock_run.induct)
  case (step s ls t ls' u)
  then show ?case using lock_step_kept [OF step.hyps(2) assms(2)] by auto
qed simp

text \<open>C6: no event is lost while the server runs, at the granularity of locks. Without hard retention bounds, under
  every interleaving of requests, dispatches, replays, cancellations and the sections of appends, marks and sweeps
  between the store's locks, and whatever I/O or broker calls fail, an event that is not delivered at the start, and
  that is in the store then or is stored by a request of the run, even while a sweep is under way, is in the store and
  undelivered at the end, unless a handling of an event with its id has come to its end.\<close>

theorem no_event_lost_between_locks:
  assumes "lock_run cf cs (sv, []) ls (sv', ts)" and "no_hard_bounds (cf_policy cf)"
    and "ev_id e \<notin> fe_delivered_set (fst (fst sv))"
    and "e \<in> set (fe_all (fst (fst sv))) \<or> Stored e \<in> set ls"
  shows "e \<in> set (fe_undelivered (fst (fst sv'))) \<or> (\<exists>e'. ev_id e' = ev_id e \<and> Handled e' \<in> set ls)"
  using lock_run_kept [OF assms(1,2), of e] assms(3,4) by (auto simp: lock_kept_def in_log_def fe_undelivered_def)

text \<open>A sweep reads the delivered set, then a request stores its event, then the sweep goes over the log.\<close>

theorem no_event_lost_between_locks_witness:
  "\<exists>e sv' ts. lock_run (demo_config IngestEventHandler) blank_codecs ((demo_pipeline [], demo_channel), [])
        [Received e, Stored e] (sv', ts)
     \<and> e \<in> set (fe_undelivered (fst (fst sv')))"
proof -
  let ?cf = "demo_config IngestEventHandler" and ?p = "demo_pipeline []" and ?e = "envelope_new (EventId 1) 0 Http ''event.demo'' []"
  let ?sweep = "Sweeping (RetentionRetain {} (cf_policy ?cf) 5) 5"
  obtain st s where t: "tick_metrics ?cf (\<lambda>_. []) ?p = (st, s)" "st = blank_store [] []"
    by (simp add: tick_metrics_def demo_pipeline_def)
  have b: "\<not> is_unbounded (cf_policy ?cf)" "no_hard_bounds (cf_policy ?cf)"
    by (simp_all add: demo_config_def is_unbounded_def no_hard_bounds_def unbounded_def)
  from lock_step.tick [of "[]" ?cf blank_codecs ?p demo_channel "\<lambda>_. []" 5] t b(1)
  have "lock_step ?cf blank_codecs ((?p, demo_channel), []) []
      (((st, s), demo_channel), [] @ Sweeping (RetentionCall (cf_policy ?cf) 5) 5 # [])" by simp
  note r1 = lock_run.step [OF lock_run.refl this]
  have "thread_step blank_codecs (RetentionCall (cf_policy ?cf) 5) st = (Inl (RetentionRetain {} (cf_policy ?cf) 5), st)"
    using b(1) t(2) by (simp add: blank_store_def)
  note r2 = lock_run.step [OF r1 lock_step.sweep [OF this]]
  have "admit (cf_web ?cf) (cf_verifier ?cf) (EventId 1) 0 Map.empty ''event.demo'' = Some ?e"
    by (simp add: admit_def demo_config_def MAX_EVENT_BODY_BYTES_def demo_web_def post_events_def with_metadata_def
        envelope_new_def default_metadata_def)
  from lock_run.step [OF r2 lock_step.receive [OF this]]
  have r3: "lock_run ?cf blank_codecs ((?p, demo_channel), []) [Received ?e]
      (((st, s), demo_channel), [?sweep] @ Plain (Looking ?e) # [])" by simp
  have "task_step ?cf (Looking ?e) ((st, s), demo_channel) = Some ([], [Appending ?e], ((st, s), demo_channel))"
    by (simp add: existing_event_def envelope_new_def default_metadata_def)
  from lock_run.step [OF r3 lock_step.plain [OF _ this]]
  have r4: "lock_run ?cf blank_codecs ((?p, demo_channel), []) [Received ?e]
      (((st, s), demo_channel), [?sweep] @ Plain (Appending ?e) # [])" by simp
  have "store_call (Appending ?e) = Some (AppendCall ?e)" by simp
  note r5 = lock_run.step [OF r4 lock_step.enter [OF this]]
  obtain st1 where "thread_step blank_codecs (AppendCall ?e) st = (Inr (UnitReply (Ok ())), st1)"
    using t(2) by (simp add: blank_append)
  from lock_run.step [OF r5 lock_step.leave [OF this]]
  have r6: "lock_run ?cf blank_codecs ((?p, demo_channel), []) [Received ?e, Stored ?e]
      (((st1, s), demo_channel), [] @ ?sweep # [Plain (start_handling ?cf Request ?e)])" by (simp add: demo_config_def)
  obtain n st2 where n: "thread_step blank_codecs (RetentionRetain {} (cf_policy ?cf) 5) st1 = (n, st2)" by force
  have "\<exists>ts. lock_run ?cf blank_codecs ((?p, demo_channel), []) ([Received ?e, Stored ?e] @ []) (((st2, s), demo_channel), ts)"
  proof (cases n)
    case (Inl th)
    with n show ?thesis by (blast intro: lock_run.step [OF r6 lock_step.sweep])
  next
    case (Inr x)
    with n obtain r where "x = CountReply r" by (auto simp: Let_def split: prod.splits result.splits if_splits)
    with n Inr show ?thesis by (blast intro: lock_run.step [OF r6 lock_step.swept])
  qed
  then obtain ts where run: "lock_run ?cf blank_codecs ((?p, demo_channel), []) [Received ?e, Stored ?e]
      (((st2, s), demo_channel), ts)" by auto
  from no_event_lost_between_locks [OF run b(2), of ?e] have "?e \<in> set (fe_undelivered st2)"
    by (auto simp: demo_pipeline_def blank_store_def)
  with run show ?thesis by (intro exI [of _ ?e] exI [of _ "((st2, s), demo_channel)"] exI [of _ ts]) simp
qed

end
