(* ===== verification/Restart.thy ===== *)
theory Restart
  imports Ingest
begin

text \<open>
  The file event store across a crash. The event log and the journal of delivered ids are two files on one
  disk; \<open>fe_ok\<close> says that both are in step with the disk and that their names are on stable storage. It is kept by
  every successful append and delivery mark, and after any crash reopening the store gives back the events
  and the delivered ids. So what the two ingestion paths acknowledge survives a restart.
\<close>

definition fe_ok :: "event_codecs \<Rightarrow> file_event_store \<Rightarrow> bool" where
  "fe_ok cs s \<longleftrightarrow>
     store_ok (fst cs) (fe_inner s, fe_fs s) \<and> store_ok (snd cs) (fe_delivered s, fe_fs s)
     \<and> entry_durable (fe_inner s, fe_fs s) \<and> entry_durable (fe_delivered s, fe_fs s)
     \<and> js_path (fe_delivered s) = delivered_path (js_path (fe_inner s))
     \<and> set (js_records (fe_delivered s)) = fe_delivered_set s"

lemma delivered_path_neq [simp]: "delivered_path p \<noteq> p" "p \<noteq> delivered_path p"
  by (simp_all add: delivered_path_def)

lemma fe_ok_files: "fe_ok cs s \<Longrightarrow> js_file (fe_inner s) \<noteq> js_file (fe_delivered s)"
  by (auto simp: fe_ok_def store_ok_def fs_ok_def) (metis delivered_path_neq(1))

text \<open>An append to one file leaves the other in step.\<close>

lemma jsonl_append_frame:
  assumes "jsonl_append c r (st, w) = (Ok u, (st', w'))" and "js_file o_st \<noteq> js_file st"
    and "store_ok c' (o_st, w)" and "store_ok c (st, w)"
  shows "store_ok c' (o_st, w')"
  using jsonl_append_Ok [OF assms(1)] assms(2-4) by (auto simp: store_ok_def fs_ok_def)

lemma jsonl_append_entries:
  assumes "jsonl_append c r (st, w) = (Ok u, (st', w'))"
  shows "js_path st' = js_path st \<and> js_file st' = js_file st \<and> fs_synced_entries w' = fs_synced_entries w
     \<and> js_records st' = js_records st @ [r]"
  using jsonl_append_Ok [OF assms] by simp

lemma fe_append_ok:
  assumes "fe_ok cs s" and "codec_ok (fst cs) e" and "fe_append cs e s = (Ok u, s')"
  shows "fe_ok cs s' \<and> js_path (fe_inner s') = js_path (fe_inner s)"
proof -
  obtain st w where a: "jsonl_append (fst cs) e (fe_inner s, fe_fs s) = (Ok u, (st, w))"
    and s': "s' = s\<lparr>fe_inner := st, fe_fs := w\<rparr>"
    using assms(3) by (auto simp: fe_append_def on_inner_def split: prod.splits)
  have ok: "store_ok (fst cs) (fe_inner s, fe_fs s)" "store_ok (snd cs) (fe_delivered s, fe_fs s)"
    using assms(1) by (simp_all add: fe_ok_def)
  have "store_ok (fst cs) (st, w)" by (rule jsonl_append_store_ok [OF ok(1) assms(2) a])
  moreover have "store_ok (snd cs) (fe_delivered s, w)"
    by (rule jsonl_append_frame [OF a _ ok(2,1)]) (use fe_ok_files [OF assms(1)] in auto)
  ultimately show ?thesis using assms(1) jsonl_append_entries [OF a]
    by (auto simp: fe_ok_def s' entry_durable_def)
qed

lemma fe_mark_ok:
  assumes "fe_ok cs s" and "codec_ok (snd cs) i" and "fe_mark_delivered cs i s = (Ok u, s')"
  shows "fe_ok cs s' \<and> js_path (fe_inner s') = js_path (fe_inner s)"
proof (cases "i \<in> fe_delivered_set s")
  case True
  with assms show ?thesis by (simp add: fe_mark_delivered_def)
next
  case False
  then obtain v st w where a: "jsonl_append (snd cs) i (fe_delivered s, fe_fs s) = (Ok v, (st, w))"
    and s': "s' = s\<lparr>fe_delivered := st, fe_fs := w, fe_delivered_set := insert i (fe_delivered_set s)\<rparr>"
    using assms(3) by (auto simp: fe_mark_delivered_def on_delivered_def and_then_eq_Ok split: prod.splits)
  have ok: "store_ok (fst cs) (fe_inner s, fe_fs s)" "store_ok (snd cs) (fe_delivered s, fe_fs s)"
    using assms(1) by (simp_all add: fe_ok_def)
  have "store_ok (snd cs) (st, w)" by (rule jsonl_append_store_ok [OF ok(2) assms(2) a])
  moreover have "store_ok (fst cs) (fe_inner s, w)"
    by (rule jsonl_append_frame [OF a _ ok(1,2)]) (use fe_ok_files [OF assms(1)] in auto)
  ultimately show ?thesis using assms(1) jsonl_append_entries [OF a]
    by (auto simp: fe_ok_def s' entry_durable_def)
qed

subsection \<open>Reopening\<close>

lemma jsonl_open_existing:
  assumes "fs_script v = []" and "fs_entries v p = Some i" and "i \<notin> fs_locks v"
    and "fs_data v i = render c rs" and "\<forall>r \<in> set rs. codec_ok c r"
  shows "jsonl_open c p v = (Ok \<lparr>js_path = p, js_records = rs, js_file = i\<rparr>, v\<lparr>fs_locks := insert i (fs_locks v)\<rparr>)"
proof -
  have "read_jsonl c p v = (Ok rs, v)"
    using read_jsonl_no_script [OF assms(1,2), of c] parse_jsonl_render_exact [OF assms(5)] assms(4) by simp
  with assms(1-3) show ?thesis
    by (simp add: jsonl_open_def open_locked_append_def open_append_def try_lock_exclusive_def sys_simps)
qed

lemma crash_store:
  assumes "store_ok c (st, w)" and "entry_durable (st, w)" and "crash w v"
  shows "fs_entries v (js_path st) = Some (js_file st) \<and> fs_data v (js_file st) = render c (js_records st)
     \<and> (\<forall>r \<in> set (js_records st). codec_ok c r)"
  using crash_entry_durable [OF assms(3), of "js_path st"] crash_synced_data [OF assms(3), of "js_file st"] assms(1,2)
  by (simp add: store_ok_def entry_durable_def)

lemma fe_reopen:
  assumes "fe_ok cs s" and "crash (fe_fs s) v" and "fs_script v = []"
  obtains s' w where "fe_open cs (js_path (fe_inner s)) v = (Ok s', w)" "fe_all s' = fe_all s"
    "fe_delivered_set s' = fe_delivered_set s" "fs_script (fe_fs s') = []"
proof -
  have ok: "store_ok (fst cs) (fe_inner s, fe_fs s)" "store_ok (snd cs) (fe_delivered s, fe_fs s)"
    "entry_durable (fe_inner s, fe_fs s)" "entry_durable (fe_delivered s, fe_fs s)"
    "js_path (fe_delivered s) = delivered_path (js_path (fe_inner s))"
    "set (js_records (fe_delivered s)) = fe_delivered_set s"
    using assms(1) by (simp_all add: fe_ok_def)
  note inner = crash_store [OF ok(1,3) assms(2)] and delivered = crash_store [OF ok(2,4) assms(2)]
  have locks: "fs_locks v = {}" using assms(2) by (simp add: crash_def)
  let ?v = "v\<lparr>fs_locks := {js_file (fe_inner s)}\<rparr>"
  have o1: "jsonl_open (fst cs) (js_path (fe_inner s)) v = (Ok (fe_inner s), ?v)"
    using jsonl_open_existing [OF assms(3), of _ _ "fst cs" "js_records (fe_inner s)"] inner locks by simp
  have o2: "jsonl_open (snd cs) (js_path (fe_delivered s)) ?v
      = (Ok (fe_delivered s), ?v\<lparr>fs_locks := insert (js_file (fe_delivered s)) (fs_locks ?v)\<rparr>)"
    using jsonl_open_existing [of ?v "js_path (fe_delivered s)" _ "snd cs" "js_records (fe_delivered s)"]
      delivered assms(3) fe_ok_files [OF assms(1)] by auto
  from o1 o2 ok(5,6) assms(3) that show thesis
    by (auto simp: fe_open_def fe_all_def jsonl_all_def)
qed

subsection \<open>Acknowledged events survive\<close>

lemma accept_new_Ok:
  assumes "accept u (fe_store cs) e p = (Ok rep, p')" and "existing_event (fe_store cs) e (fst p) = None"
  obtains v where "fe_append cs e (fst p) = (Ok v, fst p')"
  using assms by (auto simp: accept_def and_then_eq_Ok on_store_def fe_store_laws split: prod.splits)

lemma ingest_new_Ok:
  assumes "ingest rt (fe_store cs) e p = (Ok rep, p')" and "existing_event (fe_store cs) e (fst p) = None"
  obtains st u v where "fe_append cs e (fst p) = (Ok u, st)" "fe_mark_delivered cs (ev_id e) st = (Ok v, fst p')"
  using assms
  by (auto simp: ingest_def and_then_eq_Ok on_store_def on_runtime_def fe_store_laws split: prod.splits)

text \<open>An event ingested with success by the synchronous path survives. After any crash that follows, the
  store opens again, it holds the earlier events and the new one, and the new one is known to be delivered.\<close>

lemma ingested_event_survives_restart:
  assumes "fe_ok cs (fst p)" and "codec_ok (fst cs) e" and "codec_ok (snd cs) (ev_id e)"
    and "existing_event (fe_store cs) e (fst p) = None" and "ingest rt (fe_store cs) e p = (Ok rep, p')"
    and "crash (fe_fs (fst p')) v" and "fs_script v = []"
  shows "\<exists>s w. fe_open cs (js_path (fe_inner (fst p))) v = (Ok s, w) \<and> fe_all s = fe_all (fst p) @ [e]
     \<and> fe_delivered_set s = insert (ev_id e) (fe_delivered_set (fst p))"
proof -
  from assms(4,5) obtain st u x where a: "fe_append cs e (fst p) = (Ok u, st)"
    and m: "fe_mark_delivered cs (ev_id e) st = (Ok x, fst p')" by (elim ingest_new_Ok)
  from fe_append_ok [OF assms(1,2) a] have st: "fe_ok cs st" "js_path (fe_inner st) = js_path (fe_inner (fst p))" by auto
  from fe_mark_ok [OF st(1) assms(3) m] have p': "fe_ok cs (fst p')" "js_path (fe_inner (fst p')) = js_path (fe_inner st)"
    by auto
  from fe_reopen [OF p'(1) assms(6,7)] obtain s w where "fe_open cs (js_path (fe_inner (fst p'))) v = (Ok s, w)"
    "fe_all s = fe_all (fst p')" "fe_delivered_set s = fe_delivered_set (fst p')" by blast
  with fe_append_memory [OF a] fe_mark_delivered_memory [OF m] st(2) p'(2) show ?thesis by auto
qed

text \<open>C9: an accepted event is delivered after a restart. When the asynchronous path has acknowledged a new
  event and the machine crashes before it was dispatched, the store opens again with the event undelivered,
  and a recovery pass that succeeds has it delivered.\<close>

theorem accepted_event_recovered_after_restart:
  assumes "fe_ok cs (fst p)" and "codec_ok (fst cs) e" and "ev_id e \<notin> fe_delivered_set (fst p)"
    and "existing_event (fe_store cs) e (fst p) = None" and "accept u (fe_store cs) e p = (Ok rep, p')"
    and "crash (fe_fs (fst p')) v" and "fs_script v = []"
  shows "\<exists>s w. fe_open cs (js_path (fe_inner (fst p))) v = (Ok s, w) \<and> fe_all s = fe_all (fst p) @ [e]
     \<and> e \<in> set (fe_undelivered s)
     \<and> (\<forall>rt q n p''. recover_undelivered rt (fe_store cs) (s, q) = (Ok n, p'') \<longrightarrow> ev_id e \<in> fe_delivered_set (fst p''))"
proof -
  from assms(5,4) obtain x where a: "fe_append cs e (fst p) = (Ok x, fst p')" by (elim accept_new_Ok)
  from fe_append_ok [OF assms(1,2) a] have p': "fe_ok cs (fst p')" "js_path (fe_inner (fst p')) = js_path (fe_inner (fst p))"
    by auto
  from fe_reopen [OF p'(1) assms(6,7)] obtain s w where s: "fe_open cs (js_path (fe_inner (fst p'))) v = (Ok s, w)"
    "fe_all s = fe_all (fst p')" "fe_delivered_set s = fe_delivered_set (fst p')" by blast
  with fe_append_memory [OF a] have all: "fe_all s = fe_all (fst p) @ [e]" "fe_delivered_set s = fe_delivered_set (fst p)"
    by auto
  have "ev_id e \<in> fe_delivered_set (fst p'')" if "recover_undelivered rt (fe_store cs) (s, q) = (Ok n, p'')" for rt q n p''
  proof -
    from fe.recover_undelivered_state [OF that] have r: "fe_all (fst p'') = fe_all s"
      "filter (\<lambda>e. ev_id e \<notin> fe_delivered_set (fst p'')) (fe_all (fst p'')) = []" by (auto simp: fe_store_laws)
    from r(2) show ?thesis unfolding r(1) all(1) by (simp add: filter_empty_conv split: if_splits)
  qed
  with s(1) p'(2) all assms(3) show ?thesis by (auto simp: fe_undelivered_def)
qed

subsection \<open>A concrete disk\<close>

text \<open>Codecs that know one event and its id, and a store with both files empty.\<close>

definition pin_codecs :: "event_envelope \<Rightarrow> event_codecs" where
  "pin_codecs e = (\<lparr>to_vec = (\<lambda>_. Ok ''{}''), from_str = (\<lambda>_. Ok e)\<rparr>, \<lparr>to_vec = (\<lambda>_. Ok ''1''), from_str = (\<lambda>_. Ok (ev_id e))\<rparr>)"

definition two_files :: fs where
  "two_files =
     \<lparr>fs_entries = [''d/s.jsonl'' \<mapsto> 0, ''d/s.jsonl.delivered'' \<mapsto> 1],
      fs_synced_entries = [''d/s.jsonl'' \<mapsto> 0, ''d/s.jsonl.delivered'' \<mapsto> 1],
      fs_data = (\<lambda>_. []), fs_synced = (\<lambda>_. []), fs_locks = {0, 1}, fs_next = 2, fs_script = []\<rparr>"

definition empty_store :: file_event_store where
  "empty_store =
     \<lparr>fe_inner = \<lparr>js_path = ''d/s.jsonl'', js_records = [], js_file = 0\<rparr>,
      fe_delivered = \<lparr>js_path = ''d/s.jsonl.delivered'', js_records = [], js_file = 1\<rparr>,
      fe_delivered_set = {}, fe_fs = two_files\<rparr>"

lemma empty_store_ok: "fe_ok cs empty_store"
  by (auto simp: fe_ok_def store_ok_def fs_ok_def entry_durable_def empty_store_def two_files_def delivered_path_def
      with_extension_def file_name_def file_stem_def split: if_splits)

lemma pin_codecs_ok: "codec_ok (fst (pin_codecs e)) e" "codec_ok (snd (pin_codecs e)) (ev_id e)"
  by (auto simp: codec_ok_def pin_codecs_def intro!: from_utf8_ascii ws_len_ascii)

text \<open>The disk after a crash of a disk on which everything is synced.\<close>

definition after_crash :: "fs \<Rightarrow> fs" where
  "after_crash w = w\<lparr>fs_synced := fs_data w, fs_synced_entries := fs_entries w, fs_locks := {}, fs_script := []\<rparr>"

lemma after_crash: "crash w (after_crash w)"
  by (simp add: crash_def after_crash_def crash_contents_def)

lemma demo_event_new: "existing_event es demo_event st = None"
  by (simp add: existing_event_def demo_event_def envelope_new_def default_metadata_def)

lemmas empty_store_eval = empty_store_def two_files_def pin_codecs_def fe_store_laws on_store_def on_runtime_def
  fe_append_def fe_mark_delivered_def on_inner_def on_delivered_def jsonl_append_def write_all_def sync_file_def attempt_def

theorem accepted_event_recovered_after_restart_witness:
  "\<exists>v s w. fe_open (pin_codecs demo_event) ''d/s.jsonl'' v = (Ok s, w) \<and> fe_undelivered s = [demo_event]"
proof -
  let ?cs = "pin_codecs demo_event"
  let ?p = "(empty_store, rt_new (0, []) []) :: (file_event_store, nat \<times> (string \<times> string) list, in_memory_queue) pipeline"
  obtain rep p' where run: "accept unary_uuid (fe_store ?cs) demo_event ?p = (Ok rep, p')"
    by (simp add: accept_def demo_event_new empty_store_eval)
  have "fe_ok ?cs (fst ?p)" by (simp add: empty_store_ok)
  from accepted_event_recovered_after_restart [OF this pin_codecs_ok(1) _ _ run after_crash [of "fe_fs (fst p')"]]
  obtain s w where s: "fe_open ?cs ''d/s.jsonl'' (after_crash (fe_fs (fst p'))) = (Ok s, w)" "fe_all s = [demo_event]"
    "demo_event \<in> set (fe_undelivered s)"
    by (auto simp: demo_event_new after_crash_def empty_store_def fe_all_def jsonl_all_def)
  then have "fe_undelivered s = [demo_event]" by (auto simp: fe_undelivered_def split: if_splits)
  with s(1) show ?thesis by blast
qed

end
