(* ===== verification/Store_Sessions.thy ===== *)
theory Store_Sessions
  imports Restart
begin

text \<open>
  A whole life of the file event store of \<open>crates/triggerlane-storage/src/lib.rs\<close>: it is opened in a directory
  that does not have its files yet, used by any sequence of appends, delivery marks, retention sweeps and
  prunes, and the machine crashes. As long as the calls succeeded, the store stays well formed (\<open>fe_ok\<close>): both
  files are in step with the disk. So the next process finds exactly the events and the delivered ids the last
  one had. The work is in the frames: a compaction of one file replaces its inode through a temporary name,
  and must leave the other file of the store alone.
\<close>

subsection \<open>Paths\<close>

lemma last_with_extension: "last (with_extension p ''compact'') = CHR ''t''"
  by (simp add: with_extension_def)

lemma compact_neq_delivered: "with_extension p ''compact'' \<noteq> delivered_path q"
proof
  assume "with_extension p ''compact'' = delivered_path q"
  then have "last (with_extension p ''compact'') = last (delivered_path q)" by simp
  then show False by (simp add: last_with_extension delivered_path_def)
qed

lemma file_name_append: "CHR ''/'' \<notin> set x \<Longrightarrow> file_name (p @ x) = file_name p @ x"
  by (subst file_name_def, subst file_name_def, subst rev_append, subst takeWhile_append2) auto

lemma length_file_name: "length (file_name p) \<le> length p"
  by (simp add: file_name_def) (metis length_rev length_takeWhile_le)

lemma file_stem_delivered: "length (file_stem (n @ ''.delivered'')) \<ge> length n"
  by (cases n) (auto simp: file_stem_def)

lemma delivered_compact_neq: "with_extension (delivered_path p) ''compact'' \<noteq> p"
proof
  assume eq: "with_extension (delivered_path p) ''compact'' = p"
  have "length (with_extension (delivered_path p) ''compact'')
      \<ge> (length p - length (file_name p)) + length (file_name p) + 8"
    using file_stem_delivered [of "file_name p"] length_file_name [of p]
    by (simp add: with_extension_def delivered_path_def file_name_append)
  with eq length_file_name [of p] show False by simp
qed

lemma delivered_parent: "path_parent p \<noteq> [] \<Longrightarrow> path_parent (delivered_path p) \<noteq> []"
  by (auto simp: path_parent_def delivered_path_def Let_def split: if_splits)

subsection \<open>Frames\<close>

text \<open>What a compaction leaves of another file on the disk.\<close>

lemma compact_jsonl_frame:
  assumes ok: "store_ok c (st, w)" and q: "fs_entries w q = Some j" "q \<noteq> js_path st"
      "q \<noteq> with_extension (js_path st) ''compact''"
    and run: "compact_jsonl c (js_path st) kept w = (Ok i, v)"
  shows "fs_entries v q = Some j \<and> fs_data v j = fs_data w j \<and> fs_synced v j = fs_synced w j
     \<and> fs_locks w \<subseteq> fs_locks v \<and> (fs_synced_entries v q = fs_synced_entries w q \<or> fs_synced_entries v q = Some j)"
proof -
  let ?p = "js_path st" and ?tmp = "with_extension (js_path st) ''compact''"
  from run obtain u1 w1 u2 w2 u3 w3 where wc: "write_compacted (to_vec c) ?tmp kept w = (Ok u1, w1)"
    and rn: "fs_rename ?tmp ?p w1 = (Ok u2, w2)" and sd: "sync_parent_dir ?p w2 = (Ok u3, w3)"
    and op: "open_locked_append ?p w3 = (Ok i, v)"
    by (auto simp: compact_jsonl_def Let_def and_then_eq_Ok)
  have w: "fs_ok w" "fs_entries w ?p = Some (js_file st)" "?tmp \<noteq> ?p" using ok by (auto simp: store_ok_def)
  from write_compacted_result [OF w(1) q(1) q(3) [symmetric] wc]
  have c1: "fs_entries w1 q = Some j" "fs_data w1 j = fs_data w j" "fs_synced w1 j = fs_synced w j"
    "fs_synced_entries w1 = fs_synced_entries w" "fs_locks w1 = fs_locks w" by auto
  from write_compacted_result [OF w wc] obtain k where "fs_entries w1 ?tmp = Some k" by auto
  with fs_rename_Ok [OF rn] q w(3) have c2: "fs_entries w2 q = fs_entries w1 q" "fs_data w2 = fs_data w1"
    "fs_synced w2 = fs_synced w1" "fs_synced_entries w2 = fs_synced_entries w1" "fs_locks w2 = fs_locks w1"
    "fs_entries w2 ?p = Some k" by auto
  note c3 = sync_parent_dir_result [OF sd] sync_parent_dir_entries [OF sd, of q]
  from open_locked_append_Ok [OF op] c2 c3 have "same_files w3 v" "fs_locks v = insert i (fs_locks w3)" by auto
  with c1 c2 c3 show ?thesis by (auto simp: same_files_def)
qed

lemma jsonl_replace_all_frame:
  assumes ok: "store_ok c (st, w)" and other: "store_ok c' (o_st, w)" "js_path o_st \<noteq> js_path st"
      "js_path o_st \<noteq> with_extension (js_path st) ''compact''"
    and kept: "\<forall>r \<in> set kept. codec_ok c r"
    and run: "jsonl_replace_all c kept (st, w) = (Ok u, (st', w'))"
  shows "store_ok c' (o_st, w') \<and> (entry_durable (o_st, w) \<longrightarrow> entry_durable (o_st, w'))"
proof -
  from run obtain i v where c: "compact_jsonl c (js_path st) kept w = (Ok i, v)"
    and w': "w' = drop_handle (js_file st) v"
    by (auto simp: jsonl_replace_all_def split: prod.splits result.splits)
  have o: "fs_entries w (js_path o_st) = Some (js_file o_st)" using other(1) by (simp add: store_ok_def)
  have "js_file o_st \<noteq> js_file st"
    using ok other o unfolding store_ok_def fs_ok_def by auto
  moreover note compact_jsonl_frame [OF ok o other(2,3) c]
  moreover have "fs_ok w'"
    using jsonl_replace_all_result [OF ok kept run] by (simp add: store_ok_def)
  ultimately show ?thesis using other(1) by (auto simp: store_ok_def entry_durable_def w' drop_handle_def)
qed

subsection \<open>Compactions keep the store well formed\<close>

text \<open>\<open>fe_ok\<close> for a store whose paths have a directory part, so that renamed entries are flushed.\<close>

definition fe_wf :: "event_codecs \<Rightarrow> file_event_store \<Rightarrow> bool" where
  "fe_wf cs s \<longleftrightarrow> fe_ok cs s \<and> path_parent (js_path (fe_inner s)) \<noteq> []"

lemma fe_wfD:
  assumes "fe_wf cs s"
  shows "fe_ok cs s" "store_ok (fst cs) (fe_inner s, fe_fs s)" "store_ok (snd cs) (fe_delivered s, fe_fs s)"
    "entry_durable (fe_inner s, fe_fs s)" "entry_durable (fe_delivered s, fe_fs s)"
    "js_path (fe_delivered s) = delivered_path (js_path (fe_inner s))"
    "set (js_records (fe_delivered s)) = fe_delivered_set s"
    "path_parent (js_path (fe_inner s)) \<noteq> []"
  using assms by (simp_all add: fe_wf_def fe_ok_def)

lemma fe_replace_inner:
  assumes "fe_wf cs s" and "\<forall>e \<in> set kept. codec_ok (fst cs) e"
    and "jsonl_replace_all (fst cs) kept (fe_inner s, fe_fs s) = (Ok u, (st, w))"
  shows "fe_wf cs (s\<lparr>fe_inner := st, fe_fs := w\<rparr>) \<and> js_path st = js_path (fe_inner s)"
proof -
  note wf = fe_wfD [OF assms(1)]
  from jsonl_replace_all_result [OF wf(2) assms(2,3)] wf(8)
  have st: "store_ok (fst cs) (st, w)" "js_path st = js_path (fe_inner s)" "entry_durable (st, w)" by auto
  have "js_path (fe_delivered s) \<noteq> with_extension (js_path (fe_inner s)) ''compact''"
    using compact_neq_delivered wf(6) by metis
  with jsonl_replace_all_frame [OF wf(2,3) _ _ assms(2,3)] wf(5,6)
  have "store_ok (snd cs) (fe_delivered s, w)" "entry_durable (fe_delivered s, w)" by auto
  with st wf show ?thesis by (simp add: fe_wf_def fe_ok_def)
qed

lemma fe_replace_delivered:
  assumes "fe_wf cs s" and "\<forall>i \<in> set kept. codec_ok (snd cs) i"
    and "jsonl_replace_all (snd cs) kept (fe_delivered s, fe_fs s) = (Ok u, (st, w))"
  shows "fe_wf cs (s\<lparr>fe_delivered := st, fe_fs := w, fe_delivered_set := set kept\<rparr>)"
proof -
  note wf = fe_wfD [OF assms(1)]
  from jsonl_replace_all_result [OF wf(3) assms(2,3)] delivered_parent [OF wf(8)] wf(6)
  have st: "store_ok (snd cs) (st, w)" "js_path st = js_path (fe_delivered s)" "entry_durable (st, w)"
    "js_records st = kept" by auto
  have "js_path (fe_inner s) \<noteq> with_extension (js_path (fe_delivered s)) ''compact''"
    using delivered_compact_neq wf(6) by metis
  with jsonl_replace_all_frame [OF wf(3,2) _ _ assms(2,3)] wf(4,6)
  have "store_ok (fst cs) (fe_inner s, w)" "entry_durable (fe_inner s, w)" by auto
  with st wf show ?thesis by (simp add: fe_wf_def fe_ok_def)
qed

lemma fe_retain_wf:
  assumes "fe_wf cs s" and "\<And>es. subseq (f es) es" and "on_inner (jsonl_retain (fst cs) f) s = (Ok n, s')"
  shows "fe_wf cs s' \<and> js_path (fe_inner s') = js_path (fe_inner s) \<and> fe_delivered s' = fe_delivered s"
proof -
  obtain st w where r: "jsonl_retain (fst cs) f (fe_inner s, fe_fs s) = (Ok n, (st, w))"
    and s': "s' = s\<lparr>fe_inner := st, fe_fs := w\<rparr>" using assms(3) by (auto simp: on_inner_def split: prod.splits)
  from r show ?thesis
  proof (cases rule: jsonl_retain_cases)
    case same
    with s' assms(1) show ?thesis by simp
  next
    case (compacted x)
    from compacted(3) obtain u where u: "x = Ok u" by (auto simp: is_ok_iff)
    have "\<forall>e \<in> set (f (js_records (fe_inner s))). codec_ok (fst cs) e"
      using fe_wfD(2) [OF assms(1)] subseq_set [OF assms(2)] by (auto simp: store_ok_def)
    from fe_replace_inner [OF assms(1) this compacted(2) [unfolded u]] s' show ?thesis by simp
  qed
qed

lemma fe_retention_wf:
  assumes "fe_wf cs s" and "fe_enforce_retention cs p now s = (Ok n, s')"
  shows "fe_wf cs s' \<and> js_path (fe_inner s') = js_path (fe_inner s)"
proof (cases "is_unbounded p")
  case True
  with assms show ?thesis by (simp add: fe_enforce_retention_def)
next
  case False
  let ?f = "\<lambda>es. retain_events (to_vec (fst cs)) es (fe_delivered_set s) p now"
  let ?kd = "filter (\<lambda>i. i \<in> set (map ev_id (?f (fe_all s)))) (sorted_list_of_set (fe_delivered_set s))"
  from assms(2) False obtain s1 where i: "on_inner (jsonl_retain (fst cs) ?f) s = (Ok n, s1)"
    and rest: "if n > 0 then \<exists>u t. on_delivered (jsonl_replace_all (snd cs) ?kd) s1 = (Ok u, t)
        \<and> s' = t\<lparr>fe_delivered_set := set ?kd\<rparr> else s' = s1"
    by (auto simp: fe_enforce_retention_def Let_def and_then_eq_Ok split: if_splits)
  note s1 = fe_retain_wf [OF assms(1) retain_events_subseq i]
  show ?thesis
  proof (cases "n > 0")
    case True
    with rest obtain u st w where d: "jsonl_replace_all (snd cs) ?kd (fe_delivered s1, fe_fs s1) = (Ok u, (st, w))"
      and s': "s' = s1\<lparr>fe_delivered := st, fe_fs := w, fe_delivered_set := set ?kd\<rparr>"
      by (auto simp: on_delivered_def split: prod.splits)
    have "\<forall>i \<in> set ?kd. codec_ok (snd cs) i"
      using fe_wfD(3,7) [OF assms(1)] sorted_list_of_set_subset [of "fe_delivered_set s"]
      by (auto simp: store_ok_def)
    from fe_replace_delivered [OF _ this d] s1 s' show ?thesis by simp
  qed (use rest s1 in simp)
qed

subsection \<open>Sessions\<close>

text \<open>A use of the store in which every call succeeds.\<close>

inductive fe_session :: "event_codecs \<Rightarrow> file_event_store \<Rightarrow> file_event_store \<Rightarrow> bool" for cs where
  opened: "fe_session cs s s"
| appended: "fe_session cs s t \<Longrightarrow> codec_ok (fst cs) e \<Longrightarrow> fe_append cs e t = (Ok u, t') \<Longrightarrow> fe_session cs s t'"
| marked: "fe_session cs s t \<Longrightarrow> codec_ok (snd cs) i \<Longrightarrow> fe_mark_delivered cs i t = (Ok u, t') \<Longrightarrow> fe_session cs s t'"
| swept: "fe_session cs s t \<Longrightarrow> fe_enforce_retention cs p now t = (Ok n, t') \<Longrightarrow> fe_session cs s t'"
| pruned: "fe_session cs s t \<Longrightarrow> fe_prune cs m t = (Ok n, t') \<Longrightarrow> fe_session cs s t'"

lemma fe_session_wf:
  "fe_session cs s t \<Longrightarrow> fe_wf cs s \<Longrightarrow> fe_wf cs t \<and> js_path (fe_inner t) = js_path (fe_inner s)"
proof (induction rule: fe_session.induct)
  case (appended s t e u t')
  then show ?case using fe_append_ok [of cs t e u t'] by (simp add: fe_wf_def)
next
  case (marked s t i u t')
  then show ?case using fe_mark_ok [of cs t i u t'] by (simp add: fe_wf_def)
next
  case (swept s t p now n t')
  then show ?case using fe_retention_wf [of cs t p now n t'] by simp
next
  case (pruned s t m n t')
  from fe_retain_wf [OF _ keep_subseq pruned.hyps(2) [unfolded fe_prune_def jsonl_prune_retain]] pruned
  show ?case by simp
qed simp

text \<open>Opening in a directory without the two files.\<close>

lemma jsonl_open_entries:
  assumes "jsonl_open c p w = (Ok st, v)" and "q \<noteq> p"
  shows "fs_entries v q = fs_entries w q"
proof -
  from assms(1) obtain rs w0 w1 i w2 ex where r: "read_jsonl c p w = (Ok rs, w0)" and f: "same_files w w1 \<and> fs_locks w1 = fs_locks w"
    and o: "open_locked_append p w1 = (Ok i, w2)"
    and fin: "if ex then v = w2 \<and> fs_entries w1 p \<noteq> None else sync_parent_dir p w2 = (Ok (), v)"
    by (elim jsonl_open_OkE)
  have "fs_entries v = fs_entries w2" using fin sync_parent_dir_result [of p w2 "Ok ()" v] by (auto split: if_splits)
  moreover have "fs_entries w2 q = fs_entries w1 q"
    using open_locked_append_Ok [OF o] assms(2) by (cases "fs_entries w1 p") (auto simp: same_files_def)
  ultimately show ?thesis using f by (simp add: same_files_def)
qed

lemma jsonl_open_new_frame:
  assumes "jsonl_open c p w = (Ok st, v)" and "fs_entries w p = None" and "store_ok c' (o_st, w)"
    and "js_path o_st \<noteq> p"
  shows "store_ok c' (o_st, v) \<and> (entry_durable (o_st, w) \<longrightarrow> entry_durable (o_st, v))"
proof -
  from assms(1) obtain rs w0 w1 i w2 ex where r: "read_jsonl c p w = (Ok rs, w0)" and f: "same_files w w1 \<and> fs_locks w1 = fs_locks w"
    and o: "open_locked_append p w1 = (Ok i, w2)"
    and fin: "if ex then v = w2 \<and> fs_entries w1 p \<noteq> None else sync_parent_dir p w2 = (Ok (), v)"
    by (elim jsonl_open_OkE)
  have new: "fs_entries w1 p = None" "fs_ok w1" using f assms(2,3) fs_ok_cong [of w w1]
    by (simp_all add: same_files_def store_ok_def)
  from open_locked_append_Ok [OF o] new have o': "i = fs_next w1" "fs_entries w2 = (fs_entries w1)(p \<mapsto> i)"
    "fs_data w2 = (fs_data w1)(i := [])" "fs_synced w2 = (fs_synced w1)(i := [])"
    "fs_synced_entries w2 = fs_synced_entries w1" "fs_next w2 = Suc (fs_next w1)"
    "fs_locks w2 = insert i (fs_locks w1)" by auto
  from fin new have sd: "sync_parent_dir p w2 = (Ok (), v)" by (simp split: if_splits)
  note s = sync_parent_dir_result [OF sd] sync_parent_dir_entries [OF sd, of "js_path o_st"]
  have ok2: "fs_ok w2" using new(2) o' unfolding fs_ok_def by (auto simp: less_Suc_eq split: if_splits)
  then have "fs_ok v" using s by (simp add: fs_ok_def)
  moreover have "js_file o_st < fs_next w" using assms(3) unfolding store_ok_def fs_ok_def by auto
  then have "js_file o_st \<noteq> i" using f o'(1) by (simp add: same_files_def)
  ultimately show ?thesis using s o' f assms(3,4)
    by (auto simp: store_ok_def entry_durable_def same_files_def)
qed

lemma fe_open_new:
  assumes "fe_open cs p w = (Ok s, w')" and "fs_ok w" and "fs_entries w p = None"
    and "fs_entries w (delivered_path p) = None" and "path_parent p \<noteq> []"
    and "with_extension p ''compact'' \<noteq> p"
  shows "fe_wf cs s \<and> js_path (fe_inner s) = p \<and> fe_all s = [] \<and> fe_delivered_set s = {}"
proof -
  from assms(1) obtain inner w1 where i: "jsonl_open (fst cs) p w = (Ok inner, w1)"
    by (auto simp: fe_open_def and_then_eq_Ok)
  with assms(1) obtain delivered where d: "jsonl_open (snd cs) (delivered_path (js_path inner)) w1 = (Ok delivered, w')"
    and s: "s = \<lparr>fe_inner = inner, fe_delivered = delivered, fe_delivered_set = set (jsonl_all (delivered, w')), fe_fs = w'\<rparr>"
    by (cases "jsonl_open (snd cs) (delivered_path (js_path inner)) w1";
        cases "fst (jsonl_open (snd cs) (delivered_path (js_path inner)) w1)") (auto simp: fe_open_def)
  note inner = jsonl_open_new [OF i assms(2,3,6)]
  have path: "js_path inner = p" using inner by simp
  have new: "fs_entries w1 (delivered_path p) = None" using jsonl_open_entries [OF i, of "delivered_path p"] assms(4) by simp
  have ok1: "fs_ok w1" using inner by (simp add: store_ok_def)
  note delivered = jsonl_open_new [OF d [unfolded path] ok1 new compact_neq_delivered]
  from jsonl_open_new_frame [OF d [unfolded path] new, of "fst cs" inner] inner assms(5)
  have "store_ok (fst cs) (inner, w')" "entry_durable (inner, w')" by auto
  with inner delivered delivered_parent [OF assms(5)] assms(5) s show ?thesis
    by (simp add: fe_wf_def fe_ok_def fe_all_def jsonl_all_def)
qed

text \<open>C5: a life of the store. Opened where its files do not exist yet and used by any sequence of successful
  appends, delivery marks, retention sweeps and prunes, the store stays well formed: its two files are in step
  with the disk and with its memory. And after any crash, reopening it gives back exactly the events, in order,
  and the delivered ids.\<close>

theorem store_session_survives:
  assumes "fe_open cs p w = (Ok s, w')" and "fs_ok w" and "fs_entries w p = None"
    and "fs_entries w (delivered_path p) = None" and "path_parent p \<noteq> []"
    and "with_extension p ''compact'' \<noteq> p" and "fe_session cs s t"
    and "crash (fe_fs t) v" and "fs_script v = []"
  shows "fe_wf cs t \<and> (\<exists>t' v'. fe_open cs p v = (Ok t', v') \<and> fe_all t' = fe_all t
     \<and> fe_delivered_set t' = fe_delivered_set t)"
proof -
  from fe_open_new [OF assms(1-6)] have s: "fe_wf cs s" "js_path (fe_inner s) = p" by auto
  from fe_session_wf [OF assms(7) s(1)] s(2) have t: "fe_wf cs t" "js_path (fe_inner t) = p" by auto
  from fe_reopen [OF fe_wfD(1) [OF t(1)] assms(8,9)] obtain t' v' where
    "fe_open cs (js_path (fe_inner t)) v = (Ok t', v')" "fe_all t' = fe_all t"
    "fe_delivered_set t' = fe_delivered_set t" by blast
  with t show ?thesis by auto
qed

text \<open>A disk with an empty directory, on which a store is opened, an event appended and swept away again after
  it was delivered.\<close>

lemma jsonl_open_fresh:
  assumes "fs_script w = []" and "fs_entries w p = None" and "fs_next w \<notin> fs_locks w"
  shows "\<exists>v. jsonl_open c p w = (Ok \<lparr>js_path = p, js_records = [], js_file = fs_next w\<rparr>, v) \<and> fs_script v = []
     \<and> fs_next v = Suc (fs_next w) \<and> fs_locks v = insert (fs_next w) (fs_locks w)
     \<and> fs_entries v = (fs_entries w)(p \<mapsto> fs_next w)"
  using assms
  by (simp add: jsonl_open_def read_jsonl_not_locked_out open_locked_append_def open_append_def
      try_lock_exclusive_def sync_parent_dir_def open_dir_def sync_dir_def path_exists_def sys_simps)

lemma demo_open_new:
  "\<exists>s w. fe_open cs ''d/s.jsonl'' empty_fs = (Ok s, w) \<and> fe_inner s = \<lparr>js_path = ''d/s.jsonl'', js_records = [], js_file = 0\<rparr>
     \<and> fs_script (fe_fs s) = []"
proof -
  from jsonl_open_fresh [of empty_fs "''d/s.jsonl''" "fst cs"] obtain w where
    w: "jsonl_open (fst cs) ''d/s.jsonl'' empty_fs = (Ok \<lparr>js_path = ''d/s.jsonl'', js_records = [], js_file = 0\<rparr>, w)"
    "fs_script w = []" "fs_next w = 1" "fs_locks w = {0}" "fs_entries w = [''d/s.jsonl'' \<mapsto> 0]"
    by (auto simp: empty_fs_def)
  from jsonl_open_fresh [of w "delivered_path ''d/s.jsonl''" "snd cs"] w show ?thesis
    by (auto simp: fe_open_def delivered_path_def)
qed

theorem store_session_survives_witness:
  "\<exists>t v v'. fe_open (pin_codecs demo_event) ''d/s.jsonl'' v = (Ok t, v')
     \<and> fe_all t = [demo_event]"
proof -
  let ?cs = "pin_codecs demo_event" and ?p = "''d/s.jsonl''"
  from demo_open_new [of ?cs] obtain s w where o: "fe_open ?cs ?p empty_fs = (Ok s, w)"
    "fe_inner s = \<lparr>js_path = ?p, js_records = [], js_file = 0\<rparr>" "fs_script (fe_fs s) = []" by blast
  obtain t where a: "fe_append ?cs demo_event s = (Ok (), t)"
    using o by (simp add: fe_append_def on_inner_def jsonl_append_def pin_codecs_def write_all_def sync_file_def attempt_def)
  have "fe_session ?cs s t" by (rule fe_session.appended [OF fe_session.opened pin_codecs_ok(1) a])
  from store_session_survives [OF o(1) _ _ _ _ _ this after_crash] obtain t' v' where
    "fe_open ?cs ?p (after_crash (fe_fs t)) = (Ok t', v')" "fe_all t' = fe_all t"
    by (auto simp: empty_fs_def fs_ok_def delivered_path_def path_parent_def with_extension_def file_name_def
        file_stem_def after_crash_def)
  with fe_append_memory [OF a] o(2) show ?thesis
    by (intro exI [of _ t'] exI [of _ "after_crash (fe_fs t)"] exI [of _ v']) (simp add: fe_all_def jsonl_all_def)
qed

end
