(* ===== verification/Store_Rest.thy ===== *)
theory Store_Rest
  imports Store_Sessions
begin

text \<open>
  The files of an event store between two processes. A process that ends drops its handles and leaves the two
  files on the disk without a lock: the store is at rest. On a disk that has no failures to report, opening a store at
  rest succeeds and gives back its events and delivered ids, whether its files exist already or not; closing
  a well-formed store puts it at rest; and it stays readable over a crash.
\<close>

subsection \<open>One file\<close>

definition file_at_rest :: "'a codec \<Rightarrow> string \<Rightarrow> 'a list \<Rightarrow> fs \<Rightarrow> bool" where
  "file_at_rest c p rs v \<longleftrightarrow> with_extension p ''compact'' \<noteq> p \<and>
     (case fs_entries v p of
        None \<Rightarrow> rs = [] \<and> fs_synced_entries v p = None
      | Some i \<Rightarrow> fs_synced_entries v p = Some i \<and> i \<notin> fs_locks v \<and> fs_data v i = render c rs
          \<and> fs_synced v i = fs_data v i \<and> (\<forall>r \<in> set rs. codec_ok c r))"

text \<open>A disk without failures to report, whose locks belong to allocated inodes.\<close>

definition calm :: "fs \<Rightarrow> bool" where
  "calm v \<longleftrightarrow> fs_ok v \<and> fs_script v = [] \<and> (\<forall>i \<in> fs_locks v. i < fs_next v)"

lemma file_open:
  assumes "calm v" and "file_at_rest c p rs v" and "path_parent p \<noteq> []"
  obtains st v' where "jsonl_open c p v = (Ok st, v')" "store_ok c (st, v')" "entry_durable (st, v')"
    "js_path st = p" "js_records st = rs" "calm v'" "fs_locks v' = insert (js_file st) (fs_locks v)"
proof (cases "fs_entries v p")
  case None
  with assms have v: "fs_ok v" "fs_script v = []" "fs_next v \<notin> fs_locks v" "rs = []" "with_extension p ''compact'' \<noteq> p"
    by (auto simp: calm_def file_at_rest_def)
  from jsonl_open_fresh [OF v(2) None v(3), of c] obtain v' where
    o: "jsonl_open c p v = (Ok \<lparr>js_path = p, js_records = [], js_file = fs_next v\<rparr>, v')" "fs_script v' = []"
      "fs_next v' = Suc (fs_next v)" "fs_locks v' = insert (fs_next v) (fs_locks v)" by blast
  from jsonl_open_new [OF o(1) v(1) None v(5)] assms(1,3) o v(4) show thesis
    by (intro that [OF o(1)]) (auto simp: calm_def store_ok_def)
next
  case (Some i)
  with assms have v: "fs_script v = []" "i \<notin> fs_locks v" "fs_data v i = render c rs" "\<forall>r \<in> set rs. codec_ok c r"
    "fs_synced v i = fs_data v i" "fs_synced_entries v p = Some i" "with_extension p ''compact'' \<noteq> p" "fs_ok v" "i < fs_next v"
    by (auto simp: calm_def file_at_rest_def fs_ok_def)
  have "fs_ok (v\<lparr>fs_locks := insert i (fs_locks v)\<rparr>)" by (rule fs_ok_cong [OF v(8)]) simp_all
  with v Some assms(1) show thesis
    by (intro that [OF jsonl_open_existing [OF v(1) Some v(2-4)]])
       (auto simp: store_ok_def entry_durable_def calm_def)
qed

text \<open>What opening one file leaves of the others.\<close>

lemma file_open_frame:
  assumes "jsonl_open c p v = (Ok st, v')" and "calm v" and "q \<noteq> p"
  shows "fs_entries v' q = fs_entries v q"
    "fs_synced_entries v' q = fs_synced_entries v q \<or> fs_synced_entries v' q = fs_entries v q"
    "fs_entries v q = Some j \<Longrightarrow> fs_data v' j = fs_data v j \<and> fs_synced v' j = fs_synced v j"
proof -
  show e: "fs_entries v' q = fs_entries v q" by (rule jsonl_open_entries [OF assms(1,3)])
  from assms(1) obtain rs w0 w1 i w2 ex where r: "read_jsonl c p v = (Ok rs, w0)" and f: "same_files v w1 \<and> fs_locks w1 = fs_locks v"
    and o: "open_locked_append p w1 = (Ok i, w2)"
    and fin: "if ex then v' = w2 \<and> fs_entries w1 p \<noteq> None else sync_parent_dir p w2 = (Ok (), v')"
    by (elim jsonl_open_OkE)
  have w2: "fs_synced_entries w2 = fs_synced_entries v"
    using open_locked_append_Ok [OF o] f by (cases "fs_entries w1 p") (auto simp: same_files_def)
  have v': "fs_data v' = fs_data w2 \<and> fs_synced v' = fs_synced w2 \<and> fs_entries v' = fs_entries w2"
    using fin sync_parent_dir_result [of p w2 "Ok ()" v'] by (auto split: if_splits)
  show "fs_synced_entries v' q = fs_synced_entries v q \<or> fs_synced_entries v' q = fs_entries v q"
    using fin sync_parent_dir_entries [of p w2 "Ok ()" v' q] w2 e v' by (auto split: if_splits)
  show "fs_data v' j = fs_data v j \<and> fs_synced v' j = fs_synced v j" if "fs_entries v q = Some j"
  proof -
    have "j < fs_next v" using assms(2) that by (auto simp: calm_def fs_ok_def)
    with open_locked_append_Ok [OF o] f v' show ?thesis
      by (cases "fs_entries w1 p") (auto simp: same_files_def)
  qed
qed

lemma file_at_rest_frame:
  assumes "jsonl_open c p v = (Ok st, v')" and "calm v" and "q \<noteq> p" and "store_ok c (st, v')" and "js_path st = p"
    and "fs_locks v' = insert (js_file st) (fs_locks v)" and "file_at_rest c' q rs v"
  shows "file_at_rest c' q rs v'"
proof (cases "fs_entries v q")
  case None
  with file_open_frame(1,2) [OF assms(1-3)] assms(7) show ?thesis by (auto simp: file_at_rest_def)
next
  case (Some j)
  have "j \<noteq> js_file st"
    using file_open_frame(1) [OF assms(1-3)] Some assms(3-5) by (auto simp: store_ok_def fs_ok_def)
  with file_open_frame [OF assms(1-3)] Some assms(6,7) show ?thesis by (auto simp: file_at_rest_def)
qed

lemma open_file_frame:
  assumes "jsonl_open c p v = (Ok st, v')" and "calm v" and "js_path o_st \<noteq> p" and "fs_ok v'"
    and "fs_locks v \<subseteq> fs_locks v'" and "store_ok c' (o_st, v)" and "entry_durable (o_st, v)"
  shows "store_ok c' (o_st, v')" "entry_durable (o_st, v')"
  using file_open_frame [OF assms(1-3)] assms(4-7) by (auto simp: store_ok_def entry_durable_def)

subsection \<open>The store\<close>

definition store_at_rest :: "event_codecs \<Rightarrow> string \<Rightarrow> event_envelope list \<Rightarrow> event_id set \<Rightarrow> fs \<Rightarrow> bool" where
  "store_at_rest cs p es D v \<longleftrightarrow> calm v \<and> fs_locks v = {} \<and> path_parent p \<noteq> []
     \<and> file_at_rest (fst cs) p es v \<and> (\<exists>ids. set ids = D \<and> file_at_rest (snd cs) (delivered_path p) ids v)"

text \<open>A well-formed store that is alone on a disk without failures.\<close>

definition fe_calm :: "event_codecs \<Rightarrow> file_event_store \<Rightarrow> bool" where
  "fe_calm cs s \<longleftrightarrow> fe_wf cs s \<and> calm (fe_fs s) \<and> fs_locks (fe_fs s) \<subseteq> {js_file (fe_inner s), js_file (fe_delivered s)}"

lemma store_open:
  assumes "store_at_rest cs p es D v"
  obtains s w where "fe_open cs p v = (Ok s, w)" "fe_calm cs s" "js_path (fe_inner s) = p" "fe_all s = es"
    "fe_delivered_set s = D"
proof -
  from assms obtain ids where v: "calm v" "fs_locks v = {}" "path_parent p \<noteq> []" "file_at_rest (fst cs) p es v"
    "set ids = D" "file_at_rest (snd cs) (delivered_path p) ids v" by (auto simp: store_at_rest_def)
  from v(1,4,3) obtain st w1 where i: "jsonl_open (fst cs) p v = (Ok st, w1)" "store_ok (fst cs) (st, w1)"
    "entry_durable (st, w1)" "js_path st = p" "js_records st = es" "calm w1" "fs_locks w1 = insert (js_file st) (fs_locks v)"
    by (rule file_open)
  have "file_at_rest (snd cs) (delivered_path p) ids w1"
    by (rule file_at_rest_frame [OF i(1) v(1) _ i(2,4,7) v(6)]) simp
  from i(6) this delivered_parent [OF v(3)] obtain dt w2 where
    d: "jsonl_open (snd cs) (delivered_path p) w1 = (Ok dt, w2)" "store_ok (snd cs) (dt, w2)"
      "entry_durable (dt, w2)" "js_path dt = delivered_path p" "js_records dt = ids" "calm w2"
      "fs_locks w2 = insert (js_file dt) (fs_locks w1)"
    by (rule file_open)
  have "store_ok (fst cs) (st, w2)" "entry_durable (st, w2)"
    by (rule open_file_frame [OF d(1) i(6) _ _ _ i(2,3)]; use d(6,7) i(4) in \<open>auto simp: calm_def\<close>)+
  then show thesis using i d v
    by (intro that [of "\<lparr>fe_inner = st, fe_delivered = dt, fe_delivered_set = D, fe_fs = w2\<rparr>" w2])
       (auto simp: fe_open_def jsonl_all_def fe_all_def fe_calm_def fe_wf_def fe_ok_def)
qed

lemma store_close:
  assumes "fe_calm cs s"
  shows "store_at_rest cs (js_path (fe_inner s)) (fe_all s) (fe_delivered_set s)
     (drop_handle (js_file (fe_inner s)) (drop_handle (js_file (fe_delivered s)) (fe_fs s)))"
  using assms fe_wfD [of cs s]
  by (auto simp: fe_calm_def store_at_rest_def calm_def drop_handle_def file_at_rest_def store_ok_def entry_durable_def
      fe_all_def jsonl_all_def fs_ok_def)

text \<open>A crash leaves a store at rest as it is.\<close>

lemma file_crash: "file_at_rest c q rs v \<Longrightarrow> crash v v' \<Longrightarrow> file_at_rest c q rs v'"
  using crash_entry_durable [of v v' q] crash_synced_data [of v v']
  by (auto simp: file_at_rest_def crash_def split: option.splits)

lemma store_crash:
  "store_at_rest cs p es D v \<Longrightarrow> crash v v' \<Longrightarrow> fs_ok v' \<Longrightarrow> fs_script v' = [] \<Longrightarrow> store_at_rest cs p es D v'"
  unfolding store_at_rest_def by (metis calm_def crash_def empty_iff file_crash)

subsection \<open>Using the store\<close>

lemma jsonl_append_succeeds:
  "codec_ok c r \<Longrightarrow> fs_script w = [] \<Longrightarrow> \<exists>st' w'. jsonl_append c r (st, w) = (Ok (), (st', w')) \<and> fs_script w' = []"
  by (auto simp: codec_ok_def jsonl_append_def write_all_def sync_file_def attempt_def)

lemma fe_mark_succeeds:
  assumes "codec_ok (snd cs) i" and "fs_script (fe_fs s) = []"
  shows "\<exists>s'. fe_mark_delivered cs i s = (Ok (), s') \<and> fs_script (fe_fs s') = []"
proof -
  from jsonl_append_succeeds [OF assms, of "fe_delivered s"] obtain st w where
    "jsonl_append (snd cs) i (fe_delivered s, fe_fs s) = (Ok (), (st, w))" "fs_script w = []" by auto
  with assms(2) show ?thesis by (simp add: fe_mark_delivered_def on_delivered_def)
qed

lemma fe_append_succeeds:
  assumes "codec_ok (fst cs) e" and "fs_script (fe_fs s) = []"
  shows "\<exists>s'. fe_append cs e s = (Ok (), s') \<and> fs_script (fe_fs s') = []"
proof -
  from jsonl_append_succeeds [OF assms, of "fe_inner s"] obtain st w where
    "jsonl_append (fst cs) e (fe_inner s, fe_fs s) = (Ok (), (st, w))" "fs_script w = []" by auto
  then show ?thesis by (simp add: fe_append_def on_inner_def)
qed

lemma jsonl_append_script:
  "jsonl_append c r (st, w) = (Ok u, (st', w')) \<Longrightarrow> fs_script w = [] \<Longrightarrow> fs_script w' = []"
  by (auto simp: jsonl_append_def write_all_def sync_file_def attempt_def split: result.splits)

lemma jsonl_append_calm:
  assumes "jsonl_append c r (st, w) = (Ok u, (st', w'))" and "calm w"
  shows "calm w' \<and> fs_locks w' = fs_locks w \<and> js_file st' = js_file st"
  using jsonl_append_Ok [OF assms(1)] jsonl_append_script [OF assms(1)] assms(2) fs_ok_cong [of w w']
  by (simp add: calm_def)

lemma fe_append_calm:
  assumes "fe_calm cs s" and "codec_ok (fst cs) e" and "fe_append cs e s = (Ok u, s')"
  shows "fe_calm cs s' \<and> js_path (fe_inner s') = js_path (fe_inner s)"
proof -
  obtain st w where a: "jsonl_append (fst cs) e (fe_inner s, fe_fs s) = (Ok u, (st, w))"
    and s': "s' = s\<lparr>fe_inner := st, fe_fs := w\<rparr>"
    using assms(3) by (auto simp: fe_append_def on_inner_def split: prod.splits)
  from assms(1) have ok: "fe_ok cs s" by (simp add: fe_calm_def fe_wf_def)
  from jsonl_append_calm [OF a] fe_append_ok [OF ok assms(2,3)] assms(1) s' show ?thesis
    by (simp add: fe_calm_def fe_wf_def)
qed

lemma fe_mark_calm:
  assumes "fe_calm cs s" and "codec_ok (snd cs) i" and "fe_mark_delivered cs i s = (Ok u, s')"
  shows "fe_calm cs s' \<and> js_path (fe_inner s') = js_path (fe_inner s)"
proof (cases "i \<in> fe_delivered_set s")
  case False
  then obtain v st w where a: "jsonl_append (snd cs) i (fe_delivered s, fe_fs s) = (Ok v, (st, w))"
    and s': "s' = s\<lparr>fe_delivered := st, fe_fs := w, fe_delivered_set := insert i (fe_delivered_set s)\<rparr>"
    using assms(3) by (auto simp: fe_mark_delivered_def on_delivered_def and_then_eq_Ok split: prod.splits)
  from assms(1) have ok: "fe_ok cs s" by (simp add: fe_calm_def fe_wf_def)
  from jsonl_append_calm [OF a] fe_mark_ok [OF ok assms(2,3)] assms(1) s' show ?thesis
    by (simp add: fe_calm_def fe_wf_def)
qed (use assms in \<open>simp add: fe_mark_delivered_def\<close>)

text \<open>Ingesting an event that is not a duplicate.\<close>

lemma ingest_calm:
  assumes "fe_calm cs (fst p)" and "codec_ok (fst cs) e" and "codec_ok (snd cs) (ev_id e)"
    and "existing_event (fe_store cs) e (fst p) = None" and "ingest rt (fe_store cs) e p = (Ok rep, p')"
  shows "fe_calm cs (fst p')" "js_path (fe_inner (fst p')) = js_path (fe_inner (fst p))"
    "fe_all (fst p') = fe_all (fst p) @ [e]" "fe_delivered_set (fst p') = insert (ev_id e) (fe_delivered_set (fst p))"
proof -
  from assms(4,5) obtain st u x where a: "fe_append cs e (fst p) = (Ok u, st)"
    and m: "fe_mark_delivered cs (ev_id e) st = (Ok x, fst p')" by (elim ingest_new_Ok)
  from fe_append_calm [OF assms(1,2) a] have st: "fe_calm cs st" "js_path (fe_inner st) = js_path (fe_inner (fst p))" by auto
  from fe_mark_calm [OF st(1) assms(3) m] st fe_append_memory [OF a] fe_mark_delivered_memory [OF m]
  show "fe_calm cs (fst p')" "js_path (fe_inner (fst p')) = js_path (fe_inner (fst p))"
    "fe_all (fst p') = fe_all (fst p) @ [e]" "fe_delivered_set (fst p') = insert (ev_id e) (fe_delivered_set (fst p))"
    by auto
qed

lemma ingest_succeeds:
  assumes "codec_ok (fst cs) e" and "codec_ok (snd cs) (ev_id e)" and "fs_script (fe_fs (fst p)) = []"
    and "existing_event (fe_store cs) e (fst p) = None" and "handle rt e (snd p) = (Ok rep, t)"
  shows "\<exists>rep' p'. ingest rt (fe_store cs) e p = (Ok rep', p')"
proof -
  from fe_append_succeeds [OF assms(1,3)] obtain s1 where a: "fe_append cs e (fst p) = (Ok (), s1)" "fs_script (fe_fs s1) = []"
    by blast
  from fe_mark_succeeds [OF assms(2) a(2)] obtain s2 where "fe_mark_delivered cs (ev_id e) s1 = (Ok (), s2)" by blast
  with a(1) assms(4,5) show ?thesis by (simp add: ingest_def on_store_def on_runtime_def fe_store_laws)
qed

end
