(* ===== verification/Delivery.thy ===== *)
theory Delivery
  imports Store_Rest
begin

text \<open>
  Delivery across a restart, where the store, the runtime, the broker and the dead-trigger queue meet. An event
  that was handled but not yet marked delivered when the machine crashed is handled again by the recovery of
  the next process; with a broker that deduplicates by unique key (\<open>broker_dedups\<close>) this creates no second
  job. And what could not be submitted is in the durable dead-trigger queue that the next process opens.
\<close>

subsection \<open>Redelivery\<close>

text \<open>Recovering events whose jobs the broker has already.\<close>

lemma recover_loop_absorbed:
  assumes "broker_dedups (rt_broker rt) view"
  shows "\<forall>e \<in> set pending. all_submitted rt (view (st_broker t)) e \<and> codec_ok (snd cs) (ev_id e) \<Longrightarrow>
     fs_script (fe_fs s) = [] \<Longrightarrow>
     \<exists>s' t'. recover_loop rt (fe_store cs) pending n (s, t) = (Ok (n + length pending), (s', t'))
       \<and> st_broker t' = st_broker t \<and> st_queue t' = st_queue t"
proof (induction pending arbitrary: n s t)
  case (Cons e pending)
  from Cons.prems(1) obtain ids where
    "list_all2 (has_job rt (view (st_broker t)) e) (matching (rt_registry rt) e) ids"
    by (auto simp: all_submitted_def)
  from handle_submitted [OF assms this] obtain t1 where
    t1: "handle rt e t = (Ok \<lparr>hr_submitted = ids, hr_failed = []\<rparr>, t1)"
      "st_broker t1 = st_broker t" "st_queue t1 = st_queue t" by blast
  from fe_mark_succeeds [of cs "ev_id e" s] Cons.prems obtain s1 where
    s1: "fe_mark_delivered cs (ev_id e) s = (Ok (), s1)" "fs_script (fe_fs s1) = []" by auto
  from Cons.IH [of t1 s1 "n + 1"] Cons.prems(1) t1 s1 show ?case
    by (auto simp: on_runtime_def on_store_def fe_store_laws)
qed auto

text \<open>C7: a crash between handling and marking does not double the jobs. A new event was stored and handled without
  any failed trigger, and the machine crashes before the event is marked delivered; the same may have happened to
  other events before, all of whose jobs were submitted too. If the broker deduplicates by unique key and still knows
  these keys, and the disk works again, the next process finds all these events undelivered, and its recovery succeeds,
  leaves none of them undelivered, and leaves the broker and the dead-trigger queue exactly as they were. (After a
  failed trigger the recovery rightly tries it again.)\<close>

theorem redelivery_submits_once:
  assumes "broker_dedups (rt_broker rt) view" and "fe_ok cs (fst p)"
    and "codec_ok (fst cs) e" and "codec_ok (snd cs) (ev_id e)" and "ev_id e \<notin> fe_delivered_set (fst p)"
    and "fe_append cs e (fst p) = (Ok u, st)"
    and "handle rt e (snd p) = (Ok rep, s1)" and "hr_failed rep = []"
    and "crash (fe_fs st) v" and "fs_script v = []" and "view (st_broker s1) \<subseteq>\<^sub>m view (st_broker t)"
    and "\<forall>x \<in> set (fe_undelivered (fst p)). all_submitted rt (view (st_broker t)) x \<and> codec_ok (snd cs) (ev_id x)"
  shows "\<exists>s w p'. fe_open cs (js_path (fe_inner (fst p))) v = (Ok s, w) \<and> fe_undelivered s = fe_undelivered (fst p) @ [e]
     \<and> recover_undelivered rt (fe_store cs) (s, t) = (Ok (length (fe_undelivered s)), p')
     \<and> fe_undelivered (fst p') = [] \<and> st_broker (snd p') = st_broker t \<and> st_queue (snd p') = st_queue t"
proof -
  from fe_append_ok [OF assms(2,3,6)] have st: "fe_ok cs st" "js_path (fe_inner st) = js_path (fe_inner (fst p))" by auto
  from fe_reopen [OF st(1) assms(9,10)] obtain s w where s: "fe_open cs (js_path (fe_inner st)) v = (Ok s, w)"
    "fe_all s = fe_all st" "fe_delivered_set s = fe_delivered_set st" "fs_script (fe_fs s) = []" by blast
  from s fe_append_memory [OF assms(6)] assms(5) have und: "fe_undelivered s = fe_undelivered (fst p) @ [e]"
    by (simp add: fe_undelivered_def)
  from handle_all_submitted [OF assms(1,7,8)] obtain ids where
    "list_all2 (has_job rt (view (st_broker s1)) e) (matching (rt_registry rt) e) ids" by blast
  with assms(11) have "all_submitted rt (view (st_broker t)) e"
    unfolding all_submitted_def using has_jobs_mono by blast
  with recover_loop_absorbed [OF assms(1) _ s(4), of "fe_undelivered s" t cs 0] assms(4,12) und
  obtain s' t' where r: "recover_loop rt (fe_store cs) (fe_undelivered s) 0 (s, t)
      = (Ok (length (fe_undelivered s)), (s', t'))" "st_broker t' = st_broker t" "st_queue t' = st_queue t" by auto
  from r(1) have rec: "recover_undelivered rt (fe_store cs) (s, t) = (Ok (length (fe_undelivered s)), (s', t'))"
    by (simp add: recover_undelivered_def fe_store_laws fe_undelivered_def)
  have "fe_undelivered s' = []"
    using fe.recover_undelivered_state [OF rec] unfolding fe_store_laws fe_undelivered_def result.case fst_conv by blast
  with rec s(1) st(2) und r show ?thesis by auto
qed

theorem redelivery_submits_once_witness:
  "\<exists>s t p'. fe_undelivered s = [demo_event] \<and> t = snd (handle (demo_runtime [demo_trigger ''a'' ''lane''] (im_queue (\<lambda>_. Ok [])))
         demo_event (rt_new (0, []) []))
     \<and> recover_undelivered (demo_runtime [demo_trigger ''a'' ''lane''] (im_queue (\<lambda>_. Ok []))) (fe_store (pin_codecs demo_event)) (s, t)
        = (Ok 1, p') \<and> st_broker (snd p') = st_broker t"
proof -
  let ?rt = "demo_runtime [demo_trigger ''a'' ''lane''] (im_queue (\<lambda>_. Ok []))" and ?cs = "pin_codecs demo_event"
  let ?p = "(empty_store, rt_new (0, []) []) :: (file_event_store, nat \<times> (string \<times> string) list, in_memory_queue) pipeline"
  obtain rep t where run: "handle ?rt demo_event (snd ?p) = (Ok rep, t)" "hr_failed rep = []"
    by (simp add: demo_eval Let_def)
  obtain st where a: "fe_append ?cs demo_event (fst ?p) = (Ok (), st)" by (simp add: empty_store_eval)
  have d: "broker_dedups (rt_broker ?rt) (\<lambda>b. map_of (snd b))" using list_broker_dedups by (simp add: demo_runtime_def)
  have e: "fe_undelivered empty_store = []" "ev_id demo_event \<notin> fe_delivered_set (fst ?p)"
    by (simp_all add: empty_store_def fe_undelivered_def fe_all_def jsonl_all_def)
  have ok: "fe_ok ?cs (fst ?p)" by (simp add: empty_store_ok)
  from redelivery_submits_once [OF d ok pin_codecs_ok e(2) a run after_crash, of t] e(1)
  obtain s w p' where "fe_undelivered s = [demo_event]" "recover_undelivered ?rt (fe_store ?cs) (s, t) = (Ok 1, p')"
    "st_broker (snd p') = st_broker t" by (auto simp: after_crash_def)
  with run show ?thesis by (intro exI [of _ s] exI [of _ t] exI [of _ p']) simp
qed

subsection \<open>Failures survive\<close>

lemma handle_loop_queue_ok:
  assumes "rt_dead_triggers rt = file_dead_trigger_queue c"
    and "\<forall>r \<in> set (hr_failed rep'). codec_ok c r"
  shows "handle_loop rt e rs rep s = (Ok rep', s') \<Longrightarrow> store_ok c (st_queue s) \<Longrightarrow> entry_durable (st_queue s) \<Longrightarrow>
     store_ok c (st_queue s') \<and> entry_durable (st_queue s') \<and> js_path (fst (st_queue s')) = js_path (fst (st_queue s))"
proof (induction rs arbitrary: rep s)
  case (Cons r rs)
  then obtain o1 s1 where one: "handle_one rt e r s = (Ok o1, s1)"
    and rest: "handle_loop rt e rs (case o1 of Inl i \<Rightarrow> rep\<lparr>hr_submitted := hr_submitted rep @ [i]\<rparr>
        | Inr rec \<Rightarrow> rep\<lparr>hr_failed := hr_failed rep @ [rec]\<rparr>) s1 = (Ok rep', s')"
    by (auto simp: and_then_eq_Ok)
  have "store_ok c (st_queue s1) \<and> entry_durable (st_queue s1) \<and> js_path (fst (st_queue s1)) = js_path (fst (st_queue s))"
    using one
  proof (cases rule: handle_one_cases)
    case (failed rec u)
    then have "codec_ok c rec"
      using handle_loop_failed_grows [OF rest] assms(2) by (auto dest!: set_mono_prefix)
    moreover obtain st w st' w' where q: "st_queue s = (st, w)" "st_queue s1 = (st', w')" by fastforce
    moreover from failed(4) have a: "jsonl_append c rec (st, w) = (Ok u, (st', w'))"
      by (simp add: assms(1) file_queue_ops q)
    ultimately show ?thesis
      using jsonl_append_store_ok [OF _ _ a] jsonl_append_entries [OF a] Cons.prems(2,3)
      by (simp add: entry_durable_def)
  qed (use Cons.prems in auto)
  with Cons.IH [OF rest] show ?case by simp
qed simp

text \<open>C8: what could not be submitted survives. When an event has been handled with the durable dead-trigger queue,
  then after any crash the queue opens again, and it holds the earlier records followed by exactly the
  failures the handling reported, in order; so a retry pass of the next process finds every one of them.\<close>

theorem failures_survive_restart:
  assumes "rt_dead_triggers rt = file_dead_trigger_queue c"
    and "store_ok c (st_queue s)" and "entry_durable (st_queue s)"
    and "handle rt e s = (Ok rep, s')" and "\<forall>r \<in> set (hr_failed rep). codec_ok c r" and "crash (snd (st_queue s')) v" and "fs_script v = []"
  shows "\<exists>q w. fq_open c (js_path (fst (st_queue s))) v = (Ok q, w)
     \<and> jsonl_all (q, w) = jsonl_all (st_queue s) @ hr_failed rep"
proof -
  from assms(4) obtain s0 where l: "handle_loop rt e (matching (rt_registry rt) e) \<lparr>hr_submitted = [], hr_failed = []\<rparr> s
      = (Ok rep, s0)" "st_queue s' = st_queue s0" by (auto simp: handle_def Let_def and_then_eq_Ok)
  obtain st w where q: "st_queue s' = (st, w)" by fastforce
  from handle_loop_queue_ok [OF assms(1,5) l(1) assms(2,3)]
  have ok: "store_ok c (st, w)" "entry_durable (st, w)" "js_path st = js_path (fst (st_queue s))"
    unfolding l(2) [symmetric] q by simp_all
  from crash_store [OF ok(1,2)] assms(6) q have c: "fs_entries v (js_path st) = Some (js_file st)"
    "fs_data v (js_file st) = render c (js_records st)" "\<forall>r \<in> set (js_records st). codec_ok c r" by auto
  have "fs_locks v = {}" using assms(6) by (simp add: crash_def)
  with jsonl_open_existing [OF assms(7) c(1) _ c(2,3)]
  have o: "\<exists>u. jsonl_open c (js_path st) v = (Ok \<lparr>js_path = js_path st, js_records = js_records st, js_file = js_file st\<rparr>, u)"
    by simp
  from fq.handle_loop_accounts [OF assms(1) l(1)] have "jsonl_all (st_queue s') = jsonl_all (st_queue s) @ hr_failed rep"
    by (auto simp: file_queue_ops l(2) report_add_def)
  with o ok(3) q show ?thesis by (auto simp: fq_open_def jsonl_all_def)
qed

text \<open>A queue on a disk of its own, and a codec that knows one record.\<close>

definition pin_codec :: "dead_trigger_record \<Rightarrow> queue_codec" where
  "pin_codec r = \<lparr>to_vec = (\<lambda>_. Ok ''{}''), from_str = (\<lambda>_. Ok r)\<rparr>"

definition empty_queue :: file_queue where
  "empty_queue = (\<lparr>js_path = ''d/s.jsonl'', js_records = [], js_file = 0\<rparr>, two_files)"

lemma empty_queue_ok: "store_ok c empty_queue" "entry_durable empty_queue"
  using empty_store_ok [of "(\<lparr>to_vec = \<lambda>_. Ok [], from_str = \<lambda>_. Err []\<rparr>, undefined)"]
  by (simp_all add: fe_ok_def empty_store_def empty_queue_def store_ok_def entry_durable_def)

theorem failures_survive_restart_witness:
  "\<exists>c v q w r. fq_open c ''d/s.jsonl'' v = (Ok q, w) \<and> jsonl_all (q, w) = [r] \<and> dt_event r = demo_event"
proof -
  let ?r = "\<lparr>dt_event = demo_event, dt_trigger_name = ''b'', dt_error = ''invalid worklane lane \"\": empty lane''\<rparr>"
  let ?c = "pin_codec ?r"
  let ?rt = "demo_runtime [demo_trigger ''b'' []] (file_dead_trigger_queue ?c)"
  let ?s = "rt_new (0, []) empty_queue :: (nat \<times> (string \<times> string) list, file_queue) rt_state"
  obtain rep s' where run: "handle ?rt demo_event ?s = (Ok rep, s')" "hr_failed rep = [?r]"
    by (simp add: demo_eval Let_def file_queue_ops pin_codec_def empty_queue_def two_files_def jsonl_append_def
        write_all_def sync_file_def attempt_def debug_str_def)
  have q: "rt_dead_triggers ?rt = file_dead_trigger_queue ?c" "st_queue ?s = empty_queue"
    by (simp_all add: demo_runtime_def rt_new_def)
  have "\<forall>r \<in> set (hr_failed rep). codec_ok ?c r"
    using run(2) by (auto simp: codec_ok_def pin_codec_def intro!: from_utf8_ascii ws_len_ascii)
  from failures_survive_restart [OF q(1) _ _ run(1) this after_crash] run(2) q(2) empty_queue_ok
  obtain u w where "fq_open ?c ''d/s.jsonl'' (after_crash (snd (st_queue s'))) = (Ok u, w)" "jsonl_all (u, w) = [?r]"
    by (auto simp: after_crash_def empty_queue_def jsonl_all_def)
  then show ?thesis by (metis dead_trigger_record.select_convs(1))
qed

end
