(* ===== verification/Backend_Simulation.thy ===== *)
theory Backend_Simulation
  imports Server_Properties
begin

text \<open>
  Two backends of the traits \<open>EventStore\<close> and \<open>DeadTriggerQueue\<close>, compared through everything that is built on
  them. A simulation between two implementations of a trait is a relation on their states under which every call
  gives the same result and related states again; the locales below state it for the store, for the queue and for
  both. Inside them it is lifted once through the runtime, the pipeline, the HTTP surface and the running server.
\<close>

subsection \<open>Simulations\<close>

text \<open>Two calls agree: they have the same result and leave related states.\<close>

abbreviation sim :: "('s \<Rightarrow> 't \<Rightarrow> bool) \<Rightarrow> 'a \<times> 's \<Rightarrow> 'a \<times> 't \<Rightarrow> bool" where
  "sim R \<equiv> rel_prod (=) R"

lemma simE:
  assumes "sim R m m'"
  obtains a s t where "m = (a, s)" "m' = (a, t)" "R s t"
  using assms by (cases m; cases m') auto

lemma and_then_sim:
  assumes "sim R m m'" and "\<And>a s t. R s t \<Longrightarrow> sim R (k a s) (k' a t)"
  shows "sim R (and_then m k) (and_then m' k')"
  using assms by (auto elim!: simE simp: and_then_def split: result.split)

lemma apfst_sim: "sim R m m' \<Longrightarrow> sim R (apfst f m) (apfst f m')"
  by (auto elim!: simE)

locale store_simulation =
  fixes ops :: "'s event_store_ops" and ops' :: "'t event_store_ops"
    and good :: "event_envelope \<Rightarrow> bool" and rel :: "'s \<Rightarrow> 't \<Rightarrow> bool"
  assumes all_sim: "rel s t \<Longrightarrow> es_all ops s = es_all ops' t"
    and get_sim: "rel s t \<Longrightarrow> es_get ops i s = es_get ops' i t"
    and undelivered_sim: "rel s t \<Longrightarrow> es_undelivered ops s = es_undelivered ops' t"
    and len_sim: "rel s t \<Longrightarrow> es_len ops s = es_len ops' t"
    and append_sim: "rel s t \<Longrightarrow> good e \<Longrightarrow> sim rel (es_append ops e s) (es_append ops' e t)"
    and mark_sim: "rel s t \<Longrightarrow> good e \<Longrightarrow>
      sim rel (es_mark_delivered ops (ev_id e) s) (es_mark_delivered ops' (ev_id e) t)"
    and retention_sim: "rel s t \<Longrightarrow> sim rel (es_enforce_retention ops p now s) (es_enforce_retention ops' p now t)"
    and prune_sim: "rel s t \<Longrightarrow> sim rel (es_prune ops m s) (es_prune ops' m t)"
    and stored_good: "rel s t \<Longrightarrow> e \<in> set (es_all ops s) \<Longrightarrow> good e"
    and get_stored: "rel s t \<Longrightarrow> es_get ops i s = Some e \<Longrightarrow> e \<in> set (es_all ops s)"

locale queue_simulation =
  fixes qops :: "'q dead_trigger_ops" and qops' :: "'r dead_trigger_ops"
    and good :: "event_envelope \<Rightarrow> bool" and qrel :: "'q \<Rightarrow> 'r \<Rightarrow> bool"
  assumes queue_all_sim: "qrel q r \<Longrightarrow> dq_all qops q = dq_all qops' r"
    and queue_len_sim: "qrel q r \<Longrightarrow> dq_len qops q = dq_len qops' r"
    and record_sim: "qrel q r \<Longrightarrow> good (dt_event d) \<Longrightarrow> sim qrel (dq_record qops d q) (dq_record qops' d r)"
    and drain_sim: "qrel q r \<Longrightarrow> sim qrel (dq_drain qops q) (dq_drain qops' r)"
    and queue_retention_sim: "qrel q r \<Longrightarrow>
      sim qrel (dq_enforce_retention qops p now q) (dq_enforce_retention qops' p now r)"
    and queue_prune_sim: "qrel q r \<Longrightarrow> sim qrel (dq_prune qops m q) (dq_prune qops' m r)"

subsection \<open>The runtime\<close>

text \<open>The same runtime with another queue.\<close>

definition with_queue :: "'r dead_trigger_ops \<Rightarrow> ('b, 'l, 'e, 'q) trigger_runtime \<Rightarrow> ('b, 'l, 'e, 'r) trigger_runtime" where
  "with_queue qops rt =
     \<lparr>rt_uuid = rt_uuid rt, rt_registry = rt_registry rt, rt_broker = rt_broker rt, rt_dead_triggers = qops,
      rt_options = rt_options rt, rt_trace_sink = rt_trace_sink rt\<rparr>"

lemma with_queue_simps [simp]:
  "rt_uuid (with_queue qops rt) = rt_uuid rt" "rt_registry (with_queue qops rt) = rt_registry rt"
  "rt_broker (with_queue qops rt) = rt_broker rt" "rt_dead_triggers (with_queue qops rt) = qops"
  "rt_options (with_queue qops rt) = rt_options rt" "rt_trace_sink (with_queue qops rt) = rt_trace_sink rt"
  by (simp_all add: with_queue_def)

lemma with_queue_id: "with_queue (rt_dead_triggers rt) rt = rt"
  by (simp add: with_queue_def)

text \<open>The gauges of the sizes on disk are the one thing that differs: an in-memory backend takes no bytes.\<close>

fun byte_gauge :: "metric \<Rightarrow> bool" where
  "byte_gauge (Gauge name labels n) \<longleftrightarrow>
     name \<in> {''triggerlane_event_store_bytes'', ''triggerlane_dead_trigger_bytes''}"
| "byte_gauge _ \<longleftrightarrow> False"

definition rt_rel :: "('q \<Rightarrow> 'r \<Rightarrow> bool) \<Rightarrow> ('b, 'q) rt_state \<Rightarrow> ('b, 'r) rt_state \<Rightarrow> bool" where
  "rt_rel Q s t \<longleftrightarrow> Q (st_queue s) (st_queue t) \<and> st_broker s = st_broker t
     \<and> st_observed_lanes s = st_observed_lanes t \<and> st_traces s = st_traces t \<and> st_log s = st_log t
     \<and> filter (\<lambda>m. \<not> byte_gauge m) (st_metrics s) = filter (\<lambda>m. \<not> byte_gauge m) (st_metrics t)
     \<and> st_slept s = st_slept t"

lemma rt_relD:
  assumes "rt_rel Q s t"
  shows "Q (st_queue s) (st_queue t)" "st_broker s = st_broker t" "st_observed_lanes s = st_observed_lanes t"
  using assms by (simp_all add: rt_rel_def)

lemma rt_rel_updates:
  assumes "rt_rel Q s t"
  shows "rt_rel Q (s\<lparr>st_broker := b\<rparr>) (t\<lparr>st_broker := b\<rparr>)"
    "rt_rel Q (s\<lparr>st_observed_lanes := L\<rparr>) (t\<lparr>st_observed_lanes := L\<rparr>)"
    "rt_rel Q (s\<lparr>st_slept := st_slept s @ d\<rparr>) (t\<lparr>st_slept := st_slept t @ d\<rparr>)"
    "Q q r \<Longrightarrow> rt_rel Q (s\<lparr>st_queue := q\<rparr>) (t\<lparr>st_queue := r\<rparr>)"
    "rt_rel Q (emit m s) (emit m t)"
    "byte_gauge m \<Longrightarrow> byte_gauge m' \<Longrightarrow> rt_rel Q (emit m s) (emit m' t)"
    "rt_rel Q (sink_record sink tr s) (sink_record sink tr t)"
  using assms by (auto simp: rt_rel_def emit_def sink_record_def split: trace_sink.split)

context queue_simulation
begin

lemma depth_sim:
  "rt_rel qrel s t \<Longrightarrow>
     rt_rel qrel (record_dead_trigger_depth (with_queue qops rt) s) (record_dead_trigger_depth (with_queue qops' rt) t)"
  using queue_len_sim [of "st_queue s" "st_queue t"] rt_relD(1) [of qrel s t] by (simp add: record_dead_trigger_depth_def rt_rel_updates)

lemma submit_attempts_sim:
  "rt_rel qrel s t \<Longrightarrow>
     sim (rt_rel qrel) (submit_attempts (with_queue qops rt) nj n left s) (submit_attempts (with_queue qops' rt) nj n left t)"
proof (induction left arbitrary: n s t)
  case (0 n s t)
  obtain r b where e: "enqueue (rt_broker rt) nj (st_broker s) = (r, b)" by force
  with 0 show ?case
    by (simp add: submit_attempts_step [of "with_queue qops rt"] submit_attempts_step [of "with_queue qops' rt"]
        rt_relD(2) [symmetric] rt_rel_updates Let_def del: upt_Suc)
next
  case (Suc left n s t)
  obtain r b where e: "enqueue (rt_broker rt) nj (st_broker s) = (r, b)" by force
  with Suc show ?case
    by (cases r) (simp_all add: submit_attempts_step [of "with_queue qops rt"] submit_attempts_step [of "with_queue qops' rt"]
        rt_relD(2) [symmetric] rt_rel_updates Let_def del: upt_Suc)
qed

lemma enqueue_sim:
  "rt_rel qrel s t \<Longrightarrow>
     sim (rt_rel qrel) (enqueue_with_retries (with_queue qops rt) job key s) (enqueue_with_retries (with_queue qops' rt) job key t)"
  using rt_relD(3) [of qrel s t]
  by (auto simp: enqueue_with_retries_def Let_def rt_rel_updates intro!: submit_attempts_sim split: result.split)

lemma record_dead_trigger_sim:
  assumes "rt_rel qrel s t" and "good event"
  shows "sim (rt_rel qrel) (record_dead_trigger (with_queue qops rt) event name err s)
     (record_dead_trigger (with_queue qops' rt) event name err t)"
  using record_sim [OF rt_relD(1) [OF assms(1)], of "\<lparr>dt_event = event, dt_trigger_name = name, dt_error = err\<rparr>"] assms
  by (auto elim!: simE simp: record_dead_trigger_def Let_def rt_rel_updates split: result.split)

lemma handle_one_sim:
  assumes "rt_rel qrel s t" and "good event"
  shows "sim (rt_rel qrel) (handle_one (with_queue qops rt) event r s) (handle_one (with_queue qops' rt) event r t)"
proof -
  let ?label = "[(''trigger'', rg_name r)]"
  let ?m = "Counter ''triggerlane_trigger_matches_total'' ?label" and ?f = "Counter ''triggerlane_trigger_failures_total'' ?label"
  have failed: "sim (rt_rel qrel)
      (and_then (record_dead_trigger (with_queue qops rt) event (rg_name r) err (emit ?f u)) (\<lambda>d s. (Ok (Inr d), s)))
      (and_then (record_dead_trigger (with_queue qops' rt) event (rg_name r) err (emit ?f v)) (\<lambda>d s. (Ok (Inr d), s)))"
    if "rt_rel qrel u v" for u v err
    by (intro and_then_sim record_dead_trigger_sim rt_rel_updates that assms(2)) simp
  show ?thesis
  proof (cases "rg_bind r event")
    case (Err e)
    with failed [OF rt_rel_updates(5) [OF assms(1), of ?m]] show ?thesis by (simp add: handle_one_def Let_def)
  next
    case (Ok job)
    from enqueue_sim [OF rt_rel_updates(5) [OF assms(1), of ?m], of rt job "unique_key (rt_uuid rt) event r"]
    obtain a u v where e: "enqueue_with_retries (with_queue qops rt) job (unique_key (rt_uuid rt) event r) (emit ?m s) = (a, u)"
      "enqueue_with_retries (with_queue qops' rt) job (unique_key (rt_uuid rt) event r) (emit ?m t) = (a, v)" "rt_rel qrel u v"
      by (elim simE)
    with Ok failed [OF e(3)] show ?thesis by (cases a) (simp_all add: handle_one_def Let_def rt_rel_updates)
  qed
qed

lemma failed_trigger_sim:
  "rt_rel qrel s t \<Longrightarrow> good event \<Longrightarrow>
     sim (rt_rel qrel) (failed_trigger (with_queue qops rt) event r err s) (failed_trigger (with_queue qops' rt) event r err t)"
  by (auto simp: failed_trigger_def intro!: and_then_sim record_dead_trigger_sim rt_rel_updates)

lemma begin_trigger_sim:
  assumes "rt_rel qrel s t" and "good event"
  shows "sim (rt_rel qrel) (begin_trigger (with_queue qops rt) event r s) (begin_trigger (with_queue qops' rt) event r t)"
proof -
  let ?m = "Counter ''triggerlane_trigger_matches_total'' [(''trigger'', rg_name r)]"
  note e = rt_rel_updates(5) [OF assms(1), of ?m]
  show ?thesis
    using rt_relD(3) [OF e]
    by (auto simp: begin_trigger_def Let_def rt_rel_updates e assms(2) intro!: apfst_sim failed_trigger_sim split: result.split)
qed

lemma submit_once_sim:
  "rt_rel qrel s t \<Longrightarrow>
     sim (rt_rel qrel) (submit_once (with_queue qops rt) event r job n s) (submit_once (with_queue qops' rt) event r job n t)"
  using rt_relD(2) [of qrel s t]
  by (auto simp: submit_once_def Let_def rt_rel_updates split: result.split prod.split)

lemma continue_trigger_sim:
  assumes "rt_rel qrel s t" and "good event"
  shows "sim (rt_rel qrel) (continue_trigger (with_queue qops rt) event r job n left s)
     (continue_trigger (with_queue qops' rt) event r job n left t)"
proof -
  from submit_once_sim [OF assms(1)] obtain x u v where
    "submit_once (with_queue qops rt) event r job n s = (x, u)" "submit_once (with_queue qops' rt) event r job n t = (x, v)"
    "rt_rel qrel u v" by (rule simE)
  with assms(2) show ?thesis
    by (auto simp: continue_trigger_def rt_rel_updates intro!: apfst_sim failed_trigger_sim split: result.split nat.split)
qed

lemma handle_loop_sim:
  "rt_rel qrel s t \<Longrightarrow> good event \<Longrightarrow>
     sim (rt_rel qrel) (handle_loop (with_queue qops rt) event rs rep s) (handle_loop (with_queue qops' rt) event rs rep t)"
  by (induction rs arbitrary: rep s t) (auto intro!: and_then_sim handle_one_sim)

lemma finish_handling_sim:
  "rt_rel qrel s t \<Longrightarrow>
     rt_rel qrel (finish_handling (with_queue qops rt) event rep s) (finish_handling (with_queue qops' rt) event rep t)"
  by (simp add: finish_handling_def Let_def rt_rel_updates depth_sim)

lemma handle_sim:
  "rt_rel qrel s t \<Longrightarrow> good event \<Longrightarrow>
     sim (rt_rel qrel) (handle (with_queue qops rt) event s) (handle (with_queue qops' rt) event t)"
  by (auto simp: handle_split finish_handling_sim intro!: and_then_sim handle_loop_sim)

lemma replay_loop_sim:
  "rt_rel qrel s t \<Longrightarrow> \<forall>e \<in> set events. good e \<Longrightarrow>
     sim (rt_rel qrel) (replay_loop (with_queue qops rt) events reps s) (replay_loop (with_queue qops' rt) events reps t)"
  by (induction events arbitrary: reps s t) (auto intro!: and_then_sim apfst_sim handle_sim)

lemma dead_trigger_retention_sim:
  assumes "rt_rel qrel s t"
  shows "sim (rt_rel qrel) (enforce_dead_trigger_retention (with_queue qops rt) p now s)
     (enforce_dead_trigger_retention (with_queue qops' rt) p now t)"
  using queue_retention_sim [OF rt_relD(1) [OF assms], of p now] assms
  by (auto elim!: simE simp: enforce_dead_trigger_retention_def Let_def rt_rel_updates intro!: depth_sim split: result.split)

lemma broker_metrics_sim:
  "rt_rel qrel s t \<Longrightarrow>
     rt_rel qrel (broker_metrics_loop (with_queue qops rt) lanes s) (broker_metrics_loop (with_queue qops' rt) lanes t)"
proof (induction lanes arbitrary: s t)
  case (Cons lane lanes)
  then show ?case
    by (auto simp: rt_relD(2) [symmetric] rt_rel_updates intro!: Cons.IH split: result.split prod.split)
qed simp

end

subsection \<open>The pipeline and the HTTP surface\<close>

locale backend_simulation = store_simulation ops ops' good rel + queue_simulation qops qops' good qrel
  for ops :: "'s event_store_ops" and ops' :: "'t event_store_ops" and qops :: "'q dead_trigger_ops"
    and qops' :: "'r dead_trigger_ops" and good rel qrel
begin

text \<open>The states of the pipeline.\<close>

abbreviation pipe_rel :: "('s, 'b, 'q) pipeline \<Rightarrow> ('t, 'b, 'r) pipeline \<Rightarrow> bool" where
  "pipe_rel \<equiv> rel_prod rel (rt_rel qrel)"

lemma on_store_sim:
  "pipe_rel p p' \<Longrightarrow> sim rel (f (fst p)) (f' (fst p')) \<Longrightarrow> sim pipe_rel (on_store f p) (on_store f' p')"
  by (cases p; cases p') (auto elim!: simE simp: on_store_def)

lemma on_runtime_sim:
  "pipe_rel p p' \<Longrightarrow> sim (rt_rel qrel) (f (snd p)) (f' (snd p')) \<Longrightarrow> sim pipe_rel (on_runtime f p) (on_runtime f' p')"
  by (cases p; cases p') (auto elim!: simE simp: on_runtime_def)

lemma pipe_relD:
  assumes "pipe_rel p p'"
  shows "rel (fst p) (fst p')" "rt_rel qrel (snd p) (snd p')"
  using assms by (auto elim: rel_prod.cases)

lemma existing_sim: "rel s t \<Longrightarrow> existing_event ops e s = existing_event ops' e t"
  by (simp add: existing_event_def find_by_idempotency_key_def all_sim split: option.split)

lemma append_pipe_sim: "pipe_rel p p' \<Longrightarrow> good e \<Longrightarrow> sim pipe_rel (on_store (es_append ops e) p) (on_store (es_append ops' e) p')"
  by (intro on_store_sim append_sim pipe_relD)

lemma mark_pipe_sim:
  "pipe_rel p p' \<Longrightarrow> good e \<Longrightarrow>
     sim pipe_rel (on_store (es_mark_delivered ops (ev_id e)) p) (on_store (es_mark_delivered ops' (ev_id e)) p')"
  by (intro on_store_sim mark_sim pipe_relD)

lemma handle_pipe_sim:
  "pipe_rel p p' \<Longrightarrow> good e \<Longrightarrow>
     sim pipe_rel (on_runtime (handle (with_queue qops rt) e) p) (on_runtime (handle (with_queue qops' rt) e) p')"
  by (intro on_runtime_sim handle_sim pipe_relD)

lemmas pipe_sims = and_then_sim append_pipe_sim mark_pipe_sim handle_pipe_sim

lemma ingest_sim:
  "pipe_rel p p' \<Longrightarrow> good e \<Longrightarrow>
     sim pipe_rel (ingest (with_queue qops rt) ops e p) (ingest (with_queue qops' rt) ops' e p')"
  using existing_sim [OF pipe_relD(1), of p p' e]
  by (auto simp: ingest_def intro!: pipe_sims split: option.split)

lemma accept_sim: "pipe_rel p p' \<Longrightarrow> good e \<Longrightarrow> sim pipe_rel (accept u ops e p) (accept u ops' e p')"
  using existing_sim [OF pipe_relD(1), of p p' e]
  by (auto simp: accept_def intro!: pipe_sims split: option.split)

lemma dispatch_sim:
  "pipe_rel p p' \<Longrightarrow> good e \<Longrightarrow>
     sim pipe_rel (dispatch (with_queue qops rt) ops e p) (dispatch (with_queue qops' rt) ops' e p')"
  by (auto simp: dispatch_def intro!: pipe_sims)

lemma handle_event_sim:
  assumes "pipe_rel p p'" and "good e"
  shows "sim (rel_prod pipe_rel (=)) (handle_event (with_queue qops rt) ops h e (p, ch)) (handle_event (with_queue qops' rt) ops' h e (p', ch))"
proof (cases h)
  case IngestEventHandler
  from ingest_sim [OF assms, of rt] obtain r q q' where
    "ingest (with_queue qops rt) ops e p = (r, q)" "ingest (with_queue qops' rt) ops' e p' = (r, q')" "pipe_rel q q'"
    by (elim simE)
  then show ?thesis by (simp add: handle_event_def IngestEventHandler split: result.split)
next
  case AcceptEventHandler
  from accept_sim [OF assms, of "rt_uuid rt"] obtain r q q' where
    "accept (rt_uuid rt) ops e p = (r, q)" "accept (rt_uuid rt) ops' e p' = (r, q')" "pipe_rel q q'"
    by (elim simE)
  then show ?thesis by (simp add: handle_event_def AcceptEventHandler send_def split: result.split)
qed

lemma events_router_sim:
  assumes "pipe_rel p p'" and "\<forall>input. incoming_from_slice web bdy = Ok input \<longrightarrow> good (post_events new_id now input)"
  shows "sim (rel_prod pipe_rel (=)) (events_router web (with_queue qops rt) ops h v new_id now headers bdy (p, ch))
     (events_router web (with_queue qops' rt) ops' h v new_id now headers bdy (p', ch))"
proof (cases "incoming_from_slice web bdy")
  case (Ok input)
  from handle_event_sim [OF assms(1), of "post_events new_id now input" rt h ch] Ok assms show ?thesis
    by (auto elim!: simE simp: events_router_def post_events_route_def Let_def split: result.split)
next
  case (Err e)
  with assms(1) show ?thesis by (simp add: events_router_def post_events_route_def)
qed

lemma replay_by_id_sim:
  assumes "rel s t" and "rt_rel qrel u v"
  shows "sim (rt_rel qrel) (replay_by_id (with_queue qops rt) ops s i u) (replay_by_id (with_queue qops' rt) ops' t i v)"
proof (cases "es_get ops i s")
  case (Some e)
  then have "good e" using stored_good [OF assms(1)] get_stored [OF assms(1)] by blast
  with Some assms show ?thesis
    by (auto simp: replay_by_id_def get_sim [symmetric] intro!: apfst_sim handle_sim)
qed (use assms in \<open>simp add: replay_by_id_def get_sim [symmetric]\<close>)

lemma range_good:
  assumes "rel s t"
  shows "\<forall>e \<in> set (filter P (filter P' (es_all ops' t))). good e"
  using stored_good [OF assms] all_sim [OF assms] by auto

lemma replay_range_sim:
  assumes "rel s t" and "rt_rel qrel u v"
  shows "sim (rt_rel qrel) (replay_range (with_queue qops rt) ops s start stop f u)
     (replay_range (with_queue qops' rt) ops' t start stop f v)"
  unfolding replay_range_def all_sim [OF assms(1)] by (rule replay_loop_sim [OF assms(2) range_good [OF assms(1)]])

lemma replay_by_id_route_sim:
  assumes "pipe_rel p p'"
  shows "sim pipe_rel (replay_by_id_route (with_queue qops rt) ops raw p) (replay_by_id_route (with_queue qops' rt) ops' raw p')"
proof (cases "parse_event_id (rt_uuid rt) raw")
  case (Ok i)
  from replay_by_id_sim [OF pipe_relD [OF assms], of rt i] Ok pipe_relD(1) [OF assms] show ?thesis
    by (auto elim!: simE simp: replay_by_id_route_def split: result.split)
qed (use assms in \<open>simp add: replay_by_id_route_def\<close>)

lemma replay_range_route_sim:
  assumes "pipe_rel p p'"
  shows "sim pipe_rel (replay_range_route web (with_queue qops rt) ops q p) (replay_range_route web (with_queue qops' rt) ops' q p')"
proof (cases "make_replay_filter web (rq_event_type q) (rq_source q)")
  case (Ok f)
  from replay_range_sim [OF pipe_relD [OF assms], of rt "rq_start q" "rq_end q" f] obtain r u v where
    "replay_range (with_queue qops rt) ops (fst p) (rq_start q) (rq_end q) f (snd p) = (r, u)"
    "replay_range (with_queue qops' rt) ops' (fst p') (rq_start q) (rq_end q) f (snd p') = (r, v)" "rt_rel qrel u v"
    by (elim simE)
  with Ok assms pipe_relD [OF assms] show ?thesis
    by (simp add: replay_range_route_def preview_range_def all_sim split: result.split)
qed (use assms in \<open>simp add: replay_range_route_def\<close>)

lemma replayed_sim: "rel s t \<Longrightarrow> replayed_events ops' t q = replayed_events ops s q"
  by (simp add: replayed_events_def preview_range_def all_sim get_sim split: replay_request.split)

lemma replayed_good: "rel s t \<Longrightarrow> e \<in> set (replayed_events ops s q) \<Longrightarrow> good e"
  using stored_good [of s t e] get_stored [of s t]
  by (auto simp: replayed_events_def preview_range_def split: replay_request.splits option.splits)

lemma get_event_route_sim: "rel s t \<Longrightarrow> get_event_route u ops raw s = get_event_route u ops' raw t"
  by (simp add: get_event_route_def get_sim split: result.split)

lemma read_routes_sim:
  assumes "pipe_rel p p'"
  shows "sim pipe_rel (read_routes web (with_queue qops rt) ops req p) (read_routes web (with_queue qops' rt) ops' req p')"
proof -
  note d = pipe_relD [OF assms] rt_relD(1) [OF pipe_relD(2) [OF assms]]
  show ?thesis
    using assms
    by (cases req)
       (simp_all add: read_routes_def list_events_route_def get_event_route_sim [OF d(1)] list_dead_triggers_route_def
         all_sim [OF d(1)] queue_all_sim [OF d(3)] apfst_sim replay_by_id_route_sim replay_range_route_sim)
qed

lemma read_router_sim:
  "pipe_rel p p' \<Longrightarrow>
     sim pipe_rel (read_router web (with_queue qops rt) ops auth headers req p) (read_router web (with_queue qops' rt) ops' auth headers req p')"
  by (simp add: read_router_def read_routes_sim split: option.split)

lemma store_metrics_sim:
  assumes "rel s t" and "rt_rel qrel u v"
  shows "rt_rel qrel (record_store_metrics (with_queue qops rt) ops s u) (record_store_metrics (with_queue qops' rt) ops' t v)"
  using assms(2)
  by (simp add: record_store_metrics_def len_sim [OF assms(1)] queue_len_sim [OF rt_relD(1) [OF assms(2)]] rt_rel_updates)

lemma maintenance_sim:
  assumes "pipe_rel p p'"
  shows "sim pipe_rel (maintenance_tick (with_queue qops rt) ops lanes policy now p)
     (maintenance_tick (with_queue qops' rt) ops' lanes policy now p')"
proof -
  note d = pipe_relD [OF assms]
  let ?u = "record_store_metrics (with_queue qops rt) ops (fst p) (record_broker_metrics (with_queue qops rt) lanes (snd p))"
  let ?v = "record_store_metrics (with_queue qops' rt) ops' (fst p') (record_broker_metrics (with_queue qops' rt) lanes (snd p'))"
  have uv: "rt_rel qrel ?u ?v"
    using d(2) by (auto simp: record_broker_metrics_def rt_relD(3) intro!: store_metrics_sim d(1) broker_metrics_sim)
  from retention_sim [OF d(1), of policy now] obtain r s t where
    e: "es_enforce_retention ops policy now (fst p) = (r, s)" "es_enforce_retention ops' policy now (fst p') = (r, t)" "rel s t"
    by (elim simE)
  from dead_trigger_retention_sim [OF uv, of rt policy now] obtain r' u v where
    q: "enforce_dead_trigger_retention (with_queue qops rt) policy now ?u = (r', u)"
      "enforce_dead_trigger_retention (with_queue qops' rt) policy now ?v = (r', v)" "rt_rel qrel u v"
    by (elim simE)
  from uv e q d(1) show ?thesis by (simp add: maintenance_tick_def Let_def split: result.split)
qed

end

subsection \<open>The server, one call after the other\<close>

text \<open>What a server is asked to do: answer a request, dispatch the next accepted event, run the maintenance task.\<close>

datatype server_call = Ask app_request | DispatchNext | Maintain "string set \<Rightarrow> string list" auto_retention timestamp

definition perform ::
  "web_api \<Rightarrow> ('b, 'l, 'e) serving \<Rightarrow> 's event_store_ops \<Rightarrow> ('b, 'l, 'e, 'q) trigger_runtime \<Rightarrow> (unit \<Rightarrow> string)
     \<Rightarrow> readiness \<Rightarrow> server_call \<Rightarrow> ('s, 'b, 'q) server \<Rightarrow> (nat \<times> app_body) option \<times> ('s, 'b, 'q) server" where
  "perform web sg es rt render_metrics ready call sv = (case call of
     Ask req \<Rightarrow> apfst Some (serve_ingest web sg es rt render_metrics ready req sv)
   | DispatchNext \<Rightarrow> (None, dispatcher_body rt es sv)
   | Maintain lanes policy now \<Rightarrow> (None, (snd (maintenance_tick rt es lanes policy now (fst sv)), snd sv)))"

primrec perform_all ::
  "web_api \<Rightarrow> ('b, 'l, 'e) serving \<Rightarrow> 's event_store_ops \<Rightarrow> ('b, 'l, 'e, 'q) trigger_runtime \<Rightarrow> (unit \<Rightarrow> string)
     \<Rightarrow> readiness \<Rightarrow> server_call list \<Rightarrow> ('s, 'b, 'q) server \<Rightarrow> (nat \<times> app_body) option list \<times> ('s, 'b, 'q) server" where
  "perform_all web sg es rt render_metrics ready [] sv = ([], sv)"
| "perform_all web sg es rt render_metrics ready (c # cs) sv =
     (case perform web sg es rt render_metrics ready c sv of (a, sv) \<Rightarrow> apfst ((#) a) (perform_all web sg es rt render_metrics ready cs sv))"

text \<open>A posted event, when there is one, is an event the backends can store; the text of the metrics is left out, since
  it holds the sizes on disk.\<close>

definition call_ok :: "web_api \<Rightarrow> (event_envelope \<Rightarrow> bool) \<Rightarrow> server_call \<Rightarrow> bool" where
  "call_ok web good call \<longleftrightarrow> (case call of
     Ask (PostEvents headers bdy new_id now) \<Rightarrow>
       (case incoming_from_slice web bdy of Ok input \<Rightarrow> good (post_events new_id now input) | Err _ \<Rightarrow> True)
   | Ask MetricsRequest \<Rightarrow> False
   | _ \<Rightarrow> True)"

definition server_rel ::
  "(event_envelope \<Rightarrow> bool) \<Rightarrow> ('s \<Rightarrow> 't \<Rightarrow> bool) \<Rightarrow> ('q \<Rightarrow> 'r \<Rightarrow> bool) \<Rightarrow> ('s, 'b, 'q) server \<Rightarrow> ('t, 'b, 'r) server \<Rightarrow> bool" where
  "server_rel good rel qrel sv sv' \<longleftrightarrow>
     rel_prod (rel_prod rel (rt_rel qrel)) (=) sv sv' \<and> (\<forall>e \<in> set (ch_queue (snd sv)). good e)"

context backend_simulation
begin

abbreviation sv_rel :: "('s, 'b, 'q) server \<Rightarrow> ('t, 'b, 'r) server \<Rightarrow> bool" where
  "sv_rel \<equiv> server_rel good rel qrel"

lemma sv_relE:
  assumes "sv_rel sv sv'"
  obtains p p' ch where "sv = (p, ch)" "sv' = (p', ch)" "pipe_rel p p'" "\<forall>e \<in> set (ch_queue ch). good e"
  using assms by (cases sv; cases sv') (auto simp: server_rel_def)

lemma handle_event_queue:
  "ch_queue (snd (snd (handle_event rt es h e (p, ch)))) \<in> {ch_queue ch, ch_queue ch @ [e]}"
  by (auto simp: handle_event_def send_def split: event_handler.split result.split prod.split)

lemma events_router_queue:
  assumes "\<forall>e \<in> set (ch_queue ch). good e"
    and "\<forall>input. incoming_from_slice web bdy = Ok input \<longrightarrow> good (post_events new_id now input)"
  shows "\<forall>e \<in> set (ch_queue (snd (snd (events_router web rt es h v new_id now headers bdy (p, ch))))). good e"
proof (cases "incoming_from_slice web bdy")
  case (Ok input)
  from handle_event_queue [of rt es h "post_events new_id now input" p ch] assms Ok show ?thesis
    by (auto simp: events_router_def post_events_route_def Let_def split: result.split prod.split)
next
  case (Err e)
  with assms(1) show ?thesis by (simp add: events_router_def post_events_route_def)
qed

lemma post_sim:
  assumes "sv_rel sv sv'" and "\<forall>input. incoming_from_slice web bdy = Ok input \<longrightarrow> good (post_events new_id now input)"
  shows "sim sv_rel (events_router web (with_queue qops rt) ops h v new_id now headers bdy sv)
     (events_router web (with_queue qops' rt) ops' h v new_id now headers bdy sv')"
proof -
  from assms(1) obtain p p' ch where sv: "sv = (p, ch)" "sv' = (p', ch)" "pipe_rel p p'" "\<forall>e \<in> set (ch_queue ch). good e"
    by (rule sv_relE)
  from events_router_sim [OF sv(3) assms(2), where ch = ch and rt = rt and h = h and v = v and headers = headers]
    events_router_queue [OF sv(4) assms(2), where rt = "with_queue qops rt" and es = ops and h = h and v = v and headers = headers and p = p]
  show ?thesis unfolding sv by (auto elim!: simE simp: server_rel_def)
qed

lemma serve_ingest_sim:
  assumes "sv_rel sv sv'" and "call_ok web good (Ask req)"
  shows "sim sv_rel (serve_ingest web sg ops (with_queue qops rt) m ready req sv)
     (serve_ingest web sg ops' (with_queue qops' rt) m ready req sv')"
proof (cases req)
  case (PostEvents headers bdy new_id now)
  let ?h = "if sg_dispatch_capacity sg = None then IngestEventHandler else AcceptEventHandler"
  have "\<forall>input. incoming_from_slice web bdy = Ok input \<longrightarrow> good (post_events new_id now input)"
    using assms(2) by (simp add: PostEvents call_ok_def split: result.splits)
  from post_sim [OF assms(1) this, where rt = rt and h = ?h and v = "sg_verifier sg" and headers = headers]
  obtain a u v where "events_router web (with_queue qops rt) ops ?h (sg_verifier sg) new_id now headers bdy sv = (a, u)"
    "events_router web (with_queue qops' rt) ops' ?h (sg_verifier sg) new_id now headers bdy sv' = (a, v)" "sv_rel u v"
    by (elim simE)
  then show ?thesis by (cases a) (simp add: serve_ingest_def PostEvents)
next
  case (ReadRequest headers r)
  from assms(1) obtain p p' ch where sv: "sv = (p, ch)" "sv' = (p', ch)" "pipe_rel p p'" "\<forall>e \<in> set (ch_queue ch). good e"
    by (rule sv_relE)
  from read_router_sim [OF sv(3), of web rt "sg_read_auth sg" headers r] obtain a u v where
    "read_router web (with_queue qops rt) ops (sg_read_auth sg) headers r p = (a, u)"
    "read_router web (with_queue qops' rt) ops' (sg_read_auth sg) headers r p' = (a, v)" "pipe_rel u v"
    by (elim simE)
  with sv show ?thesis by (cases a) (simp add: serve_ingest_def ReadRequest server_rel_def)
qed (use assms in \<open>simp_all add: serve_ingest_def\<close>)

lemma dispatcher_sim:
  assumes "sv_rel sv sv'"
  shows "sv_rel (dispatcher_body (with_queue qops rt) ops sv) (dispatcher_body (with_queue qops' rt) ops' sv')"
proof -
  from assms obtain p p' ch where sv: "sv = (p, ch)" "sv' = (p', ch)" "pipe_rel p p'" "\<forall>e \<in> set (ch_queue ch). good e"
    by (rule sv_relE)
  show ?thesis
  proof (cases "ch_queue ch")
    case (Cons e rest)
    with sv(4) dispatch_sim [OF sv(3), of e rt] sv show ?thesis
      by (auto elim!: simE simp: dispatcher_body_def server_rel_def)
  qed (use sv assms in \<open>simp add: dispatcher_body_def\<close>)
qed

lemma perform_sim:
  assumes "sv_rel sv sv'" and "call_ok web good call"
  shows "sim sv_rel (perform web sg ops (with_queue qops rt) m ready call sv) (perform web sg ops' (with_queue qops' rt) m ready call sv')"
proof (cases call)
  case (Maintain lanes policy now)
  from assms(1) obtain p p' ch where sv: "sv = (p, ch)" "sv' = (p', ch)" "pipe_rel p p'" "\<forall>e \<in> set (ch_queue ch). good e"
    by (rule sv_relE)
  from maintenance_sim [OF sv(3), of rt lanes policy now] sv show ?thesis
    by (auto elim!: simE simp: perform_def Maintain server_rel_def)
qed (use assms in \<open>simp_all add: perform_def serve_ingest_sim apfst_sim dispatcher_sim\<close>)

lemma perform_all_sim:
  "sv_rel sv sv' \<Longrightarrow> \<forall>c \<in> set calls. call_ok web good c \<Longrightarrow>
     sim sv_rel (perform_all web sg ops (with_queue qops rt) m ready calls sv)
       (perform_all web sg ops' (with_queue qops' rt) m ready calls sv')"
proof (induction calls arbitrary: sv sv')
  case (Cons c calls)
  from perform_sim [OF Cons.prems(1), of web c sg rt m ready] Cons.prems(2) obtain a u v where
    p: "perform web sg ops (with_queue qops rt) m ready c sv = (a, u)"
      "perform web sg ops' (with_queue qops' rt) m ready c sv' = (a, v)" "sv_rel u v" by (auto elim!: simE)
  from Cons.IH [OF p(3)] Cons.prems(2) obtain as u' v' where
    "perform_all web sg ops (with_queue qops rt) m ready calls u = (as, u')"
    "perform_all web sg ops' (with_queue qops' rt) m ready calls v = (as, v')" "sv_rel u' v'" by (auto elim!: simE)
  with p show ?case by simp
qed simp

end

subsection \<open>The running server\<close>

text \<open>The same server on another backend.\<close>

definition with_backend ::
  "'t event_store_ops \<Rightarrow> 'r dead_trigger_ops \<Rightarrow> ('s, 'b, 'l, 'e, 'q) server_config \<Rightarrow> ('t, 'b, 'l, 'e, 'r) server_config" where
  "with_backend es qops cf =
     \<lparr>cf_runtime = with_queue qops (cf_runtime cf), cf_store = es, cf_handler = cf_handler cf, cf_capacity = cf_capacity cf,
      cf_web = cf_web cf, cf_verifier = cf_verifier cf, cf_policy = cf_policy cf\<rparr>"

lemma with_backend_simps [simp]:
  "cf_runtime (with_backend es qops cf) = with_queue qops (cf_runtime cf)" "cf_store (with_backend es qops cf) = es"
  "cf_handler (with_backend es qops cf) = cf_handler cf" "cf_capacity (with_backend es qops cf) = cf_capacity cf"
  "cf_web (with_backend es qops cf) = cf_web cf" "cf_verifier (with_backend es qops cf) = cf_verifier cf"
  "cf_policy (with_backend es qops cf) = cf_policy cf"
  by (simp_all add: with_backend_def)

lemma with_backend_id: "with_backend (cf_store cf) (rt_dead_triggers (cf_runtime cf)) cf = cf"
  by (simp add: with_backend_def with_queue_id)

lemma start_handling_backend [simp]: "start_handling (with_backend es qops cf) ow e = start_handling cf ow e"
  by (simp add: start_handling_def)

lemma task_functions_backend [simp]:
  "after_handling (with_backend es qops cf) ow e rep = after_handling cf ow e rep"
  "send_step (with_backend es qops cf) e ch = send_step cf e ch"
  by (cases ow rule: owner_cases; simp) (simp add: send_step_def)

definition state_rel ::
  "(event_envelope \<Rightarrow> bool) \<Rightarrow> ('s \<Rightarrow> 't \<Rightarrow> bool) \<Rightarrow> ('q \<Rightarrow> 'r \<Rightarrow> bool)
     \<Rightarrow> ('s, 'b, 'q) server_state \<Rightarrow> ('t, 'b, 'r) server_state \<Rightarrow> bool" where
  "state_rel good rel qrel S T \<longleftrightarrow>
     server_rel good rel qrel (fst S) (fst T) \<and> snd S = snd T \<and> (\<forall>t \<in> set (snd S). \<forall>e \<in> task_events t. good e)"

text \<open>The relations read the other way round.\<close>

lemma sim_flip: "sim R\<inverse>\<inverse> m' m \<longleftrightarrow> sim R m m'"
  by (cases m; cases m') auto

lemma rt_rel_flip: "rt_rel Q\<inverse>\<inverse> t s \<longleftrightarrow> rt_rel Q s t"
  by (auto simp: rt_rel_def)

lemma server_rel_flip: "server_rel good rel\<inverse>\<inverse> qrel\<inverse>\<inverse> sv' sv \<longleftrightarrow> server_rel good rel qrel sv sv'"
  by (cases sv; cases sv') (auto simp: server_rel_def rt_rel_flip)

lemma state_rel_flip: "state_rel good rel\<inverse>\<inverse> qrel\<inverse>\<inverse> T S \<longleftrightarrow> state_rel good rel qrel S T"
  by (auto simp: state_rel_def server_rel_flip)

context backend_simulation
begin

lemma flipped: "backend_simulation ops' ops qops' qops good rel\<inverse>\<inverse> qrel\<inverse>\<inverse>"
proof (unfold_locales, unfold sim_flip conversep_iff)
  show "e \<in> set (es_all ops' t) \<Longrightarrow> good e" if "rel s t" for s t e
    using stored_good [OF that] all_sim [OF that] by simp
  show "es_get ops' i t = Some e \<Longrightarrow> e \<in> set (es_all ops' t)" if "rel s t" for s t i e
    using get_stored [OF that] get_sim [OF that] all_sim [OF that] by simp
qed (simp_all add: all_sim get_sim undelivered_sim len_sim append_sim mark_sim retention_sim prune_sim
  queue_all_sim queue_len_sim record_sim drain_sim queue_retention_sim queue_prune_sim)

lemma task_step_sim:
  assumes "sv_rel sv sv'" and "good (task_event t)"
  shows "rel_option (rel_prod (=) (sim sv_rel)) (task_step (with_backend ops qops cf) t sv)
     (task_step (with_backend ops' qops' cf) t sv')"
proof -
  from assms(1) obtain p p' ch where sv: "sv = (p, ch)" "sv' = (p', ch)" "pipe_rel p p'" "\<forall>e \<in> set (ch_queue ch). good e"
    by (rule sv_relE)
  note d = pipe_relD [OF sv(3)]
  show ?thesis
  proof (cases t)
    case (Looking e)
    with sv assms existing_sim [OF d(1), of e] show ?thesis by (simp split: option.split)
  next
    case (Appending e)
    with append_pipe_sim [OF sv(3), of e] assms(2) sv show ?thesis
      by (auto elim!: simE simp: server_rel_def split: result.split event_handler.split)
  next
    case (Sending e)
    with sv assms(2) show ?thesis by (auto simp: server_rel_def send_step_def)
  next
    case (Waiting e)
    with sv assms(2) show ?thesis by (auto simp: server_rel_def send_step_def)
  next
    case (Handling ow e rs rep)
    show ?thesis
    proof (cases rs)
      case Nil
      with Handling sv d finish_handling_sim [OF d(2)] show ?thesis by (simp add: server_rel_def rel_prod_conv)
    next
      case (Cons r rs')
      with Handling begin_trigger_sim [OF d(2), of e "cf_runtime cf" r] assms(2) d(1) sv show ?thesis
        by (auto elim!: simE simp: server_rel_def split: prod.split)
    qed
  next
    case (Submitting ow e r rs rep job n left)
    with continue_trigger_sim [OF d(2), of e "cf_runtime cf" r job n left] assms(2) d(1) sv show ?thesis
      by (auto elim!: simE simp: server_rel_def split: prod.split)
  next
    case (Marking ow e rep)
    with mark_pipe_sim [OF sv(3), of e] assms(2) sv show ?thesis
      by (auto elim!: simE simp: server_rel_def split: result.split)
  qed
qed

lemma task_sim:
  assumes "sv_rel sv sv'" and "good (task_event t)" and "task_step (with_backend ops qops cf) t sv = Some (ls, ts, u)"
  obtains v where "task_step (with_backend ops' qops' cf) t sv' = Some (ls, ts, v)" "sv_rel u v"
  using task_step_sim [OF assms(1,2), of cf] assms(3)
  by (cases "task_step (with_backend ops' qops' cf) t sv'") auto

lemma server_step_sim:
  assumes "server_step (with_backend ops qops cf) S ls S'" and "state_rel good rel qrel S T"
    and "\<forall>e. Received e \<in> set ls \<longrightarrow> good e"
  shows "\<exists>T'. server_step (with_backend ops' qops' cf) T ls T' \<and> state_rel good rel qrel S' T'"
  using assms(1)
proof (cases rule: server_step.cases)
  case (task t sv ts u xs ys)
  with assms(2) obtain sv' where T: "T = (sv', xs @ t # ys)" "sv_rel sv sv'" "\<forall>x \<in> set (xs @ t # ys). \<forall>e \<in> task_events x. good e"
    by (cases T) (auto simp: state_rel_def)
  then have "good (task_event t)" by (simp add: task_events_def)
  with T task(3) obtain v where v: "task_step (with_backend ops' qops' cf) t sv' = Some (ls, ts, v)" "sv_rel u v"
    by (auto elim: task_sim)
  obtain p ch where "sv = (p, ch)" by (cases sv) blast
  with task(3) have "\<forall>t' \<in> set ts. task_events t' \<subseteq> task_events t" by (simp add: task_step_events(1))
  with T(3) have "\<forall>t' \<in> set ts. \<forall>e \<in> task_events t'. good e" by auto
  with server_step.task [OF v(1)] T v(2) task(2) show ?thesis
    by (intro exI [of _ "(v, xs @ ts @ ys)"]) (auto simp: state_rel_def)
next
  case (receive i now headers bdy e sv tasks)
  with assms(2,3) server_step.receive [of "with_backend ops' qops' cf" i now headers bdy e "fst T" "snd T"] show ?thesis
    by (intro exI [of _ "(fst T, snd T @ [Looking e])"]) (auto simp: state_rel_def task_events_def)
next
  case (dispatch ch e rest tasks p)
  with assms(2) obtain p' where T: "T = ((p', ch), tasks)" "pipe_rel p p'" by (cases T) (auto simp: state_rel_def server_rel_def)
  from server_step.dispatch [OF dispatch(4,5), of "with_backend ops' qops' cf" p'] T dispatch assms(2) show ?thesis
    by (intro exI [of _ "((p', ch\<lparr>ch_queue := rest\<rparr>), tasks @ [start_handling cf Dispatcher e])"])
       (auto simp: state_rel_def server_rel_def)
next
  case (replay p q e rest ch tasks)
  with assms(2) obtain p' where T: "T = ((p', ch), tasks)" "pipe_rel p p'" by (cases T) (auto simp: state_rel_def server_rel_def)
  note d = pipe_relD(1) [OF T(2)]
  have "replayed_events ops' (fst p') q = e # rest" "\<forall>x \<in> set (e # rest). good x"
    using replay(4) replayed_sim [OF d, of q] replayed_good [OF d, of _ q] by simp_all
  with server_step.replay [of "with_backend ops' qops' cf" p' q e rest ch tasks] T replay assms(2) show ?thesis
    by (intro exI [of _ "((p', ch), tasks @ [start_handling cf (Replayer rest) e])"]) (auto simp: state_rel_def)
next
  case (cancel t e sv xs ys)
  with assms(2) obtain sv' where "T = (sv', xs @ t # ys)" by (cases T) (auto simp: state_rel_def)
  with cancel assms(2) server_step.cancel [OF cancel(4), of "with_backend ops' qops' cf" sv' xs ys] show ?thesis
    by (intro exI [of _ "(sv', xs @ ys)"]) (auto simp: state_rel_def)
next
  case (cancel_sent ow e r rs rep job n left s x u st ch xs ys)
  with assms(2) obtain st' s' where T: "T = (((st', s'), ch), xs @ Submitting ow e r rs rep job n left # ys)" "rel st st'" "rt_rel qrel s s'"
    by (cases T) (auto simp: state_rel_def server_rel_def)
  from submit_once_sim [OF T(3), of "cf_runtime cf" e r job n] cancel_sent(5) obtain u' where
    u: "submit_once (cf_runtime (with_backend ops' qops' cf)) e r job n s' = (x, u')" "rt_rel qrel u u'" by (auto elim!: simE)
  from server_step.cancel_sent [OF cancel_sent(4) u(1), of st' ch xs ys] u(2) T cancel_sent assms(2) show ?thesis
    by (intro exI [of _ "(((st', u'), ch), xs @ ys)"]) (auto simp: state_rel_def server_rel_def)
next
  case (maintain lanes now p r q ch tasks)
  with assms(2) obtain p' where T: "T = ((p', ch), tasks)" "pipe_rel p p'" by (cases T) (auto simp: state_rel_def server_rel_def)
  from maintenance_sim [OF T(2), of "cf_runtime cf" lanes "cf_policy cf" now] maintain(4) obtain q' where
    q: "maintenance_tick (with_queue qops' (cf_runtime cf)) ops' lanes (cf_policy cf) now p' = (r, q')" "pipe_rel q q'"
    by (auto elim!: simE)
  from server_step.maintain [of "with_backend ops' qops' cf" lanes now p' r q' ch tasks] q T maintain assms(2) show ?thesis
    by (intro exI [of _ "((q', ch), tasks)"]) (auto simp: state_rel_def server_rel_def)
qed

lemma server_run_sim:
  assumes "server_run (with_backend ops qops cf) S ls S'" and "state_rel good rel qrel S T"
    and "\<forall>e. Received e \<in> set ls \<longrightarrow> good e"
  shows "\<exists>T'. server_run (with_backend ops' qops' cf) T ls T' \<and> state_rel good rel qrel S' T'"
  using assms
proof (induction rule: server_run.induct)
  case (step S ls S1 ls' S2)
  then obtain T1 where T1: "server_run (with_backend ops' qops' cf) T ls T1" "state_rel good rel qrel S1 T1" by auto
  from server_step_sim [OF step.hyps(2) T1(2)] step.prems(2) obtain T2 where
    "server_step (with_backend ops' qops' cf) T1 ls' T2" "state_rel good rel qrel S2 T2" by auto
  with server_run.step [OF T1(1)] show ?case by blast
qed (blast intro: server_run.refl)

end

end
