(* ===== verification/Faultless_Disk.thy ===== *)
theory Faultless_Disk
  imports Store_Rest
begin

text \<open>
  The file-backed stores of \<open>crates/triggerlane-storage/src/lib.rs\<close> on a disk that has no failures to report:
  every call succeeds, compactions through a temporary file included, and keeps the store calm, that is, well
  formed and alone on its disk. So on such a disk a file-backed store can stand in for the in-memory one.
\<close>

subsection \<open>One file\<close>

lemma write_items_succeeds:
  "\<forall>r \<in> set rs. codec_ok c r \<Longrightarrow> fs_script w = [] \<Longrightarrow>
     \<exists>v. write_items (to_vec c) i rs w = (Ok (), v) \<and> fs_script v = []"
  by (induction rs arbitrary: w) (auto simp: codec_ok_def write_all_def)

lemma publish_succeeds:
  assumes "fs_script w = []" and "fs_entries w p = Some i" and "i \<notin> fs_locks w"
  shows "\<exists>v. and_then (sync_parent_dir p w) (\<lambda>_ w. open_locked_append p w) = (Ok i, v)
     \<and> fs_script v = [] \<and> fs_locks v = insert i (fs_locks w) \<and> fs_next v = fs_next w"
  using assms
  by (cases "path_parent p = []")
     (simp_all add: sync_parent_dir_def open_dir_def sync_dir_def open_locked_append_def open_append_def
        try_lock_exclusive_def sys_simps)

text \<open>A compaction reopens the file it has renamed into place and locks it, so nobody may hold a lock on a left-over
  temporary file.\<close>

lemma compact_jsonl_succeeds:
  assumes "calm w" and "\<forall>r \<in> set kept. codec_ok c r" and "with_extension p ''compact'' \<noteq> p"
    and "\<forall>j \<in> fs_locks w. fs_entries w (with_extension p ''compact'') \<noteq> Some j"
  obtains i v where "compact_jsonl c p kept w = (Ok i, v)" "fs_script v = []" "fs_locks v = insert i (fs_locks w)"
    "i < fs_next v" "fs_next w \<le> fs_next v"
proof -
  let ?tmp = "with_extension p ''compact''"
  have sc: "fs_script w = []" using assms(1) by (simp add: calm_def)
  obtain i w1 where o: "open_truncate ?tmp w = (Ok i, w1)" "fs_script w1 = []" "fs_entries w1 ?tmp = Some i"
    "i \<notin> fs_locks w1" "fs_locks w1 = fs_locks w" "i < fs_next w1" "fs_next w \<le> fs_next w1"
    using assms(1,4) sc
    by (cases "fs_entries w ?tmp") (auto simp: open_truncate_def sys_simps calm_def fs_ok_def)
  obtain w2 where wi: "write_items (to_vec c) i kept w1 = (Ok (), w2)" "fs_script w2 = []"
    using write_items_succeeds [OF assms(2) o(2), of i] by blast
  note w2 = write_items_result [OF wi(1)]
  let ?w3 = "w2\<lparr>fs_synced := (fs_synced w2)(i := fs_data w2 i), fs_entries := (fs_entries w2)(?tmp := None, p := Some i)\<rparr>"
  have "fs_script ?w3 = []" "fs_entries ?w3 p = Some i" "i \<notin> fs_locks ?w3" using wi w2 o by simp_all
  from publish_succeeds [OF this] obtain v where v: "and_then (sync_parent_dir p ?w3) (\<lambda>_ w. open_locked_append p w) = (Ok i, v)"
    "fs_script v = []" "fs_locks v = insert i (fs_locks ?w3)" "fs_next v = fs_next ?w3" by blast
  have "compact_jsonl c p kept w = (Ok i, v)"
    using o(1,3) w2 wi v(1)
    by (simp add: compact_jsonl_def write_compacted_def sync_file_def fs_rename_def sys_simps Let_def)
  then show thesis using that v(2-4) w2 o by simp
qed

lemma jsonl_replace_all_succeeds:
  assumes "store_ok c (st, w)" and "calm w" and "\<forall>r \<in> set kept. codec_ok c r"
    and "\<forall>j \<in> fs_locks w. fs_entries w (with_extension (js_path st) ''compact'') \<noteq> Some j"
  obtains st' w' where "jsonl_replace_all c kept (st, w) = (Ok (), (st', w'))" "calm w'"
    "fs_locks w' = insert (js_file st') (fs_locks w) - {js_file st}"
proof -
  have "with_extension (js_path st) ''compact'' \<noteq> js_path st" using assms(1) by (simp add: store_ok_def)
  from assms(2,3) this assms(4) obtain i v where c: "compact_jsonl c (js_path st) kept w = (Ok i, v)" "fs_script v = []"
    "fs_locks v = insert i (fs_locks w)" "i < fs_next v" "fs_next w \<le> fs_next v"
    by (rule compact_jsonl_succeeds)
  have fs: "fs_ok v" using compact_jsonl_result [OF assms(1) c(1)] by simp
  have "calm (drop_handle (js_file st) v)"
    using c(2-5) assms(2) fs_ok_cong [OF fs] by (auto simp: calm_def drop_handle_def)
  then show thesis
    using that [of "st\<lparr>js_file := i, js_records := kept\<rparr>" "drop_handle (js_file st) v"] c
    by (simp add: jsonl_replace_all_def drop_handle_def)
qed

subsection \<open>The event store\<close>

lemma calm_unlocked_tmp:
  assumes "fe_calm cs s" and "j \<in> fs_locks (fe_fs s)"
  shows "fs_entries (fe_fs s) (with_extension (js_path (fe_inner s)) ''compact'') \<noteq> Some j"
    "fs_entries (fe_fs s) (with_extension (js_path (fe_delivered s)) ''compact'') \<noteq> Some j"
proof -
  have wf: "fe_wf cs s" and j: "j = js_file (fe_inner s) \<or> j = js_file (fe_delivered s)"
    using assms by (auto simp: fe_calm_def)
  note wf = fe_wfD [OF wf]
  from j obtain q where q: "fs_entries (fe_fs s) q = Some j" "q \<in> {js_path (fe_inner s), js_path (fe_delivered s)}"
    using wf(2,3) by (auto simp: store_ok_def)
  have only: "p = q" if "fs_entries (fe_fs s) p = Some j" for p
    using that q(1) wf(2) by (auto simp: store_ok_def fs_ok_def)
  show "fs_entries (fe_fs s) (with_extension (js_path (fe_inner s)) ''compact'') \<noteq> Some j"
    using only q(2) wf(2,6) compact_neq_delivered by (force simp: store_ok_def)
  show "fs_entries (fe_fs s) (with_extension (js_path (fe_delivered s)) ''compact'') \<noteq> Some j"
    using only q(2) wf(3,6) delivered_compact_neq by (force simp: store_ok_def)
qed

lemma fe_retain_succeeds:
  assumes "fe_calm cs s" and "\<And>es. subseq (f es) es"
  shows "\<exists>n s'. on_inner (jsonl_retain (fst cs) f) s = (Ok n, s') \<and> fe_calm cs s'"
proof (cases "length (f (js_records (fe_inner s))) < length (js_records (fe_inner s))")
  case True
  note wf = fe_wfD [of cs s]
  have ok: "store_ok (fst cs) (fe_inner s, fe_fs s)" "calm (fe_fs s)" using assms(1) wf(2) by (auto simp: fe_calm_def)
  have "\<forall>e \<in> set (f (js_records (fe_inner s))). codec_ok (fst cs) e"
    using ok(1) subseq_set [OF assms(2)] by (auto simp: store_ok_def)
  moreover have "\<forall>j \<in> fs_locks (fe_fs s). fs_entries (fe_fs s) (with_extension (js_path (fe_inner s)) ''compact'') \<noteq> Some j"
    using calm_unlocked_tmp(1) [OF assms(1)] by blast
  ultimately obtain st w where
    r: "jsonl_replace_all (fst cs) (f (js_records (fe_inner s))) (fe_inner s, fe_fs s) = (Ok (), (st, w))"
      "calm w" "fs_locks w = insert (js_file st) (fs_locks (fe_fs s)) - {js_file (fe_inner s)}"
    by (rule jsonl_replace_all_succeeds [OF ok])
  let ?n = "length (js_records (fe_inner s)) - length (f (js_records (fe_inner s)))"
  have run: "on_inner (jsonl_retain (fst cs) f) s = (Ok ?n, s\<lparr>fe_inner := st, fe_fs := w\<rparr>)"
    using True r(1) by (simp add: on_inner_def jsonl_retain_def Let_def)
  have "fe_wf cs (s\<lparr>fe_inner := st, fe_fs := w\<rparr>)"
    using fe_retain_wf [OF _ assms(2) run] assms(1) by (simp add: fe_calm_def)
  with run r assms(1) show ?thesis by (auto simp: fe_calm_def)
next
  case False
  with assms(1) show ?thesis by (simp add: on_inner_def jsonl_retain_def Let_def)
qed

lemma fe_append_faultless:
  "fe_calm cs s \<Longrightarrow> codec_ok (fst cs) e \<Longrightarrow> \<exists>s'. fe_append cs e s = (Ok (), s') \<and> fe_calm cs s'"
  using fe_append_succeeds [of cs e s] fe_append_calm [of cs s e "()"] by (auto simp: fe_calm_def calm_def)

lemma fe_mark_faultless:
  "fe_calm cs s \<Longrightarrow> codec_ok (snd cs) i \<Longrightarrow> \<exists>s'. fe_mark_delivered cs i s = (Ok (), s') \<and> fe_calm cs s'"
  using fe_mark_succeeds [of cs i s] fe_mark_calm [of cs s i "()"] by (auto simp: fe_calm_def calm_def)

lemma fe_prune_faultless: "fe_calm cs s \<Longrightarrow> \<exists>n s'. fe_prune cs m s = (Ok n, s') \<and> fe_calm cs s'"
  unfolding fe_prune_def jsonl_prune_retain by (rule fe_retain_succeeds) (auto simp: keep_subseq)

lemma fe_retention_faultless:
  assumes "fe_calm cs s"
  shows "\<exists>n s'. fe_enforce_retention cs p now s = (Ok n, s') \<and> fe_calm cs s'"
proof (cases "is_unbounded p")
  case True
  with assms show ?thesis by (simp add: fe_enforce_retention_def)
next
  case False
  let ?f = "\<lambda>es. retain_events (to_vec (fst cs)) es (fe_delivered_set s) p now"
  let ?kd = "filter (\<lambda>i. i \<in> set (map ev_id (?f (fe_all s)))) (sorted_list_of_set (fe_delivered_set s))"
  from fe_retain_succeeds [OF assms, of ?f] obtain n s1 where i: "on_inner (jsonl_retain (fst cs) ?f) s = (Ok n, s1)"
    and calm1: "fe_calm cs s1" by (auto simp: retain_events_subseq)
  show ?thesis
  proof (cases "n > 0")
    case True
    have wf: "fe_wf cs s" "fe_wf cs s1" "calm (fe_fs s1)" using assms calm1 by (auto simp: fe_calm_def)
    have "\<forall>i \<in> set ?kd. codec_ok (snd cs) i"
      using fe_wfD(3,7) [OF wf(1)] sorted_list_of_set_subset [of "fe_delivered_set s"] by (auto simp: store_ok_def)
    moreover have "\<forall>j \<in> fs_locks (fe_fs s1).
        fs_entries (fe_fs s1) (with_extension (js_path (fe_delivered s1)) ''compact'') \<noteq> Some j"
      using calm_unlocked_tmp(2) [OF calm1] by blast
    ultimately obtain st w where
      d: "jsonl_replace_all (snd cs) ?kd (fe_delivered s1, fe_fs s1) = (Ok (), (st, w))" "calm w"
        "fs_locks w = insert (js_file st) (fs_locks (fe_fs s1)) - {js_file (fe_delivered s1)}"
      by (rule jsonl_replace_all_succeeds [OF fe_wfD(3) [OF wf(2)] wf(3)])
    have run: "fe_enforce_retention cs p now s
        = (Ok n, s1\<lparr>fe_delivered := st, fe_fs := w, fe_delivered_set := set ?kd\<rparr>)"
      using False True i d(1) by (simp add: fe_enforce_retention_def Let_def on_delivered_def)
    from fe_retention_wf [OF wf(1) run] run d calm1 show ?thesis by (auto simp: fe_calm_def)
  next
    case n: False
    with False i calm1 show ?thesis by (simp add: fe_enforce_retention_def Let_def)
  qed
qed

subsection \<open>The dead-trigger queue\<close>

definition fq_calm :: "queue_codec \<Rightarrow> file_queue \<Rightarrow> bool" where
  "fq_calm c q \<longleftrightarrow> store_ok c q \<and> calm (snd q) \<and> fs_locks (snd q) \<subseteq> {js_file (fst q)}"

lemma fq_record_faultless:
  assumes "fq_calm c q" and "codec_ok c r"
  shows "\<exists>q'. fq_record c r q = (Ok (), q') \<and> fq_calm c q'"
proof -
  have q: "store_ok c (fst q, snd q)" "calm (snd q)" "fs_script (snd q) = []" using assms(1) by (auto simp: fq_calm_def calm_def)
  from jsonl_append_succeeds [OF assms(2) q(3), of "fst q"] obtain st w where
    a: "jsonl_append c r (fst q, snd q) = (Ok (), (st, w))" by blast
  from jsonl_append_store_ok [OF q(1) assms(2) a] jsonl_append_calm [OF a q(2)] a assms(1) show ?thesis
    by (auto simp: fq_calm_def fq_record_def)
qed

lemma fq_drain_faultless:
  assumes "fq_calm c q"
  shows "\<exists>q'. fq_drain q = (Ok (jsonl_all q), q') \<and> fq_calm c q'"
  using assms
  by (cases q) (auto simp: fq_calm_def fq_drain_def jsonl_drain_def jsonl_all_def set_len_0_def sync_file_def sys_simps
      calm_def store_ok_def fs_ok_def)

lemma fq_retain_faultless:
  assumes "fq_calm c q" and "\<And>rs. subseq (f rs) rs"
  shows "\<exists>n q'. jsonl_retain c f q = (Ok n, q') \<and> fq_calm c q'"
proof (cases "length (f (js_records (fst q))) < length (js_records (fst q))")
  case True
  have q: "store_ok c (fst q, snd q)" "calm (snd q)" "fs_locks (snd q) \<subseteq> {js_file (fst q)}"
    using assms(1) by (auto simp: fq_calm_def)
  have kept: "\<forall>r \<in> set (f (js_records (fst q))). codec_ok c r"
    using q(1) subseq_set [OF assms(2), of "js_records (fst q)"] by (auto simp: store_ok_def)
  have "\<forall>j \<in> fs_locks (snd q). fs_entries (snd q) (with_extension (js_path (fst q)) ''compact'') \<noteq> Some j"
    using q(1,3) by (auto simp: store_ok_def fs_ok_def)
  from q(1,2) kept this obtain st w where r: "jsonl_replace_all c (f (js_records (fst q))) (fst q, snd q) = (Ok (), (st, w))"
    "calm w" "fs_locks w = insert (js_file st) (fs_locks (snd q)) - {js_file (fst q)}"
    by (rule jsonl_replace_all_succeeds)
  have "store_ok c (st, w)" using jsonl_replace_all_result [OF q(1) kept r(1)] by simp
  with True r q(3) show ?thesis by (auto simp: jsonl_retain_def Let_def fq_calm_def)
next
  case False
  with assms(1) show ?thesis by (simp add: jsonl_retain_def Let_def)
qed

lemma fq_retention_faultless:
  "fq_calm c q \<Longrightarrow> \<exists>n q'. fq_enforce_retention c p now q = (Ok n, q') \<and> fq_calm c q'"
  using fq_retain_faultless [of c q "\<lambda>records. retain_dead_triggers (to_vec c) records p now"]
  by (cases "is_unbounded p") (simp_all add: fq_enforce_retention_def retain_dead_triggers_subseq)

lemma fq_prune_faultless: "fq_calm c q \<Longrightarrow> \<exists>n q'. fq_prune c m q = (Ok n, q') \<and> fq_calm c q'"
  unfolding fq_prune_def jsonl_prune_retain by (rule fq_retain_faultless) (auto simp: keep_subseq)

end
