(* ===== verification/Backends.thy ===== *)
theory Backends
  imports Backend_Simulation Faultless_Disk "HOL-Library.Countable"
begin

text \<open>
  The file-backed store and queue of \<open>crates/triggerlane-storage/src/lib.rs\<close> beside the in-memory ones. On a disk
  without failures they are related by a simulation in the sense of \<open>Backend_Simulation\<close>, in both directions, so a
  server on files and a server in memory cannot be told apart. What the simulation needs of the serializer is stated
  per event, by \<open>storable\<close>.
\<close>

subsection \<open>Files without failures\<close>

text \<open>An event that all three files of the backend can hold: the log, the journal of delivered ids, and the
  dead-trigger queue for any failure of a trigger on it.\<close>

definition storable :: "event_codecs \<Rightarrow> queue_codec \<Rightarrow> event_envelope \<Rightarrow> bool" where
  "storable cs qc e \<longleftrightarrow> codec_ok (fst cs) e \<and> codec_ok (snd cs) (ev_id e)
     \<and> (\<forall>name err. codec_ok qc \<lparr>dt_event = e, dt_trigger_name = name, dt_error = err\<rparr>)"

text \<open>A file-backed store or queue on a disk without failures, and the in-memory one with the same contents.\<close>

definition same_store :: "event_codecs \<Rightarrow> queue_codec \<Rightarrow> file_event_store \<Rightarrow> in_memory_event_store \<Rightarrow> bool" where
  "same_store cs qc s m \<longleftrightarrow> fe_calm cs s \<and> fe_all s = im_events m \<and> fe_delivered_set s = im_delivered m
     \<and> (\<forall>e \<in> set (fe_all s). storable cs qc e)"

definition same_queue :: "queue_codec \<Rightarrow> file_queue \<Rightarrow> in_memory_queue \<Rightarrow> bool" where
  "same_queue qc q r \<longleftrightarrow> fq_calm qc q \<and> jsonl_all q = r"

lemma same_append:
  assumes "same_store cs qc s m" and "storable cs qc e"
  shows "sim (same_store cs qc) (fe_append cs e s) (im_append e m)"
proof -
  from assms fe_append_faultless [of cs s e] obtain s' where a: "fe_append cs e s = (Ok (), s')" "fe_calm cs s'"
    by (auto simp: same_store_def storable_def)
  with fe_append_memory [OF a(1)] assms show ?thesis by (simp add: same_store_def im_append_def)
qed

lemma same_mark:
  assumes "same_store cs qc s m" and "storable cs qc e"
  shows "sim (same_store cs qc) (fe_mark_delivered cs (ev_id e) s) (im_mark_delivered (ev_id e) m)"
proof -
  from assms fe_mark_faultless [of cs s "ev_id e"] obtain s' where a: "fe_mark_delivered cs (ev_id e) s = (Ok (), s')" "fe_calm cs s'"
    by (auto simp: same_store_def storable_def)
  with fe_mark_delivered_memory [OF a(1)] assms show ?thesis by (simp add: same_store_def im_mark_delivered_def)
qed

lemma same_prune:
  assumes "same_store cs qc s m"
  shows "sim (same_store cs qc) (fe_prune cs policy s) (im_prune policy m)"
proof -
  from assms fe_prune_faultless [of cs s policy] obtain n s' where a: "fe_prune cs policy s = (Ok n, s')" "fe_calm cs s'"
    by (auto simp: same_store_def)
  have "set (keep policy (im_events m) ev_timestamp) \<subseteq> set (im_events m)" by (rule subseq_set [OF keep_subseq])
  with fe_prune_memory [OF a(1)] a assms show ?thesis by (auto simp: same_store_def im_prune_def Let_def)
qed

lemma same_retention:
  assumes "same_store cs qc s m"
  shows "sim (same_store cs qc) (fe_enforce_retention cs p now s) (im_enforce_retention (to_vec (fst cs)) p now m)"
proof -
  from assms fe_retention_faultless [of cs s p now] obtain n s' where a: "fe_enforce_retention cs p now s = (Ok n, s')" "fe_calm cs s'"
    by (auto simp: same_store_def)
  obtain r m' where b: "im_enforce_retention (to_vec (fst cs)) p now m = (r, m')" by force
  have fin: "set (sorted_list_of_set (fe_delivered_set s)) = fe_delivered_set s"
    using fe_wfD(7) [of cs s] assms by (metis List.finite_set fe_calm_def same_store_def set_sorted_list_of_set)
  have "set (im_events m') \<subseteq> set (im_events m)"
    using im_retention [OF b] subseq_set [OF retain_events_subseq] by auto
  with fe_retention_memory [OF a(1)] im_retention [OF b] a b assms fin show ?thesis by (auto simp: same_store_def)
qed

lemma same_record:
  assumes "same_queue qc q r" and "storable cs qc (dt_event d)"
  shows "sim (same_queue qc) (jsonl_append qc d q) (imq_record d r)"
proof -
  have "codec_ok qc d" using assms(2) by (cases d) (simp add: storable_def)
  with fq_record_faultless [of qc q d] assms(1) obtain q' where a: "jsonl_append qc d q = (Ok (), q')" "fq_calm qc q'"
    by (auto simp: same_queue_def fq_record_def)
  with jsonl_append_memory [OF a(1)] assms(1) show ?thesis by (simp add: same_queue_def imq_record_def jsonl_all_def)
qed

lemma same_drain: "same_queue qc q r \<Longrightarrow> sim (same_queue qc) (fq_drain q) (imq_drain r)"
  using fq_drain_faultless [of qc q] fq_drain_memory [of q "Ok (jsonl_all q)"]
  by (auto simp: same_queue_def imq_drain_def)

lemma same_queue_retention:
  assumes "same_queue qc q r"
  shows "sim (same_queue qc) (fq_enforce_retention qc p now q) (imq_enforce_retention (to_vec qc) p now r)"
proof -
  from assms fq_retention_faultless [of qc q p now] obtain n q' where
    a: "fq_enforce_retention qc p now q = (Ok n, q')" "fq_calm qc q'" by (auto simp: same_queue_def)
  with fq_retention_memory [OF a(1)] assms show ?thesis
    by (auto simp: same_queue_def imq_enforce_retention_def Let_def retain_dead_triggers_unbounded
        retain_dead_triggers_same_length)
qed

lemma same_queue_prune:
  assumes "same_queue qc q r"
  shows "sim (same_queue qc) (fq_prune qc m q) (imq_prune m r)"
proof -
  from assms fq_prune_faultless [of qc q m] obtain n q' where
    a: "fq_prune qc m q = (Ok n, q')" "fq_calm qc q'" by (auto simp: same_queue_def)
  with fq_prune_memory [OF a(1)] assms show ?thesis by (auto simp: same_queue_def imq_prune_def Let_def)
qed

lemma im_queue_ops:
  "dq_record (im_queue enc) = imq_record" "dq_all (im_queue enc) q = q" "dq_drain (im_queue enc) = imq_drain"
  "dq_prune (im_queue enc) = imq_prune" "dq_enforce_retention (im_queue enc) = imq_enforce_retention enc"
  "dq_len (im_queue enc) q = length q"
  by (simp_all add: im_queue_def)

interpretation fb: backend_simulation "fe_store cs" "im_store (to_vec (fst cs))" "file_dead_trigger_queue qc"
  "im_queue (to_vec qc)" "storable cs qc" "same_store cs qc" "same_queue qc" for cs qc
  by (unfold_locales; unfold fe_store_laws im_store_laws file_queue_ops im_queue_ops)
     (erule (1) same_append same_mark same_record | erule same_retention same_prune same_drain same_queue_retention same_queue_prune
      | (auto simp: same_store_def same_queue_def dest: find_SomeD) [1])+

interpretation bf: backend_simulation "im_store (to_vec (fst cs))" "fe_store cs" "im_queue (to_vec qc)"
  "file_dead_trigger_queue qc" "storable cs qc" "(same_store cs qc)\<inverse>\<inverse>" "(same_queue qc)\<inverse>\<inverse>" for cs qc
  by (rule fb.flipped)

text \<open>Opening files that were left behind by an earlier process, or that do not exist yet, gives such states.\<close>

lemma opened_same_store:
  assumes "store_at_rest cs p es D v" and "\<forall>e \<in> set es. storable cs qc e"
  obtains s w where "fe_open cs p v = (Ok s, w)" "same_store cs qc s \<lparr>im_events = es, im_delivered = D\<rparr>"
  using assms by (auto simp: same_store_def elim!: store_open)

lemma opened_same_queue:
  assumes "calm v" and "fs_locks v = {}" and "file_at_rest qc p rs v" and "path_parent p \<noteq> []"
  obtains st w where "fq_open qc p v = (Ok st, w)" "same_queue qc (st, w) rs"
proof -
  from assms(1,3,4) obtain st w where "jsonl_open qc p v = (Ok st, w)" "store_ok qc (st, w)" "js_records st = rs" "calm w"
    "fs_locks w = insert (js_file st) (fs_locks v)" by (rule file_open)
  with assms(2) show thesis by (intro that [of st w]) (simp_all add: same_queue_def fq_calm_def fq_open_def jsonl_all_def)
qed

subsection \<open>The two servers cannot be told apart\<close>

text \<open>C15: on a disk without failures, the concurrent server over files and the one over memory have the same runs.
  From states with the same contents, every run of one, under any interleaving of requests, dispatches, replays,
  cancellations and sweeps, is matched by a run of the other that does the same (what is received, stored,
  handled, marked delivered, answered and cancelled, in the same order) and ends with the same contents.\<close>

theorem files_and_memory_same_runs:
  assumes "cf_store cf = fe_store cs" and "rt_dead_triggers (cf_runtime cf) = file_dead_trigger_queue qc"
    and "state_rel (storable cs qc) (same_store cs qc) (same_queue qc) S T"
    and "\<forall>e. Received e \<in> set ls \<longrightarrow> storable cs qc e"
  shows "(server_run cf S ls S' \<longrightarrow>
      (\<exists>T'. server_run (with_backend (im_store (to_vec (fst cs))) (im_queue (to_vec qc)) cf) T ls T'
         \<and> state_rel (storable cs qc) (same_store cs qc) (same_queue qc) S' T'))
    \<and> (server_run (with_backend (im_store (to_vec (fst cs))) (im_queue (to_vec qc)) cf) T ls T' \<longrightarrow>
      (\<exists>S'. server_run cf S ls S' \<and> state_rel (storable cs qc) (same_store cs qc) (same_queue qc) S' T'))"
proof -
  have cf: "with_backend (fe_store cs) (file_dead_trigger_queue qc) cf = cf"
    using with_backend_id [of cf] assms(1,2) by simp
  show ?thesis
    using fb.server_run_sim [of cs qc cf S ls S' T] bf.server_run_sim [of cs qc cf T ls T' S] assms(3,4)
    by (simp add: cf state_rel_flip)
qed

text \<open>C16: and they answer alike. On a disk without failures, asked the same things in the same order (requests on every
  route but the metrics, which show the sizes on disk, dispatches of accepted events, maintenance), the server over files and the one over memory give the same answers,
  status and body, and end with the same events, delivered ids, dead triggers, jobs and traces.\<close>

theorem files_and_memory_answer_alike:
  assumes "rt_dead_triggers rt = file_dead_trigger_queue qc"
    and "server_rel (storable cs qc) (same_store cs qc) (same_queue qc) sv sv'"
    and "\<forall>c \<in> set calls. call_ok web (storable cs qc) c"
  shows "fst (perform_all web sg (fe_store cs) rt m ready calls sv)
       = fst (perform_all web sg (im_store (to_vec (fst cs))) (with_queue (im_queue (to_vec qc)) rt) m ready calls sv')
     \<and> server_rel (storable cs qc) (same_store cs qc) (same_queue qc)
         (snd (perform_all web sg (fe_store cs) rt m ready calls sv))
         (snd (perform_all web sg (im_store (to_vec (fst cs))) (with_queue (im_queue (to_vec qc)) rt) m ready calls sv'))"
proof -
  have "with_queue (file_dead_trigger_queue qc) rt = rt" using with_queue_id [of rt] assms(1) by simp
  with fb.perform_all_sim [OF assms(2,3), of sg rt m ready] show ?thesis by (auto elim!: simE)
qed

subsection \<open>A concrete pair of servers\<close>

text \<open>A queue codec for the failures on one event: the name and the error, as a number in unary.\<close>

definition failure_codec :: "event_envelope \<Rightarrow> queue_codec" where
  "failure_codec e =
     \<lparr>to_vec = (\<lambda>r. Ok (CHR ''{'' # replicate (to_nat (dt_trigger_name r, dt_error r)) CHR ''x'' @ ''}'')),
      from_str = (\<lambda>b. case from_nat (length b - 2) of (name, err) \<Rightarrow>
        Ok \<lparr>dt_event = e, dt_trigger_name = name, dt_error = err\<rparr>)\<rparr>"

lemma storable_demo: "storable (pin_codecs e) (failure_codec e) e"
  using pin_codecs_ok [of e]
  by (auto simp: storable_def codec_ok_def failure_codec_def intro!: from_utf8_ascii ws_len_ascii)

lemma calm_empty: "calm empty_fs" "fs_locks empty_fs = {}" "fs_entries empty_fs p = None" "fs_synced_entries empty_fs p = None"
  by (simp_all add: calm_def fs_ok_def empty_fs_def)

lemma demo_with_extension: "path_parent ''d/s.jsonl'' \<noteq> []" "with_extension ''d/s.jsonl'' ''compact'' \<noteq> ''d/s.jsonl''"
  by (simp_all add: path_parent_def with_extension_def file_name_def file_stem_def)

text \<open>Both files opened on empty disks, beside an empty in-memory backend.\<close>

lemma demo_same_start:
  obtains s q w where "fe_open (pin_codecs e) ''d/s.jsonl'' empty_fs = (Ok s, w)"
    "state_rel (storable (pin_codecs e) (failure_codec e)) (same_store (pin_codecs e) (failure_codec e)) (same_queue (failure_codec e))
       (((s, rt_new b q), demo_channel), []) (((im_new, rt_new b []), demo_channel), [])"
proof -
  let ?cs = "pin_codecs e" and ?qc = "failure_codec e"
  have "store_at_rest ?cs ''d/s.jsonl'' [] {} empty_fs"
    by (simp add: store_at_rest_def file_at_rest_def calm_empty demo_with_extension compact_neq_delivered)
  then obtain s w where s: "fe_open ?cs ''d/s.jsonl'' empty_fs = (Ok s, w)" "same_store ?cs ?qc s im_new"
    by (auto simp: im_new_def elim!: opened_same_store [where qc = ?qc])
  have "file_at_rest ?qc ''d/s.jsonl'' [] empty_fs" by (simp add: file_at_rest_def calm_empty demo_with_extension)
  from calm_empty(1,2) this demo_with_extension(1) obtain st v where "same_queue ?qc (st, v) []"
    by (rule opened_same_queue)
  with s that [of s w "(st, v)"] show thesis
    by (simp add: state_rel_def server_rel_def rt_rel_def rt_new_def demo_channel_def)
qed

definition demo_post :: event_envelope where
  "demo_post = envelope_new (EventId 1) 0 Http ''event.demo'' []"

definition paired_config ::
  "(file_event_store, nat \<times> (string \<times> string) list, string, string, file_queue) server_config" where
  "paired_config = with_backend (fe_store (pin_codecs demo_post)) (file_dead_trigger_queue (failure_codec demo_post))
     (demo_config AcceptEventHandler)"

theorem files_and_memory_same_runs_witness:
  "\<exists>s q w S'. fe_open (pin_codecs demo_post) ''d/s.jsonl'' empty_fs = (Ok s, w)
     \<and> server_run paired_config (((s, rt_new (0, []) q), demo_channel), [])
         [Received demo_post, Stored demo_post, Answered demo_post (Ok handling_report_accepted)] S'
     \<and> fe_all (fst (fst (fst S'))) = [demo_post]"
proof -
  let ?cs = "pin_codecs demo_post" and ?qc = "failure_codec demo_post"
  let ?mf = "with_backend (im_store (to_vec (fst ?cs))) (im_queue (to_vec ?qc)) paired_config"
  let ?b = "(0, []) :: nat \<times> (string \<times> string) list"
  let ?p = "(im_new, rt_new ?b [])" and ?q = "(im_new\<lparr>im_events := [demo_post]\<rparr>, rt_new ?b [])"
  let ?ls = "[Received demo_post, Stored demo_post, Answered demo_post (Ok handling_report_accepted)]"
  obtain s q w where s: "fe_open ?cs ''d/s.jsonl'' empty_fs = (Ok s, w)"
    and start: "state_rel (storable ?cs ?qc) (same_store ?cs ?qc) (same_queue ?qc)
       (((s, rt_new ?b q), demo_channel), []) ((?p, demo_channel), [])"
    by (rule demo_same_start)
  have "admit (cf_web ?mf) (cf_verifier ?mf) (EventId 1) 0 Map.empty ''event.demo'' = Some demo_post"
    by (simp add: admit_def paired_config_def demo_config_def MAX_EVENT_BODY_BYTES_def demo_web_def post_events_def
        with_metadata_def demo_post_def envelope_new_def default_metadata_def)
  from server_run_single [OF server_step.receive [OF this, of "(?p, demo_channel)" "[]"]]
  have r1: "server_run ?mf ((?p, demo_channel), []) [Received demo_post] ((?p, demo_channel), [Looking demo_post])" by simp
  have "task_step ?mf (Looking demo_post) (?p, demo_channel) = Some ([], [Appending demo_post], (?p, demo_channel))"
    by (simp add: existing_event_def demo_post_def envelope_new_def default_metadata_def)
  note r2 = server_run_then_task [OF r1 this]
  have "task_step ?mf (Appending demo_post) (?p, demo_channel) = Some ([Stored demo_post], [Sending demo_post], (?q, demo_channel))"
    by (simp add: paired_config_def demo_config_def on_store_def im_store_laws im_append_def im_new_def)
  note r3 = server_run_then_task [OF r2 this]
  have "task_step ?mf (Sending demo_post) (?q, demo_channel)
      = Some ([Answered demo_post (Ok handling_report_accepted)], [], (?q, demo_channel\<lparr>ch_queue := [demo_post]\<rparr>))"
    by (simp add: paired_config_def demo_config_def demo_channel_def send_step_def)
  from server_run_then_task [OF r3 this]
  have run: "server_run ?mf ((?p, demo_channel), []) ?ls ((?q, demo_channel\<lparr>ch_queue := [demo_post]\<rparr>), [])" by simp
  have cf: "cf_store paired_config = fe_store ?cs" "rt_dead_triggers (cf_runtime paired_config) = file_dead_trigger_queue ?qc"
    by (simp_all add: paired_config_def)
  have "\<forall>e. Received e \<in> set ?ls \<longrightarrow> storable ?cs ?qc e" using storable_demo [of demo_post] by simp
  from files_and_memory_same_runs [OF cf start this, THEN conjunct2, rule_format, OF run] obtain S' where
    S': "server_run paired_config (((s, rt_new ?b q), demo_channel), []) ?ls S'"
      "state_rel (storable ?cs ?qc) (same_store ?cs ?qc) (same_queue ?qc) S' ((?q, demo_channel\<lparr>ch_queue := [demo_post]\<rparr>), [])"
    by blast
  from S'(2) have "fe_all (fst (fst (fst S'))) = [demo_post]"
    by (cases S') (auto simp: state_rel_def server_rel_def same_store_def)
  with s S'(1) show ?thesis by blast
qed

definition paired_serving :: "(nat \<times> (string \<times> string) list, string, string) serving" where
  "paired_serving =
     \<lparr>sg_runtime = cf_runtime paired_config, sg_recovered = 0, sg_policy = unbounded, sg_interval = 0, sg_verifier = None,
      sg_read_auth = None, sg_dispatch_capacity = Some 4, sg_request_timeout = None\<rparr>"

abbreviation paired_calls :: "server_call list" where
  "paired_calls \<equiv> [Ask (PostEvents Map.empty ''event.demo'' (EventId 1) 0), DispatchNext, Ask (ReadRequest Map.empty (ListEvents None None))]"

lemma paired_memory_answers:
  "fst (perform_all (demo_web None) paired_serving (im_store enc) (with_queue (im_queue qenc) (cf_runtime paired_config))
     m ready paired_calls ((im_new, rt_new (0, []) []), demo_channel))
   = [Some (202, RouteBody (EventBody \<lparr>resp_event_id = event_id_to_string unary_uuid (EventId 1), resp_submitted = [],
        resp_failure_count = 0, resp_accepted = True\<rparr>)), None, Some (200, RouteBody (EventsBody [demo_post]))]"
  by (simp add: perform_def serve_ingest_def events_router_def post_events_route_def handle_event_def accept_def
      existing_event_def on_store_def on_runtime_def im_store_laws im_append_def im_mark_delivered_def im_new_def
      dispatcher_body_def dispatch_def handle_def matching_def paired_config_def demo_config_def demo_runtime_def
      paired_serving_def demo_web_def demo_channel_def send_def MAX_EVENT_BODY_BYTES_def post_events_def with_metadata_def
      envelope_new_def default_metadata_def read_router_def read_routes_def list_events_route_def Let_def
      handling_report_accepted_def demo_post_def DEFAULT_EVENT_LIST_LIMIT_def)

theorem files_and_memory_answer_alike_witness:
  "\<exists>s q w. fe_open (pin_codecs demo_post) ''d/s.jsonl'' empty_fs = (Ok s, w)
     \<and> fst (perform_all (demo_web None) paired_serving (fe_store (pin_codecs demo_post)) (cf_runtime paired_config)
         (\<lambda>_. []) readiness_ready paired_calls ((s, rt_new (0, []) q), demo_channel))
       = [Some (202, RouteBody (EventBody \<lparr>resp_event_id = event_id_to_string unary_uuid (EventId 1), resp_submitted = [],
            resp_failure_count = 0, resp_accepted = True\<rparr>)), None, Some (200, RouteBody (EventsBody [demo_post]))]"
proof -
  let ?cs = "pin_codecs demo_post" and ?qc = "failure_codec demo_post"
  let ?b = "(0, []) :: nat \<times> (string \<times> string) list"
  obtain s q w where s: "fe_open ?cs ''d/s.jsonl'' empty_fs = (Ok s, w)"
    and start: "state_rel (storable ?cs ?qc) (same_store ?cs ?qc) (same_queue ?qc)
       (((s, rt_new ?b q), demo_channel), []) (((im_new, rt_new ?b []), demo_channel), [])"
    by (rule demo_same_start)
  from start have sv: "server_rel (storable ?cs ?qc) (same_store ?cs ?qc) (same_queue ?qc)
      ((s, rt_new ?b q), demo_channel) ((im_new, rt_new ?b []), demo_channel)" by (simp add: state_rel_def)
  have rt: "rt_dead_triggers (cf_runtime paired_config) = file_dead_trigger_queue ?qc" by (simp add: paired_config_def)
  have "\<forall>c \<in> set paired_calls. call_ok (demo_web None) (storable ?cs ?qc) c"
    using storable_demo [of demo_post]
    by (simp add: call_ok_def demo_web_def demo_post_def post_events_def with_metadata_def envelope_new_def default_metadata_def)
  from files_and_memory_answer_alike [OF rt sv this, of paired_serving "\<lambda>_. []" readiness_ready, THEN conjunct1] s
  show ?thesis unfolding paired_memory_answers by blast
qed

end
