(* ===== verification/Server_Liveness.thy ===== *)
theory Server_Liveness
  imports Server_Properties
begin

text \<open>
  The server makes progress: each task and the dispatcher have only finitely much work left, measured by
  \<open>work\<close>, as long as some work is left one of them can take a step, and so, left to itself, the server runs down
  what it has taken on and answers every request; and it starts with nothing left over from before.
\<close>

subsection \<open>The work that is left\<close>

definition attempts :: "('s, 'b, 'l, 'e, 'q) server_config \<Rightarrow> nat" where
  "attempts cf = unat (max (max_submission_attempts (rt_options (cf_runtime cf))) 1)"

text \<open>A trigger takes one step and one for each attempt to submit.\<close>

definition trigger_work :: "('s, 'b, 'l, 'e, 'q) server_config \<Rightarrow> registered_trigger list \<Rightarrow> nat" where
  "trigger_work cf rs = length rs * (attempts cf + 2)"

definition matches :: "('s, 'b, 'l, 'e, 'q) server_config \<Rightarrow> event_envelope \<Rightarrow> nat" where
  "matches cf e = trigger_work cf (matching (rt_registry (cf_runtime cf)) e)"

definition owner_work :: "('s, 'b, 'l, 'e, 'q) server_config \<Rightarrow> owner \<Rightarrow> nat" where
  "owner_work cf ow = (case ow of Replayer rest \<Rightarrow> sum_list (map (\<lambda>e. matches cf e + 3) rest) | _ \<Rightarrow> 0)"

primrec task_work :: "('s, 'b, 'l, 'e, 'q) server_config \<Rightarrow> task \<Rightarrow> nat" where
  "task_work cf (Looking e) = matches cf e + 7"
| "task_work cf (Appending e) = matches cf e + 6"
| "task_work cf (Sending e) = matches cf e + 5"
| "task_work cf (Waiting e) = matches cf e + 4"
| "task_work cf (Handling ow e rs report) = trigger_work cf rs + owner_work cf ow + 2"
| "task_work cf (Submitting ow e r rs report job n left) = trigger_work cf rs + owner_work cf ow + left + 3"
| "task_work cf (Marking ow e report) = 1"

definition work :: "('s, 'b, 'l, 'e, 'q) server_config \<Rightarrow> ('s, 'b, 'q) server_state \<Rightarrow> nat" where
  "work cf s = sum_list (map (task_work cf) (snd s)) + sum_list (map (\<lambda>e. matches cf e + 3) (ch_queue (snd (fst s))))"

lemma start_handling_work [simp]: "task_work cf (start_handling cf ow e) = matches cf e + owner_work cf ow + 2"
  by (simp add: start_handling_def matches_def)

lemma owner_work_simps [simp]:
  "owner_work cf Request = 0" "owner_work cf Dispatcher = 0" "owner_work cf (Replayer []) = 0"
  "owner_work cf (Replayer (x # xs)) = matches cf x + 3 + owner_work cf (Replayer xs)"
  by (simp_all add: owner_work_def)

lemma after_handling_work:
  "sum_list (map (task_work cf) (after_handling cf ow e rep)) < owner_work cf ow + 2"
  by (rule owner_cases [of ow]) simp_all

lemma apfst_Inr_Inl [simp]: "apfst Inr p \<noteq> (Inl y, s)"
  by (cases p) simp

lemma begin_trigger_work:
  assumes "begin_trigger (cf_runtime cf) e r s = (x, s')" and "next_task ow e r rs rep x = (ls, ts)"
  shows "sum_list (map (task_work cf) ts) < task_work cf (Handling ow e (r # rs) rep)"
proof (cases x)
  case (Inl y)
  with assms(1) obtain job where "y = (job, 0, attempts cf - 1)"
    by (auto simp: begin_trigger_def attempts_def Let_def split: result.splits prod.splits)
  with Inl assms(2) show ?thesis by (auto simp: next_task_def trigger_work_def)
next
  case (Inr y)
  with assms(2) show ?thesis by (cases y) (auto simp: next_task_def trigger_work_def)
qed

lemma continue_trigger_work:
  assumes "continue_trigger (cf_runtime cf) e r job n left s = (x, s')" and "next_task ow e r rs rep x = (ls, ts)"
  shows "sum_list (map (task_work cf) ts) < task_work cf (Submitting ow e r rs rep job n left)"
proof (cases x)
  case (Inl y)
  with assms(1) obtain left' where "y = (job, Suc n, left')" "left = Suc left'"
    by (auto simp: continue_trigger_def split: result.splits prod.splits nat.splits)
  with Inl assms(2) show ?thesis by (auto simp: next_task_def)
next
  case (Inr y)
  with assms(2) show ?thesis by (cases y) (auto simp: next_task_def)
qed

lemma task_step_work:
  assumes "task_step cf t sv = Some (ls, ts, sv')"
  shows "work cf (sv', xs @ ts @ ys) < work cf (sv, xs @ t # ys)"
proof -
  obtain p ch where sv: "sv = (p, ch)" by (cases sv) blast
  have same: ?thesis if "ch_queue (snd sv') = ch_queue ch" "sum_list (map (task_work cf) ts) < task_work cf t"
    using that by (simp add: work_def sv)
  show ?thesis
  proof (cases t)
    case (Looking e)
    with assms show ?thesis by (intro same) (auto simp: sv split: option.splits)
  next
    case (Appending e)
    with assms show ?thesis
      by (intro same) (auto simp: sv split: prod.splits result.splits event_handler.splits)
  next
    case (Sending e)
    with assms show ?thesis by (auto simp: sv work_def send_step_def split: if_splits)
  next
    case (Waiting e)
    with assms show ?thesis by (auto simp: sv work_def send_step_def split: if_splits)
  next
    case (Handling ow e rs report)
    show ?thesis
    proof (cases rs)
      case Nil
      with Handling assms after_handling_work [of cf ow e report] show ?thesis
        by (intro same) (auto simp: sv trigger_work_def)
    next
      case (Cons r rs')
      with Handling assms show ?thesis
        by (intro same) (auto simp: sv simp del: task_work.simps dest: begin_trigger_work split: prod.splits)
    qed
  next
    case (Submitting ow e r rs report job n left)
    with assms show ?thesis
      by (intro same) (auto simp: sv simp del: task_work.simps dest: continue_trigger_work split: prod.splits)
  next
    case (Marking ow e report)
    with assms show ?thesis by (intro same) (auto simp: sv split: prod.splits result.splits)
  qed
qed

lemma dispatch_work:
  assumes "ch_queue ch = e # rest"
  shows "work cf ((p, ch\<lparr>ch_queue := rest\<rparr>), tasks @ [start_handling cf Dispatcher e]) < work cf ((p, ch), tasks)"
  using assms by (simp add: work_def)

subsection \<open>Progress\<close>

text \<open>The steps the server takes on its own: of a task, and of the dispatcher. Nothing comes in, nothing is
  cancelled, and no maintenance runs.\<close>

inductive own_step ::
  "('s, 'b, 'l, 'e, 'q) server_config \<Rightarrow> ('s, 'b, 'q) server_state \<Rightarrow> label list \<Rightarrow> ('s, 'b, 'q) server_state \<Rightarrow> bool"
  for cf where
  task: "task_step cf t sv = Some (ls, ts, sv') \<Longrightarrow> own_step cf (sv, xs @ t # ys) ls (sv', xs @ ts @ ys)"
| dispatch: "ch_queue ch = event # rest \<Longrightarrow> \<forall>t \<in> set tasks. task_owner t \<noteq> Dispatcher \<Longrightarrow>
     own_step cf ((p, ch), tasks) [Dispatched event]
       ((p, ch\<lparr>ch_queue := rest\<rparr>), tasks @ [start_handling cf Dispatcher event])"

inductive own_run ::
  "('s, 'b, 'l, 'e, 'q) server_config \<Rightarrow> ('s, 'b, 'q) server_state \<Rightarrow> label list \<Rightarrow> ('s, 'b, 'q) server_state \<Rightarrow> bool"
  for cf where
  refl: "own_run cf s [] s"
| step: "own_step cf s ls t \<Longrightarrow> own_run cf t ls' u \<Longrightarrow> own_run cf s (ls @ ls') u"

lemma own_step_server_step: "own_step cf s ls t \<Longrightarrow> server_step cf s ls t"
  by (induction rule: own_step.induct) (auto intro: server_step.intros)

lemma own_run_server_run: "own_run cf s ls t \<Longrightarrow> server_run cf s ls t"
proof (induction rule: own_run.induct)
  case (step s ls t ls' u)
  from server_run_trans [OF step.IH server_run_single [OF own_step_server_step [OF step.hyps(1)]]] show ?case .
qed (rule server_run.refl)

lemma own_step_work: "own_step cf s ls t \<Longrightarrow> work cf t < work cf s"
  by (induction rule: own_step.induct) (simp_all add: task_step_work dispatch_work)

text \<open>No open task, and nothing in the channel.\<close>

definition drained :: "('s, 'b, 'q) server_state \<Rightarrow> bool" where
  "drained s \<longleftrightarrow> snd s = [] \<and> ch_queue (snd (fst s)) = []"

text \<open>Only a task that waits for room in the channel can be blocked.\<close>

lemma task_step_None:
  "task_step cf t (p, ch) = None \<Longrightarrow> \<exists>e. t = Waiting e \<and> cf_capacity cf \<le> length (ch_queue ch)"
  by (cases "(cf, t, (p, ch))" rule: task_step.cases)
     (auto simp: send_step_def split: option.splits prod.splits result.splits if_splits)

lemma blocked_not_dispatcher: "task_step cf t sv = None \<Longrightarrow> task_owner t \<noteq> Dispatcher"
  by (cases sv) (auto dest: task_step_None)

lemma progress:
  assumes "0 < cf_capacity cf" and "\<not> drained s"
  shows "\<exists>ls t. own_step cf s ls t"
proof -
  obtain p ch tasks where s: "s = ((p, ch), tasks)" by (metis surj_pair)
  show ?thesis
  proof (cases "\<exists>t \<in> set tasks. task_step cf t (p, ch) \<noteq> None")
    case True
    then obtain t ls ts sv' xs ys where t: "task_step cf t (p, ch) = Some (ls, ts, sv')" "tasks = xs @ t # ys"
      by (metis not_None_eq prod_cases3 split_list)
    from own_step.task [OF t(1), of xs ys] t(2) s show ?thesis by blast
  next
    case False
    have "ch_queue ch \<noteq> []"
    proof (cases tasks)
      case Nil
      with assms(2) s show ?thesis by (simp add: drained_def)
    next
      case (Cons t ts)
      then have "t \<in> set tasks" by simp
      with False have "task_step cf t (p, ch) = None" by blast
      with task_step_None [of cf t p ch] assms(1) show ?thesis by auto
    qed
    then obtain e rest where q: "ch_queue ch = e # rest" by (cases "ch_queue ch") auto
    have "\<forall>t \<in> set tasks. task_owner t \<noteq> Dispatcher" using False blocked_not_dispatcher by blast
    from own_step.dispatch [OF q this, of cf p] s show ?thesis by blast
  qed
qed

text \<open>The task of a request goes on until it has answered.\<close>

definition open_requests :: "('s, 'b, 'q) server_state \<Rightarrow> event_envelope set" where
  "open_requests s = task_event ` {t \<in> set (snd s). task_owner t = Request}"

lemma next_task_answers:
  "next_task Request e r rs report x = (ls, ts) \<Longrightarrow>
     (\<exists>t \<in> set ts. task_owner t = Request \<and> task_event t = e) \<or> (\<exists>a. Answered e a \<in> set ls)"
  by (auto simp: next_task_def answer_def split: sum.splits prod.splits result.splits)

lemma task_step_answers:
  assumes "task_step cf t sv = Some (ls, ts, sv')" and "task_owner t = Request"
  shows "(\<exists>t' \<in> set ts. task_owner t' = Request \<and> task_event t' = task_event t) \<or> (\<exists>r. Answered (task_event t) r \<in> set ls)"
proof (cases "(cf, t, sv)" rule: task_step.cases)
  case (6 cf e r rs report p ch)
  with assms next_task_answers show ?thesis by (auto split: prod.splits)
next
  case (7 cf e r rs report job n left p ch)
  with assms next_task_answers show ?thesis by (auto split: prod.splits)
qed (use assms in \<open>auto simp: send_step_def answer_def start_handling_def
        split: option.splits prod.splits result.splits event_handler.splits if_splits\<close>)

lemma own_step_answers:
  assumes "own_step cf s ls t" and "e \<in> open_requests s"
  shows "e \<in> open_requests t \<or> (\<exists>r. Answered e r \<in> set ls)"
  using assms
proof (induction rule: own_step.induct)
  case (task t sv ls ts sv' xs ys)
  from task.prems obtain tk where tk: "tk \<in> set (xs @ t # ys)" "task_owner tk = Request" "e = task_event tk"
    by (auto simp: open_requests_def)
  show ?case
  proof (cases "tk = t")
    case True
    with task_step_answers [OF task.hyps] tk show ?thesis
      by (auto simp: open_requests_def intro: rev_image_eqI)
  next
    case False
    with tk show ?thesis by (auto simp: open_requests_def)
  qed
next
  case (dispatch ch event rest tasks p)
  then show ?case by (auto simp: open_requests_def)
qed

lemma own_run_answers:
  "own_run cf s ls t \<Longrightarrow> e \<in> open_requests s \<Longrightarrow> e \<in> open_requests t \<or> (\<exists>r. Answered e r \<in> set ls)"
proof (induction rule: own_run.induct)
  case (step s ls t ls' u)
  then show ?case using own_step_answers [OF step.hyps(1)] by auto
qed simp

lemma own_run_drains:
  assumes "0 < cf_capacity cf"
  shows "\<exists>ls t. own_run cf s ls t \<and> drained t"
proof (induction "work cf s" arbitrary: s rule: less_induct)
  case less
  show ?case
  proof (cases "drained s")
    case False
    from progress [OF assms False] obtain ls t where t: "own_step cf s ls t" by blast
    from less.hyps [OF own_step_work [OF t]] obtain ls' u where "own_run cf t ls' u" "drained u" by blast
    with own_run.step [OF t] show ?thesis by blast
  qed (blast intro: own_run.refl)
qed

text \<open>C17: left to itself, the server runs down its work. From every state, whatever fails on the way, the steps of
  the tasks and of the dispatcher alone, without any cancellation, new request or maintenance, bring the server to a
  state without open tasks and with an empty dispatch channel; and they cannot do otherwise: there is no endless sequence
  of such steps, and wherever no such step is possible any more, nothing is left and every request that was open has
  been answered. So no request waits for ever for room in the channel, and no accepted event stays in it for ever.\<close>

theorem server_drains:
  assumes "0 < cf_capacity cf"
  shows "(\<exists>ls t. own_run cf s ls t \<and> drained t)
     \<and> wfp (\<lambda>t s. \<exists>ls. own_step cf s ls t)
     \<and> (\<forall>ls t. own_run cf s ls t \<and> (\<nexists>ls' u. own_step cf t ls' u) \<longrightarrow>
          drained t \<and> (\<forall>tk \<in> set (snd s). task_owner tk = Request \<longrightarrow> (\<exists>r. Answered (task_event tk) r \<in> set ls)))"
proof (intro conjI allI impI)
  show "\<exists>ls t. own_run cf s ls t \<and> drained t" by (rule own_run_drains [OF assms])
  show "wfp (\<lambda>t s. \<exists>ls. own_step cf s ls t)" by (rule wfp_if_convertible_to_nat [of _ "work cf"]) (blast intro: own_step_work)
  fix ls t assume run: "own_run cf s ls t \<and> (\<nexists>ls' u. own_step cf t ls' u)"
  with progress [OF assms] show d: "drained t" by blast
  then have "open_requests t = {}" by (simp add: drained_def open_requests_def)
  with own_run_answers [of cf s ls t] run
  show "\<forall>tk \<in> set (snd s). task_owner tk = Request \<longrightarrow> (\<exists>r. Answered (task_event tk) r \<in> set ls)"
    by (auto simp: open_requests_def)
qed

text \<open>A post that waits while the channel is full.\<close>

theorem server_drains_witness:
  "\<exists>ls t r. own_run (demo_config AcceptEventHandler) ((demo_pipeline [], full_channel), [Waiting demo_event]) ls t
     \<and> drained t \<and> Answered demo_event r \<in> set ls"
proof -
  let ?cf = "demo_config AcceptEventHandler" and ?s = "((demo_pipeline [], full_channel), [Waiting demo_event])"
  have cap: "0 < cf_capacity ?cf" by (simp add: demo_config_def)
  from server_drains [OF this, of ?s] obtain ls t where run: "own_run ?cf ?s ls t" "drained t" by blast
  from run(2) have "\<nexists>ls' u. own_step ?cf t ls' u" by (auto simp: drained_def elim: own_step.cases)
  with server_drains [OF cap, of ?s] run(1)
  have "\<forall>tk \<in> set (snd ?s). task_owner tk = Request \<longrightarrow> (\<exists>r. Answered (task_event tk) r \<in> set ls)" by blast
  then have "\<exists>r. Answered demo_event r \<in> set ls" by simp
  with run show ?thesis by blast
qed

subsection \<open>Starting up\<close>

text \<open>C18: the server starts with nothing left over. When \<open>serve\<close> reaches the point where it listens, every event
  of the store has been handled and is marked delivered, and the number it reports as recovered is the number
  of events that were undelivered when the store was opened.\<close>

theorem serve_starts_recovered:
  assumes "serve net api raw_addr backend url w = (Ok (sg, p), w')"
  shows "fe_undelivered (fst p) = []
     \<and> (\<exists>b rt p0 w0. broker_from_cli api backend url w = Ok b \<and> build_ingest api b (w\<lparr>w_broker := b\<rparr>) = (Ok (rt, p0), w0)
          \<and> sg_runtime sg = rt \<and> fe_all (fst p) = fe_all (fst p0) \<and> sg_recovered sg = length (fe_undelivered (fst p0)))"
proof -
  let ?rest = "\<lambda>addr timeout rt p w. case recover_undelivered rt (fe_store (api_codecs api)) p of
      (Err e, p) \<Rightarrow> (Err (CliRuntime e), end_session p w)
    | (Ok recovered, p) \<Rightarrow>
        (case serve_settings net api addr timeout rt recovered (w_env w) of
           Err e \<Rightarrow> (Err e, end_session p w) | Ok sg \<Rightarrow> (Ok (sg, p), w))"
  from assms obtain addr timeout b where b: "broker_from_cli api backend url w = Ok b"
    and bi: "and_then (build_ingest api b (w\<lparr>w_broker := b\<rparr>)) (\<lambda>(rt, p) w. ?rest addr timeout rt p w) = (Ok (sg, p), w')"
    by (auto simp: serve_def split: result.splits)
  from bi obtain a w0 where ia: "build_ingest api b (w\<lparr>w_broker := b\<rparr>) = (Ok a, w0)"
    and rest: "(\<lambda>(rt, p) w. ?rest addr timeout rt p w) a w0 = (Ok (sg, p), w')" unfolding and_then_eq_Ok by blast
  obtain rt p0 where a: "a = (rt, p0)" by (cases a)
  note i = ia [unfolded a]
  obtain rr p1 where rr: "recover_undelivered rt (fe_store (api_codecs api)) p0 = (rr, p1)" by (metis surj_pair)
  with rest a obtain n where n: "rr = Ok n" "p1 = p" and s: "serve_settings net api addr timeout rt n (w_env w0) = Ok sg"
    by (cases rr) (auto split: result.splits)
  note r = rr [unfolded n]
  from s have "sg_runtime sg = rt" "sg_recovered sg = n"
    by (auto simp: serve_settings_def split: result.splits)
  with fe.recover_undelivered_state [OF r] have "fe_undelivered (fst p) = []" "fe_all (fst p) = fe_all (fst p0)"
    "sg_recovered sg = length (fe_undelivered (fst p0))" by (auto simp: fe_store_laws fe_undelivered_def)
  with b i \<open>sg_runtime sg = rt\<close> show ?thesis by blast
qed

text \<open>A first start on empty disks, with the retention bounds switched off.\<close>

definition demo_world :: "(nat \<times> (string \<times> string) list) world" where
  "demo_world =
     \<lparr>w_env = [''TRIGGERLANE_RETENTION_DELIVERED_GRACE'' \<mapsto> ''off'', ''TRIGGERLANE_RETENTION_MAX_COUNT'' \<mapsto> ''off''],
      w_store_fs = empty_fs, w_queue_fs = empty_fs, w_broker = (0, []), w_stdout = []\<rparr>"

definition demo_net :: "unit net_api" where
  "demo_net = \<lparr>parse_socket_addr = (\<lambda>_. Ok ()), install_recorder = Ok (), bind_listener = (\<lambda>_. Ok ())\<rparr>"

lemmas settings_eval = demo_world_def str_trim_def trim_start_not_ws ws_len_ascii parse_unsigned_def digit_val_def
  byte_in_def no_bound_def unbounded_def Let_def

lemma demo_options:
  "runtime_options_from_env (w_env demo_world) = Ok \<lparr>max_submission_attempts = 3, submission_backoff = from_millis 100\<rparr>"
  by (simp add: settings_eval runtime_options_from_env_def parse_runtime_options_def)

lemma demo_timeout:
  "request_timeout (w_env demo_world) = Ok (Some (from_secs 30))"
  by (simp add: settings_eval request_timeout_def parse_request_timeout_def)

lemma demo_retention: "auto_retention_from_env ts (w_env demo_world) = Ok unbounded"
  by (simp add: settings_eval auto_retention_from_env_def parse_auto_retention_def
      parse_bound_duration_def parse_bound_number_def)

lemma demo_interval:
  "retention_interval_from_env (\<lambda>s. Some (s * 1000000000)) (w_env demo_world) = Ok 300000000000"
  by (simp add: settings_eval retention_interval_from_env_def parse_duration_def parse_i64_def checked_mul_i64_def)

lemma demo_flag: "env_flag_enabled (w_env demo_world) ''TRIGGERLANE_ASYNC_DISPATCH'' = False"
  by (simp add: settings_eval env_flag_enabled_def)

lemma demo_open:
  "\<exists>store dead w. open_event_store (demo_api []) demo_world = (Ok store, w\<lparr>w_queue_fs := empty_fs\<rparr>) \<and> fe_all store = []
     \<and> w_env w = w_env demo_world
     \<and> (\<exists>fs. open_dead_trigger_queue (demo_api []) (w\<lparr>w_queue_fs := empty_fs\<rparr>) = (Ok dead, w\<lparr>w_queue_fs := fs\<rparr>))"
proof -
  obtain store fs where o: "fe_open blank_codecs ''triggerlane-events.jsonl'' empty_fs = (Ok store, fs)" "fe_all store = []"
    by (simp add: fe_open_def jsonl_open_def read_jsonl_def fs_read_def attempt_def empty_fs_def path_exists_def
        open_locked_append_def open_append_def try_lock_exclusive_def sync_parent_dir_def path_parent_def
        delivered_path_def fe_all_def jsonl_all_def open_dir_def sync_dir_def Let_def)
  obtain dead fq where q: "fq_open blank_codec ''triggerlane-dead-triggers.jsonl'' empty_fs = (Ok dead, fq)"
    by (simp add: fq_open_def jsonl_open_def read_jsonl_def fs_read_def attempt_def empty_fs_def path_exists_def
        open_locked_append_def open_append_def try_lock_exclusive_def sync_parent_dir_def path_parent_def
        open_dir_def sync_dir_def Let_def)
  from o q show ?thesis
    by (intro exI [of _ store] exI [of _ dead] exI [of _ "demo_world\<lparr>w_store_fs := fs\<rparr>"])
       (simp add: open_event_store_def open_dead_trigger_queue_def demo_api_def demo_world_def)
qed

theorem serve_starts_recovered_witness:
  "\<exists>sg p w. serve demo_net (demo_api []) ''127.0.0.1:8080'' ''sqlite'' None demo_world = (Ok (sg, p), w)
     \<and> fe_undelivered (fst p) = []"
proof -
  obtain store dead w fs where o: "open_event_store (demo_api []) demo_world = (Ok store, w\<lparr>w_queue_fs := empty_fs\<rparr>)"
    "fe_all store = []" "w_env w = w_env demo_world"
    "open_dead_trigger_queue (demo_api []) (w\<lparr>w_queue_fs := empty_fs\<rparr>) = (Ok dead, w\<lparr>w_queue_fs := fs\<rparr>)"
    using demo_open by blast
  have same: "demo_world\<lparr>w_broker := (0, [])\<rparr> = demo_world" by (simp add: demo_world_def)
  have broker: "broker_from_cli (demo_api []) ''sqlite'' None demo_world = Ok (0, [])"
    by (simp add: broker_from_cli_def parse_backend_def connect_broker_def connect_plan_def demo_api_def demo_world_def)
  have reg: "load_registry j rd rts (w_env demo_world) = Ok default_registry" for j :: "unit json_api" and rd rts
    by (simp add: load_registry_def demo_world_def)
  obtain rt p0 where bi: "build_ingest (demo_api []) (0, []) demo_world = (Ok (rt, p0), w\<lparr>w_queue_fs := fs\<rparr>)"
    and p0: "fst p0 = store"
    using o by (simp add: build_ingest_def reg demo_options Let_def)
  have rec: "recover_undelivered rt (fe_store (api_codecs (demo_api []))) p0 = (Ok 0, p0)"
    using o(2) p0 by (simp add: recover_undelivered_def fe_store_laws)
  obtain sg where "serve_settings demo_net (demo_api []) () (Some (from_secs 30)) rt 0 (w_env demo_world) = Ok sg"
    using demo_retention demo_interval demo_flag
    by (simp add: serve_settings_def demo_net_def demo_api_def)
  moreover have "parse_socket_addr demo_net a = Ok ()" "install_recorder demo_net = Ok ()" for a
    by (simp_all add: demo_net_def)
  ultimately have run: "serve demo_net (demo_api []) ''127.0.0.1:8080'' ''sqlite'' None demo_world = (Ok (sg, p0), w\<lparr>w_queue_fs := fs\<rparr>)"
    using broker bi rec o(3) by (simp add: serve_def demo_timeout same)
  from serve_starts_recovered [OF run] run show ?thesis by blast
qed

end
