(* ===== verification/Process.thy ===== *)
theory Process
  imports Server_Liveness Store_Rest
begin

text \<open>
  The process around the commands of \<open>crates/triggerlane-cli/src/main.rs\<close>: the parsed command line \<open>Cli\<close>, the
  dispatch of \<open>run\<close> over all commands, \<open>main\<close> with the error line and the exit status, the choice of the log
  format and the signals that end a server. The theorem at the end speaks of processes that follow one another on
  one machine.
\<close>

subsection \<open>Errors as lines\<close>

definition config_error_to_string :: "config_error \<Rightarrow> string" where
  "config_error_to_string e = (case e of
     ConfigRead e \<Rightarrow> ''reading trigger config: '' @ io_msg e
   | ConfigParse e \<Rightarrow> ''parsing trigger config: '' @ e)"

definition cli_error_to_string :: "cli_error \<Rightarrow> string" where
  "cli_error_to_string e = (case e of
     BindAddr m \<Rightarrow> ''invalid bind address: '' @ m
   | Events m \<Rightarrow> ''events: '' @ m
   | BrokerErr m \<Rightarrow> ''worklane broker error: '' @ m
   | RequestTimeout m \<Rightarrow> ''invalid TRIGGERLANE_REQUEST_TIMEOUT_SECS: '' @ debug_str m
       @ '' (expected a non-negative integer number of seconds)''
   | Retention m \<Rightarrow> ''prune: '' @ m
   | Submission m \<Rightarrow> ''submission: '' @ m
   | Metrics m \<Rightarrow> ''metrics recorder: '' @ m
   | Config e \<Rightarrow> config_error_to_string e
   | Io e \<Rightarrow> io_msg e
   | Json m \<Rightarrow> m
   | CliRuntime e \<Rightarrow> runtime_error_to_string e
   | Panicked m \<Rightarrow> m)"

subsection \<open>Logging\<close>

datatype log_format = JsonFormat | TextFormat

text \<open>The filter language is a parameter: the filter of \<open>RUST_LOG\<close> when it parses, and the filter a constant
  directive stands for.\<close>

definition init_logging :: "(string \<Rightarrow> 'f option) \<Rightarrow> (string \<Rightarrow> 'f) \<Rightarrow> environment \<Rightarrow> 'f \<times> log_format" where
  "init_logging parse_filter filter_new env =
     ((case env ''RUST_LOG'' of
         Some raw \<Rightarrow> (case parse_filter raw of Some f \<Rightarrow> f | None \<Rightarrow> filter_new ''info'')
       | None \<Rightarrow> filter_new ''info''),
      (case env ''TRIGGERLANE_LOG_FORMAT'' of
         Some raw \<Rightarrow> if to_ascii_lowercase raw = ''json'' then JsonFormat else TextFormat
       | None \<Rightarrow> TextFormat))"

subsection \<open>Signals\<close>

text \<open>Installing a handler fails or gives the time the signal arrives, if it ever does. A failed interrupt
  handler ends the wait at once, a failed terminate handler never does.\<close>

definition shutdown_signal :: "nat \<Rightarrow> (nat option, io_error) result \<Rightarrow> (nat option, io_error) result \<Rightarrow> nat option" where
  "shutdown_signal now ctrl_c sigterm =
     wait_for_first (case ctrl_c of Ok t \<Rightarrow> t | Err _ \<Rightarrow> Some now) (case sigterm of Ok t \<Rightarrow> t | Err _ \<Rightarrow> None)"

text \<open>So without an interrupt handler the server stops as soon as it has started, and without a terminate handler
  the interrupt alone decides.\<close>

lemma interrupt_handler_failure_stops:
  "shutdown_signal now (Err e) (Ok t) = Some (case t of Some t \<Rightarrow> min now t | None \<Rightarrow> now)"
  "shutdown_signal now (Ok t) (Err e) = t"
  by (simp_all add: shutdown_signal_def wait_for_first_def split: option.splits)

subsection \<open>Commands and exit status\<close>

datatype cli_command = Command command | Serve string

record cli =
  cli_broker :: string
  cli_url :: "string option"
  cli_command :: cli_command

text \<open>The serving phase, from the bound socket to the end of the graceful shutdown, is an argument: the
  relation \<open>server_step\<close> says what it may do.\<close>

type_synonym ('b, 'l, 'e) serving_phase =
  "('b, 'l, 'e) serving \<Rightarrow> 'b cli_pipeline \<Rightarrow> (unit, io_error) result \<times> 'b cli_pipeline"

definition run_cli ::
  "'a net_api \<Rightarrow> ('b, 'l, 'e, 'd, 'v) cli_api \<Rightarrow> ('b, 'l, 'e) serving_phase \<Rightarrow> cli \<Rightarrow> 'b world
     \<Rightarrow> (unit, cli_error) result \<times> 'b world" where
  "run_cli net api serving_phase cli w = (case cli_command cli of
     Command c \<Rightarrow> run api (cli_broker cli) (cli_url cli) c w
   | Serve addr \<Rightarrow>
       and_then (serve net api addr (cli_broker cli) (cli_url cli) w) (\<lambda>(sg, p) w.
         case serving_phase sg p of (r, p) \<Rightarrow> (map_err Io r, end_session p w)))"

text \<open>The exit status, the last line on the standard error when there is one, and the world the process leaves. A
  panic of the main task ends the process with status 101.\<close>

definition main ::
  "'a net_api \<Rightarrow> ('b, 'l, 'e, 'd, 'v) cli_api \<Rightarrow> ('b, 'l, 'e) serving_phase \<Rightarrow> cli \<Rightarrow> 'b world
     \<Rightarrow> nat \<times> string option \<times> 'b world" where
  "main net api serving_phase cli w = (case run_cli net api serving_phase cli w of
     (Ok _, w) \<Rightarrow> (0, None, w)
   | (Err (Panicked m), w) \<Rightarrow> (101, Some m, w)
   | (Err e, w) \<Rightarrow> (1, Some (cli_error_to_string e), w))"

lemma main_eq_0:
  "main net api ph cli w = (0, err, w') \<longleftrightarrow> err = None \<and> (\<exists>u. run_cli net api ph cli w = (Ok u, w'))"
  by (auto simp: main_def split: prod.splits result.splits cli_error.splits)

subsection \<open>What a command leaves\<close>

lemma build_ingest_Ok:
  assumes "build_ingest api b w = (Ok (rt, p), w')"
  shows "w_env w' = w_env w \<and> w_stdout w' = w_stdout w \<and> (\<forall>path. w_env w ''TRIGGERLANE_STORE'' = Some path \<longrightarrow>
     (\<exists>v. fe_open (api_codecs api) path (w_store_fs w) = (Ok (fst p), v)))"
proof -
  obtain r1 w1 where o: "open_event_store api w = (r1, w1)" by (cases "open_event_store api w")
  obtain r2 w2 where q: "open_dead_trigger_queue api w1 = (r2, w2)" by (cases "open_dead_trigger_queue api w1")
  from assms o q have "r1 = Ok (fst p) \<and> w' = w2"
    by (cases r1; cases r2) (auto simp: build_ingest_def Let_def split: result.splits)
  with o q show ?thesis by (auto simp: open_event_store_def open_dead_trigger_queue_def Let_def split: prod.splits)
qed

lemma with_ingest_Ok:
  assumes "with_ingest api backend url f w = (Ok u, w')" and "w_env w ''TRIGGERLANE_STORE'' = Some path"
    and "fe_open (api_codecs api) path (w_store_fs w) = (Ok s, v)"
  obtains rt q line p where "f rt (s, q) = (Ok line, p)" "w_env w' = w_env w"
    "w_stdout w' = w_stdout w @ [line]"
    "w_store_fs w' = drop_handle (js_file (fe_inner (fst p))) (drop_handle (js_file (fe_delivered (fst p))) (fe_fs (fst p)))"
proof -
  from assms(1) obtain b rt p w1 where b: "build_ingest api b (w\<lparr>w_broker := b\<rparr>) = (Ok (rt, p), w1)"
    and rest: "(case f rt p of (Err e, p) \<Rightarrow> (Err e, end_session p w1)
      | (Ok line, p) \<Rightarrow> (Ok (), println line (end_session p w1))) = (Ok u, w')"
    by (auto simp: with_ingest_def and_then_eq_Ok split: result.splits)
  obtain r p' where fp: "f rt p = (r, p')" by (cases "f rt p")
  with rest obtain line where f: "f rt p = (Ok line, p')" and w': "w' = println line (end_session p' w1)"
    by (cases r) auto
  from build_ingest_Ok [OF b] assms(2,3) have "fst p = s" "w_env w1 = w_env w" "w_stdout w1 = w_stdout w" by auto
  with f w' show thesis
    by (intro that [of rt "snd p" line p']) (auto simp: println_def end_session_def close_queue_def close_store_def)
qed

lemma inject_new: "existing_event es (inject fresh et payload) s = None"
  by (simp add: existing_event_def inject_def envelope_new_def default_metadata_def)

text \<open>A process that injects an event.\<close>

lemma inject_process:
  assumes "w_env w ''TRIGGERLANE_STORE'' = Some path" and "store_at_rest (api_codecs api) path es D (w_store_fs w)"
    and "e = inject (api_fresh api 0) et payload" and "codec_ok (fst (api_codecs api)) e" "codec_ok (snd (api_codecs api)) (ev_id e)"
    and "main net api ph \<lparr>cli_broker = backend, cli_url = url, cli_command = Command (Inject et payload)\<rparr> w = (0, err, w')"
  shows "w_env w' = w_env w \<and> store_at_rest (api_codecs api) path (es @ [e]) (insert (ev_id e) D) (w_store_fs w')"
proof -
  from assms(2) obtain s v where s: "fe_open (api_codecs api) path (w_store_fs w) = (Ok s, v)" "fe_calm (api_codecs api) s"
    "js_path (fe_inner s) = path" "fe_all s = es" "fe_delivered_set s = D" by (rule store_open)
  from assms(6) obtain u where "with_ingest api backend url (run_inject api et payload) w = (Ok u, w')"
    by (auto simp: main_eq_0 run_cli_def run_def)
  from this assms(1) s(1) obtain rt q line p where r: "run_inject api et payload rt (s, q) = (Ok line, p)"
    and w': "w_env w' = w_env w"
      "w_store_fs w' = drop_handle (js_file (fe_inner (fst p))) (drop_handle (js_file (fe_delivered (fst p))) (fe_fs (fst p)))"
    by (rule with_ingest_Ok)
  from r obtain rep where i: "ingest rt (fe_store (api_codecs api)) e (s, q) = (Ok rep, p)"
    by (auto simp: run_inject_def assms(3) split: prod.splits result.splits)
  have new: "existing_event (fe_store (api_codecs api)) e (fst (s, q)) = None" by (simp add: assms(3) inject_new)
  have calm: "fe_calm (api_codecs api) (fst (s, q))" using s(2) by simp
  note ing = ingest_calm [OF calm assms(4,5) new i]
  from store_close [OF ing(1)] ing(2-4) s w' show ?thesis by simp
qed

text \<open>A process that lists the events.\<close>

lemma print_records_Ok:
  "\<forall>r \<in> set rs. enc r = Ok (f r) \<Longrightarrow> print_records enc rs w = (Ok (), w\<lparr>w_stdout := w_stdout w @ map f rs\<rparr>)"
  by (induction rs arbitrary: w) (auto simp: println_def)

lemma list_process:
  assumes "w_env w ''TRIGGERLANE_STORE'' = Some path" and "store_at_rest (api_codecs api) path es D (w_store_fs w)"
    and "\<forall>e \<in> set es. codec_ok (fst (api_codecs api)) e"
  obtains w' where "main net api ph \<lparr>cli_broker = backend, cli_url = url, cli_command = Command (EventsCmd EventsList)\<rparr> w
      = (0, None, w')" "w_stdout w' = w_stdout w @ map (encoding (fst (api_codecs api))) es"
    "store_at_rest (api_codecs api) path es D (w_store_fs w')"
proof -
  from assms(2) obtain s v where s: "fe_open (api_codecs api) path (w_store_fs w) = (Ok s, v)" "fe_calm (api_codecs api) s"
    "js_path (fe_inner s) = path" "fe_all s = es" "fe_delivered_set s = D" by (rule store_open)
  have "\<forall>e \<in> set es. to_vec (fst (api_codecs api)) e = Ok (encoding (fst (api_codecs api)) e)"
    using assms(3) by (auto elim!: codec_okE)
  from print_records_Ok [OF this, of "close_store s w"] s(1,4) assms(1)
  have "run_events_list api w = (Ok (), close_store s w\<lparr>w_stdout := w_stdout w @ map (encoding (fst (api_codecs api))) es\<rparr>)"
    by (simp add: run_events_list_def open_event_store_def close_store_def)
  then show thesis using store_close [OF s(2)] s
    by (intro that [of "close_store s w\<lparr>w_stdout := w_stdout w @ map (encoding (fst (api_codecs api))) es\<rparr>"])
       (simp_all add: main_eq_0 run_cli_def run_def run_events_def close_store_def)
qed

subsection \<open>Processes in sequence\<close>

text \<open>A history of one machine: processes that inject an event and exit with status 0, crashes in between. A crash
  may leave anything of the dead-trigger queue, and others may use the broker at any time.\<close>

inductive injected ::
  "'a net_api \<Rightarrow> ('b, 'l, 'e, 'd, 'v) cli_api \<Rightarrow> ('b, 'l, 'e) serving_phase \<Rightarrow> 'b world \<Rightarrow> event_envelope list \<Rightarrow> 'b world \<Rightarrow> bool"
  for net api ph w where
  start: "injected net api ph w [] w"
| inject: "injected net api ph w es w1 \<Longrightarrow>
     main net (api\<lparr>api_fresh := fresh\<rparr>) ph \<lparr>cli_broker = backend, cli_url = url, cli_command = Command (Inject et payload)\<rparr> w1
       = (0, err, w2) \<Longrightarrow> injected net api ph w (es @ [inject (fresh 0) et payload]) w2"
| crash: "injected net api ph w es w1 \<Longrightarrow> crash (w_store_fs w1) v \<Longrightarrow> fs_ok v \<Longrightarrow> fs_script v = [] \<Longrightarrow>
     injected net api ph w es (w1\<lparr>w_store_fs := v, w_queue_fs := q\<rparr>)"
| others: "injected net api ph w es w1 \<Longrightarrow> injected net api ph w es (w1\<lparr>w_broker := b\<rparr>)"

definition event_codecs_ok :: "event_codecs \<Rightarrow> event_envelope \<Rightarrow> bool" where
  "event_codecs_ok cs e \<longleftrightarrow> codec_ok (fst cs) e \<and> codec_ok (snd cs) (ev_id e)"

lemma injected_at_rest:
  assumes "injected net api ph w es w'" and "w_env w ''TRIGGERLANE_STORE'' = Some path"
    and "store_at_rest (api_codecs api) path old D (w_store_fs w)" and "\<forall>e \<in> set es. event_codecs_ok (api_codecs api) e"
  shows "w_env w' = w_env w \<and> store_at_rest (api_codecs api) path (old @ es) (D \<union> ev_id ` set es) (w_store_fs w')"
  using assms
proof (induction rule: injected.induct)
  case (inject es w1 fresh backend url et payload err w2)
  let ?e = "Cli.inject (fresh 0) et payload"
  from inject have w1: "w_env w1 ''TRIGGERLANE_STORE'' = Some path" "w_env w1 = w_env w"
    "store_at_rest (api_codecs api) path (old @ es) (D \<union> ev_id ` set es) (w_store_fs w1)"
    and e: "event_codecs_ok (api_codecs api) ?e" by auto
  have "w_env w2 = w_env w1 \<and> store_at_rest (api_codecs (api\<lparr>api_fresh := fresh\<rparr>)) path ((old @ es) @ [?e])
      (insert (ev_id ?e) (D \<union> ev_id ` set es)) (w_store_fs w2)"
    by (rule inject_process [OF w1(1) _ _ _ _ inject.hyps(2)]) (use w1(3) e in \<open>simp_all add: event_codecs_ok_def\<close>)
  with w1(2) show ?case by (simp add: insert_commute)
next
  case (crash es w1 v q)
  with store_crash [OF _ crash.hyps(2-4)] show ?case by simp
qed auto

text \<open>C10: what separate processes injected is listed by a later one. Starting from a store at rest, or from a
  directory without one, on a disk without failures and a path with a directory part, let any number of processes each inject an event and exit with status 0, with crashes of the
  machine in between. Then \<open>events list\<close> exits with status 0 and prints exactly the encodings of the earlier events
  and of the injected ones, in the order of the processes, and the store is again at rest with all of them, the
  injected ones delivered.\<close>

theorem injected_events_listed:
  assumes "injected net api ph w es w'" and "w_env w ''TRIGGERLANE_STORE'' = Some path"
    and "store_at_rest (api_codecs api) path old D (w_store_fs w)" and "\<forall>e \<in> set (old @ es). event_codecs_ok (api_codecs api) e"
  shows "\<exists>w''. main net api ph \<lparr>cli_broker = backend, cli_url = url, cli_command = Command (EventsCmd EventsList)\<rparr> w' = (0, None, w'')
     \<and> w_stdout w'' = w_stdout w' @ map (encoding (fst (api_codecs api))) (old @ es)
     \<and> store_at_rest (api_codecs api) path (old @ es) (D \<union> ev_id ` set es) (w_store_fs w'')"
proof -
  from injected_at_rest [OF assms(1-3)] assms(2,4) have w': "w_env w' ''TRIGGERLANE_STORE'' = Some path"
    "store_at_rest (api_codecs api) path (old @ es) (D \<union> ev_id ` set es) (w_store_fs w')" by auto
  have "\<forall>e \<in> set (old @ es). codec_ok (fst (api_codecs api)) e" using assms(4) by (auto simp: event_codecs_ok_def)
  from w' this show ?thesis by (rule list_process [where net = net and ph = ph and backend = backend and url = url]) blast
qed

text \<open>One process that injects an event into an empty directory, and the listing after it.\<close>

definition demo_injection :: event_envelope where
  "demo_injection = inject (EventId 0, 0) ''t'' ''x''"

definition codec_api :: "(nat \<times> (string \<times> string) list, string, string, unit, unit) cli_api" where
  "codec_api = (demo_api [])\<lparr>api_codecs := pin_codecs demo_injection\<rparr>"

definition empty_machine :: "(nat \<times> (string \<times> string) list) world" where
  "empty_machine = demo_world\<lparr>w_env := [''TRIGGERLANE_STORE'' \<mapsto> ''d/s.jsonl'']\<rparr>"

lemma empty_directory_at_rest: "store_at_rest cs ''d/s.jsonl'' [] {} empty_fs"
  by (auto simp: store_at_rest_def calm_def file_at_rest_def empty_fs_def fs_ok_def path_parent_def delivered_path_def
      with_extension_def file_name_def file_stem_def intro!: exI [of _ "[]"])

lemma demo_inject_process:
  "\<exists>w. main demo_net (codec_api\<lparr>api_fresh := api_fresh codec_api\<rparr>) ph
     \<lparr>cli_broker = ''sqlite'', cli_url = None, cli_command = Command (Inject ''t'' ''x'')\<rparr> empty_machine = (0, None, w)"
proof -
  let ?api = "codec_api"
  from empty_directory_at_rest obtain s v where s: "fe_open (api_codecs ?api) ''d/s.jsonl'' empty_fs = (Ok s, v)"
    "fe_calm (api_codecs ?api) s" by (rule store_open)
  from jsonl_open_fresh [of empty_fs "''triggerlane-dead-triggers.jsonl''" blank_codec] obtain q f where
    q: "fq_open blank_codec ''triggerlane-dead-triggers.jsonl'' empty_fs = (Ok q, f)"
    by (auto simp: empty_fs_def fq_open_def)
  have broker: "broker_from_cli ?api ''sqlite'' None empty_machine = Ok (0, [])"
    by (simp add: broker_from_cli_def parse_backend_def connect_broker_def connect_plan_def codec_api_def demo_api_def
        empty_machine_def demo_world_def)
  have options: "\<exists>opts. runtime_options_from_env (w_env empty_machine) = Ok opts"
    by (simp add: empty_machine_def settings_eval runtime_options_from_env_def parse_runtime_options_def)
  have reg: "load_registry j rd rts (w_env empty_machine) = Ok default_registry" for j :: "unit json_api" and rd rts
    by (simp add: load_registry_def empty_machine_def)
  obtain rt t w where bi: "build_ingest ?api (0, []) (empty_machine\<lparr>w_broker := (0, [])\<rparr>) = (Ok (rt, (s, t)), w)"
    and rt: "rt_registry rt = default_registry"
    using s(1) q options reg
    by (auto simp: build_ingest_def open_event_store_def open_dead_trigger_queue_def empty_machine_def demo_world_def
        codec_api_def demo_api_def Let_def)
  have e: "inject (api_fresh ?api 0) ''t'' ''x'' = demo_injection"
    by (simp add: codec_api_def demo_api_def demo_injection_def)
  have "matching (rt_registry rt) demo_injection = []"
    by (simp add: rt default_registry_def register_def matching_def demo_injection_def inject_def envelope_new_def
        registered_trigger_new_def EVENT_GITHUB_ISSUE_CREATED_def)
  then obtain rep t' where h: "handle rt demo_injection t = (Ok rep, t')" by (simp add: handle_def Let_def)
  have "fs_script (fe_fs s) = []" using s(2) by (simp add: fe_calm_def calm_def)
  with ingest_succeeds [OF _ _ _ inject_new, of "api_codecs ?api" "(EventId 0, 0)" "''t''" "''x''" "(s, t)" rt rep t'] h
  obtain rep' p' where i: "ingest rt (fe_store (api_codecs ?api)) demo_injection (s, t) = (Ok rep', p')"
    using pin_codecs_ok [of demo_injection] by (auto simp: codec_api_def demo_injection_def)
  have "run_inject ?api ''t'' ''x'' rt (s, t) = (Ok (''ingested '' @ ir_event_id rep' @ '' submitted ''
      @ show_nat (length (hr_submitted (ir_handle rep')))), p')"
    using i by (simp add: run_inject_def e)
  with broker bi show ?thesis by (simp add: main_eq_0 run_cli_def run_def with_ingest_def)
qed

theorem injected_events_listed_witness:
  "\<exists>(w :: (nat \<times> (string \<times> string) list) world) w'.
     injected demo_net codec_api (\<lambda>_ p. (Ok (), p)) empty_machine [demo_injection] w
     \<and> main demo_net codec_api (\<lambda>_ p. (Ok (), p)) \<lparr>cli_broker = ''sqlite'', cli_url = None, cli_command = Command (EventsCmd EventsList)\<rparr> w
        = (0, None, w') \<and> w_stdout w' = w_stdout w @ [''{}'']"
proof -
  let ?ph = "\<lambda>_ p. (Ok (), p)"
  obtain w where run: "main demo_net (codec_api\<lparr>api_fresh := api_fresh codec_api\<rparr>) ?ph
     \<lparr>cli_broker = ''sqlite'', cli_url = None, cli_command = Command (Inject ''t'' ''x'')\<rparr> empty_machine = (0, None, w)"
    using demo_inject_process by blast
  have "api_fresh codec_api 0 = (EventId 0, 0)" by (simp add: codec_api_def demo_api_def)
  with injected.inject [OF injected.start run] have h: "injected demo_net codec_api ?ph empty_machine [demo_injection] w"
    by (simp add: demo_injection_def)
  have "w_env empty_machine ''TRIGGERLANE_STORE'' = Some ''d/s.jsonl''" "w_store_fs empty_machine = empty_fs"
    by (simp_all add: empty_machine_def demo_world_def)
  moreover have "event_codecs_ok (api_codecs codec_api) demo_injection" "encoding (fst (api_codecs codec_api)) demo_injection = ''{}''"
    using pin_codecs_ok by (simp_all add: event_codecs_ok_def codec_api_def) (simp add: encoding_def pin_codecs_def)
  ultimately show ?thesis
    using injected_events_listed [OF h, of "''d/s.jsonl''" "[]" "{}" "''sqlite''" None] empty_directory_at_rest h by auto
qed

end
