(* ===== verification/Example.thy ===== *)
theory Example
  imports Ingest
begin

text \<open>
  The program of \<open>examples/src/main.rs\<close>, which puts the in-memory parts together: a registry with one trigger, a
  runtime with its default queue, options and trace sink, the in-memory store and an in-memory Worklane broker.
  \<open>Broker::reserve\<close> is a parameter, of which the program uses the kind of the reserved job. The constructors of
  \<open>TriggerRuntime\<close> in \<open>crates/triggerlane-runtime/src/lib.rs\<close> are here as well; each gives the runtime with its
  initial state.
\<close>

subsection \<open>The constructors of the runtime\<close>

type_synonym ('b, 'l, 'e) in_memory_runtime = "('b, 'l, 'e, in_memory_queue) trigger_runtime \<times> ('b, in_memory_queue) rt_state"

definition with_options_and_trace_sink ::
  "uuid_api \<Rightarrow> dead_trigger_record encoder \<Rightarrow> trigger_registry \<Rightarrow> ('b, 'l, 'e) broker_api \<Rightarrow> 'b \<Rightarrow> runtime_options
     \<Rightarrow> trace_sink \<Rightarrow> ('b, 'l, 'e) in_memory_runtime" where
  "with_options_and_trace_sink u enc registry broker b options sink =
     (\<lparr>rt_uuid = u, rt_registry = registry, rt_broker = broker, rt_dead_triggers = im_queue enc,
       rt_options = options, rt_trace_sink = sink\<rparr>, rt_new b [])"

definition with_trace_sink ::
  "uuid_api \<Rightarrow> dead_trigger_record encoder \<Rightarrow> trigger_registry \<Rightarrow> ('b, 'l, 'e) broker_api \<Rightarrow> 'b
     \<Rightarrow> trace_sink \<Rightarrow> ('b, 'l, 'e) in_memory_runtime" where
  "with_trace_sink u enc registry broker b sink =
     with_options_and_trace_sink u enc registry broker b default_options sink"

definition with_options ::
  "uuid_api \<Rightarrow> dead_trigger_record encoder \<Rightarrow> trigger_registry \<Rightarrow> ('b, 'l, 'e) broker_api \<Rightarrow> 'b \<Rightarrow> runtime_options
     \<Rightarrow> ('b, 'l, 'e) in_memory_runtime" where
  "with_options u enc registry broker b options =
     with_options_and_trace_sink u enc registry broker b options NoopTraceSink"

definition runtime_new ::
  "uuid_api \<Rightarrow> dead_trigger_record encoder \<Rightarrow> trigger_registry \<Rightarrow> ('b, 'l, 'e) broker_api \<Rightarrow> 'b
     \<Rightarrow> ('b, 'l, 'e) in_memory_runtime" where
  "runtime_new u enc registry broker b = with_options u enc registry broker b default_options"

subsection \<open>The program\<close>

definition example_registry :: trigger_registry where
  "example_registry = register []
     (registered_trigger_new ''github-issue-projection'' 10
        (\<lambda>e. ev_type e = EventType EVENT_GITHUB_ISSUE_CREATED)
        (bind_job (worklane_job_binding_new ''projection'' ''CreateProjectionJob'' 3)))"

definition example_event :: "event_id \<times> timestamp \<Rightarrow> event_envelope" where
  "example_event fresh = envelope_new (fst fresh) (snd fresh) GitHub EVENT_GITHUB_ISSUE_CREATED ''{\"issue\":1}''"

text \<open>The lines printed, and the error the program ends with, as its text.\<close>

definition example_main ::
  "uuid_api \<Rightarrow> event_envelope encoder \<Rightarrow> dead_trigger_record encoder \<Rightarrow> ('b, 'l, 'e) broker_api
     \<Rightarrow> ('l \<Rightarrow> 'b \<Rightarrow> (string option, 'e) result \<times> 'b) \<Rightarrow> event_id \<times> timestamp \<Rightarrow> 'b
     \<Rightarrow> (unit, string) result \<times> string list" where
  "example_main u enc qenc broker reserve fresh b =
     (case runtime_new u qenc example_registry broker b of
        (rt, s) \<Rightarrow>
          (case ingest rt (im_store enc) (example_event fresh) (im_new, s) of
             (Err e, _) \<Rightarrow> (Err (case e of Binding e \<Rightarrow> binding_error_to_string e
                                      | Storage e \<Rightarrow> ''durable storage error: '' @ io_msg e), [])
           | (Ok report, (store, s)) \<Rightarrow>
               let out = [''ingested '' @ ir_event_id report @ '' ('' @ show_nat (length (es_all (im_store enc) store))
                    @ '' stored, '' @ show_nat (length (hr_submitted (ir_handle report))) @ '' submitted)'']
               in (case lane_try_from broker ''projection'' of
                     Err e \<Rightarrow> (Err e, out)
                   | Ok lane \<Rightarrow>
                       (case fst (reserve lane (st_broker s)) of
                          Err e \<Rightarrow> (Err (broker_error_to_string broker e), out)
                        | Ok None \<Rightarrow> (Ok (), out)
                        | Ok (Some kind) \<Rightarrow> (Ok (), out @ [''submitted '' @ kind])))))"

text \<open>The example does what it announces: with a broker that takes the job and hands it out again, it prints that one
  event was stored and one job submitted, and the kind of that job; with a broker that refuses the job, it
  prints that nothing was submitted, and still succeeds.\<close>

theorem example_main_output:
  assumes "lane_try_from broker ''projection'' = Ok lane"
    and "job = \<lparr>nj_lane = lane, nj_kind = ''CreateProjectionJob'', nj_payload = ''{\"issue\":1}'', nj_max_attempts = 3,
       nj_unique_key = Some (event_id_to_string u (fst fresh) @ '':github-issue-projection'')\<rparr>"
    and "enqueue broker job b = (r, b')"
    and "fst (reserve lane b') = Ok (case r of Ok _ \<Rightarrow> Some (nj_kind job) | Err _ \<Rightarrow> None)"
  shows "example_main u enc qenc broker reserve fresh b = (Ok (), case r of
      Ok _ \<Rightarrow> [''ingested '' @ event_id_to_string u (fst fresh) @ '' (1 stored, 1 submitted)'', ''submitted CreateProjectionJob'']
    | Err _ \<Rightarrow> [''ingested '' @ event_id_to_string u (fst fresh) @ '' (1 stored, 0 submitted)''])"
proof -
  have nat: "show_nat 1 = ''1''" "show_nat (Suc 0) = ''1''" "show_nat 0 = ''0''" by code_simp+
  show ?thesis
    using assms nat
    by (cases r)
       (simp_all add: example_main_def runtime_new_def with_options_def with_options_and_trace_sink_def default_options_def
        example_registry_def example_event_def register_def registered_trigger_new_def matching_def envelope_new_def
        default_metadata_def ingest_def existing_event_def on_store_def on_runtime_def im_store_def im_append_def im_new_def
        im_mark_delivered_def handle_def handle_one_def bind_job_def worklane_job_binding_new_def worklane_job_new_def
        enqueue_with_retries_def submit_attempts.simps new_job_of_def unique_key_def event_identity_def rt_new_def emit_def
        record_dead_trigger_def im_queue_def imq_record_def record_dead_trigger_depth_def sink_record_def Let_def)
qed

theorem example_main_output_witness:
  "example_main unary_uuid (\<lambda>_. Ok []) (\<lambda>_. Ok []) list_broker
     (\<lambda>_ b. (Ok (if snd b = [] then None else Some ''CreateProjectionJob''), b)) (EventId 1, 0) (0, [])
   = (Ok (), [''ingested x (1 stored, 1 submitted)'', ''submitted CreateProjectionJob''])
   \<and> example_main unary_uuid (\<lambda>_. Ok []) (\<lambda>_. Ok []) list_broker
     (\<lambda>_ b. (Ok (if snd b = [] then None else Some ''CreateProjectionJob''), b)) (EventId 1, 0) (1, [])
   = (Ok (), [''ingested x (1 stored, 0 submitted)''])"
proof -
  have x: "event_id_to_string unary_uuid (EventId 1) = ''x''"
    by (simp add: event_id_to_string_def unary_uuid_def)
  show ?thesis
    by (rule conjI; subst example_main_output [where lane = "''projection''", OF _ refl prod.collapse [symmetric]];
        simp add: x list_broker_def)
qed

end
