(* ===== verification/Unit_Tests.thy ===== *)
theory Unit_Tests
  imports Example Cli_Config
begin

text \<open>
  Unit tests of the repository, run on the model. Each lemma has the name of a test function of
  \<open>crates/triggerlane-storage/src/lib.rs\<close>, \<open>crates/triggerlane-runtime/src/lib.rs\<close> or
  \<open>crates/triggerlane-cli/src/main.rs\<close>, builds the inputs the test builds and states what the test asserts; the
  proofs evaluate the definitions. A test that says only that a result is an error gives the error here. Where a test
  makes fresh ids, different numbers stand for them. The Worklane broker of the tests is \<open>list_broker\<close>, with the lane
  rule the tests rely on: a blank lane is refused.
\<close>

subsection \<open>Storage\<close>

definition day :: chrono_duration where
  "day = 24 * 60 * 60 * 1000000000"

text \<open>The events of the tests, by id and time; the times are \<open>2020-01-01\<close>, \<open>2026-06-01\<close>, the evening of
  \<open>2026-06-19\<close> and \<open>2026-06-20\<close>, counted from the first.\<close>

abbreviation year_2020 :: timestamp where "year_2020 \<equiv> 0"
abbreviation june_1 :: timestamp where "june_1 \<equiv> 2343 * day"
abbreviation june_2 :: timestamp where "june_2 \<equiv> 2344 * day"
abbreviation june_3 :: timestamp where "june_3 \<equiv> 2345 * day"
abbreviation june_19_evening :: timestamp where "june_19_evening \<equiv> 2361 * day + 18 * 60 * 60 * 1000000000"
abbreviation june_20 :: timestamp where "june_20 \<equiv> 2362 * day"

definition event_at :: "128 word \<Rightarrow> timestamp \<Rightarrow> event_envelope" where
  "event_at i t = (envelope_new (EventId i) 0 GitHub EVENT_GITHUB_ISSUE_CREATED ''{}'')\<lparr>ev_timestamp := t\<rparr>"

definition dead_record_at :: "string \<Rightarrow> timestamp \<Rightarrow> dead_trigger_record" where
  "dead_record_at name d = \<lparr>dt_event = event_at 0 d, dt_trigger_name = name, dt_error = ''submission failed''\<rparr>"

definition holding :: "event_envelope list \<Rightarrow> event_id set \<Rightarrow> in_memory_event_store" where
  "holding es D = \<lparr>im_events = es, im_delivered = D\<rparr>"

lemmas storage_test_simps = event_at_def dead_record_at_def day_def holding_def envelope_new_def unbounded_def
  im_append_def im_get_def im_new_def im_prune_def im_enforce_retention_def im_mark_delivered_def im_store_def
  imq_record_def imq_drain_def imq_enforce_retention_def keep_def is_unbounded_def retain_events_def
  retain_dead_triggers_def apply_size_bounds_def Let_def

lemma in_memory_store_preserves_event_for_replay:
  "im_get (EventId 1) (snd (im_append (event_at 1 year_2020) im_new)) = Some (event_at 1 year_2020)"
  "length (im_events (snd (im_append (event_at 1 year_2020) im_new))) = 1"
  by (simp_all add: storage_test_simps)

lemma in_memory_drain_returns_all_and_empties:
  "imq_drain [dead_record_at ''a'' year_2020, dead_record_at ''b'' year_2020] = (Ok [dead_record_at ''a'' year_2020, dead_record_at ''b'' year_2020], [])"
  by (simp add: storage_test_simps)

lemma in_memory_event_store_prunes_by_age_and_count:
  "im_prune (OlderThan june_1) (holding [event_at 1 year_2020, event_at 2 june_1, event_at 3 june_20] {})
     = (Ok 1, holding [event_at 2 june_1, event_at 3 june_20] {})"
  "im_prune (KeepMostRecent 1) (holding [event_at 2 june_1, event_at 3 june_20] {}) = (Ok 1, holding [event_at 3 june_20] {})"
  by (simp_all add: storage_test_simps)

lemma auto_retention_removes_delivered_aged_events_keeps_undelivered:
  "im_enforce_retention enc (unbounded\<lparr>delivered_grace := Some (7 * day)\<rparr>) june_20
     (holding [event_at 1 june_1, event_at 2 june_1, event_at 3 june_19_evening] {EventId 1})
   = (Ok 1, holding [event_at 2 june_1, event_at 3 june_19_evening] {})"
  by (simp add: storage_test_simps)

lemma auto_retention_hard_max_age_removes_undelivered:
  "im_enforce_retention enc (unbounded\<lparr>max_age := Some (7 * day)\<rparr>) june_20 (holding [event_at 1 june_1, event_at 2 june_19_evening] {})
   = (Ok 1, holding [event_at 2 june_19_evening] {})"
  by (simp add: storage_test_simps)

lemma auto_retention_unbounded_removes_nothing:
  "im_enforce_retention enc unbounded june_20 (holding [event_at 1 year_2020] {EventId 1}) = (Ok 0, holding [event_at 1 year_2020] {EventId 1})"
  by (simp add: storage_test_simps)

lemma auto_retention_max_count_keeps_most_recent:
  "im_enforce_retention enc (unbounded\<lparr>max_count := Some 2\<rparr>) june_20
     (holding [event_at 1 june_1, event_at 2 june_2, event_at 3 june_3] {})
   = (Ok 1, holding [event_at 2 june_2, event_at 3 june_3] {})"
  by (simp add: storage_test_simps)

lemma in_memory_store_reports_len_and_zero_size:
  "es_len (im_store enc) (holding [event_at 1 june_20] {}) = 1" "es_size_bytes (im_store enc) (holding [event_at 1 june_20] {}) = 0"
  by (simp_all add: storage_test_simps)

lemma in_memory_dead_trigger_queue_retention_bounds_by_count:
  "imq_enforce_retention enc (unbounded\<lparr>max_count := Some 2\<rparr>) june_20
     [dead_record_at ''a'' year_2020, dead_record_at ''b'' year_2020, dead_record_at ''c'' year_2020]
   = (Ok 1, [dead_record_at ''b'' year_2020, dead_record_at ''c'' year_2020])"
  by (simp add: storage_test_simps)

lemma dead_trigger_queue_retention_ignores_delivered_grace:
  "imq_enforce_retention enc (unbounded\<lparr>delivered_grace := Some day\<rparr>) june_20 [dead_record_at ''old'' year_2020]
   = (Ok 0, [dead_record_at ''old'' year_2020])"
  by (simp add: storage_test_simps)

subsection \<open>Runtime\<close>

type_synonym test_broker = "nat \<times> (string \<times> string) list"

definition worklane :: "(test_broker, string, string) broker_api" where
  "worklane = list_broker\<lparr>lane_try_from := (\<lambda>l. if list_all (\<lambda>c. c = CHR '' '') l then Err ''blank lane'' else Ok l)\<rparr>"

definition issue_trigger :: "string \<Rightarrow> int \<Rightarrow> string \<Rightarrow> registered_trigger" where
  "issue_trigger name priority lane =
     registered_trigger_new name priority (\<lambda>e. ev_type e = EventType EVENT_GITHUB_ISSUE_CREATED)
       (bind_job (worklane_job_binding_new lane ''CreateProjectionJob'' 3))"

definition failing_trigger :: registered_trigger where
  "failing_trigger =
     registered_trigger_new ''failing'' 10 (\<lambda>e. ev_type e = EventType EVENT_GITHUB_ISSUE_CREATED)
       (\<lambda>_. Err (Rejected ''bad event''))"

definition issue_event :: "128 word \<Rightarrow> string option \<Rightarrow> event_envelope" where
  "issue_event i key = with_metadata (envelope_new (EventId i) 0 GitHub EVENT_GITHUB_ISSUE_CREATED ''{\"issue\":1}'')
     (default_metadata\<lparr>idempotency_key := key\<rparr>)"

text \<open>The runtime of a test, with its triggers and options.\<close>

definition runtime_of ::
  "'q dead_trigger_ops \<Rightarrow> runtime_options \<Rightarrow> trace_sink \<Rightarrow> registered_trigger list
     \<Rightarrow> (test_broker, string, string, 'q) trigger_runtime" where
  "runtime_of qops options sink rs =
     \<lparr>rt_uuid = unary_uuid, rt_registry = foldl register [] rs, rt_broker = worklane, rt_dead_triggers = qops,
      rt_options = options, rt_trace_sink = sink\<rparr>"

abbreviation memory_queue :: "in_memory_queue dead_trigger_ops" where
  "memory_queue \<equiv> im_queue (\<lambda>_. Ok [])"

abbreviation fresh_state :: "nat \<Rightarrow> (test_broker, in_memory_queue) rt_state" where
  "fresh_state failures \<equiv> rt_new (failures, []) []"

lemmas runtime_test_simps = worklane_def list_broker_def issue_trigger_def failing_trigger_def issue_event_def runtime_of_def
  registered_trigger_new_def register_def matching_def disabled_def envelope_new_def with_metadata_def default_metadata_def
  bind_job_def worklane_job_binding_new_def worklane_job_new_def default_options_def
  handle_def handle_one_def enqueue_with_retries_def submit_attempts.simps new_job_of_def unique_key_def
  event_identity_def event_id_to_string_def unary_uuid_def rt_new_def emit_def record_dead_trigger_def
  record_dead_trigger_depth_def sink_record_def from_event_report_def binding_error_to_string_def im_queue_def imq_record_def
  imq_drain_def Let_def

lemma registry_orders_by_priority:
  "map rg_name (matching (foldl register [] [issue_trigger ''low'' 1 ''lane'', issue_trigger ''high'' 9 ''lane'']) (issue_event 1 None))
   = [''high'', ''low'']"
  by (simp add: runtime_test_simps)

lemma submission_backoff_doubles_and_caps:
  "submission_backoff_delay 0 (from_millis 100) = 0"
  "submission_backoff_delay 1 (from_millis 100) = from_millis 100"
  "submission_backoff_delay 2 (from_millis 100) = from_millis 200"
  "submission_backoff_delay 3 (from_millis 100) = from_millis 400"
  "submission_backoff_delay 5 0 = 0"
  "submission_backoff_delay 1000 (from_millis 100) = MAX_SUBMISSION_BACKOFF"
  by (simp_all add: submission_backoff_delay_def checked_shl_def duration_saturating_mul_def from_millis_def from_secs_def
      MAX_SUBMISSION_BACKOFF_def max_duration_def unsigned_minus_1_eq_mask mask_eq_exp_minus_1)

lemma matching_trigger_submits_worklane_job:
  "case handle (runtime_of memory_queue default_options NoopTraceSink [issue_trigger ''github-issue'' 10 ''projection''])
     (issue_event 1 None) (fresh_state 0) of
     (Ok report, s) \<Rightarrow> length (hr_submitted report) = 1 \<and> length (snd (st_broker s)) = 1 | _ \<Rightarrow> False"
  by (simp add: runtime_test_simps)

lemma dead_triggers_are_recorded_into_the_injected_queue:
  "case handle (runtime_of memory_queue default_options NoopTraceSink [issue_trigger ''bad-lane'' 10 ''  ''])
     (issue_event 1 None) (fresh_state 0) of
     (Ok report, s) \<Rightarrow> hr_submitted report = [] \<and> length (hr_failed report) = 1 \<and> length (st_queue s) = 1 | _ \<Rightarrow> False"
  by (simp add: runtime_test_simps)

text \<open>A queue that gives only the required methods, and fails to record.\<close>

definition failing_queue :: "unit dead_trigger_ops" where
  "failing_queue = provided_dead_trigger_ops (\<lambda>_ q. (Err (IoError Other ''dead-trigger write failed''), q)) (\<lambda>_. [])
     (\<lambda>q. (Ok [], q)) (\<lambda>_ q. (Ok 0, q)) (\<lambda>_. 0)"

lemma dead_trigger_record_failure_surfaces_as_error:
  "fst (handle (runtime_of failing_queue default_options NoopTraceSink [issue_trigger ''bad-lane'' 10 ''  ''])
     (issue_event 1 None) (rt_new (0, []) ())) = Err (Storage (IoError Other ''dead-trigger write failed''))"
  by (simp add: runtime_test_simps failing_queue_def provided_dead_trigger_ops_def)

text \<open>And a store that fails to append.\<close>

definition failing_store :: "unit event_store_ops" where
  "failing_store = provided_event_store_ops (\<lambda>_ s. (Err (IoError Other ''event store write failed''), s)) (\<lambda>_ _. None)
     (\<lambda>_. []) (\<lambda>_ s. (Ok 0, s))"

lemma event_store_append_failure_surfaces_through_ingest:
  "fst (ingest (runtime_of memory_queue default_options NoopTraceSink []) failing_store (issue_event 1 None) ((), fresh_state 0))
   = Err (Storage (IoError Other ''event store write failed''))"
  by (simp add: ingest_def existing_event_def on_store_def failing_store_def provided_event_store_ops_def runtime_test_simps)

lemmas retry_test_simps = runtime_test_simps retry_dead_triggers_def

lemma retry_recovers_when_failure_is_resolved:
  "case retry_dead_triggers (runtime_of memory_queue default_options NoopTraceSink [issue_trigger ''github-issue'' 10 ''projection''])
     (rt_new (0, []) [\<lparr>dt_event = issue_event 1 None, dt_trigger_name = ''github-issue'', dt_error = ''broker was down''\<rparr>]) of
     (Ok report, s) \<Rightarrow> rr_drained report = 1 \<and> rr_recovered report = 1 \<and> rr_still_failed report = 0
        \<and> length (rr_submitted report) = 1 \<and> st_queue s = [] \<and> length (snd (st_broker s)) = 1
   | _ \<Rightarrow> False"
  by (simp add: retry_test_simps)

lemma retry_re_records_persistent_failure:
  "case and_then (handle rt (issue_event 1 None) (fresh_state 0)) (\<lambda>_ s. retry_dead_triggers rt s) of
     (Ok report, s) \<Rightarrow> rr_drained report = 1 \<and> rr_recovered report = 0 \<and> rr_still_failed report = 1 \<and> length (st_queue s) = 1
   | _ \<Rightarrow> False"
  if "rt = runtime_of memory_queue default_options NoopTraceSink [issue_trigger ''bad-lane'' 10 ''  '']"
  by (simp add: that retry_test_simps)

lemma retry_does_not_double_submit_a_succeeded_trigger:
  "case and_then (handle rt (issue_event 1 None) (fresh_state 0)) (\<lambda>_ s. retry_dead_triggers rt s) of
     (Ok report, s) \<Rightarrow> rr_drained report = 1 \<and> rr_still_failed report = 1 \<and> rr_recovered report = 0
        \<and> length (snd (st_broker s)) = 1
   | _ \<Rightarrow> False"
  if "rt = runtime_of memory_queue default_options NoopTraceSink
     [issue_trigger ''ok'' 20 ''projection'', issue_trigger ''bad-lane'' 10 ''  '']"
  by (simp add: that retry_test_simps)

lemma duplicate_submission_dedups_via_unique_key:
  "case and_then (handle rt (issue_event 1 (Some ''issue-1'')) (fresh_state 0)) (\<lambda>_ s. handle rt (issue_event 1 (Some ''issue-1'')) s) of
     (Ok _, s) \<Rightarrow> length (snd (st_broker s)) = 1 | _ \<Rightarrow> False"
  if "rt = runtime_of memory_queue default_options NoopTraceSink [issue_trigger ''github-issue'' 10 ''projection'']"
  by (simp add: that runtime_test_simps)

lemma no_match_handling_records_empty_trace:
  "case handle (runtime_of memory_queue default_options InMemoryTraceSink []) (issue_event 1 None) (fresh_state 0) of
     (Ok report, s) \<Rightarrow> hr_submitted report = [] \<and> (case st_traces s of
        [t] \<Rightarrow> tr_matched_triggers t = [] \<and> tr_submitted t = [] \<and> tr_failure_count t = 0 | _ \<Rightarrow> False)
   | _ \<Rightarrow> False"
  by (simp add: runtime_test_simps)

lemma disabled_trigger_does_not_submit:
  "case handle (runtime_of memory_queue default_options NoopTraceSink [disabled (issue_trigger ''disabled'' 10 ''projection'')])
     (issue_event 1 None) (fresh_state 0) of
     (Ok report, s) \<Rightarrow> hr_submitted report = [] \<and> snd (st_broker s) = [] | _ \<Rightarrow> False"
  by (simp add: runtime_test_simps)

lemma failed_trigger_records_failure_count_in_trace:
  "case handle (runtime_of memory_queue default_options InMemoryTraceSink [failing_trigger]) (issue_event 1 None) (fresh_state 0) of
     (Ok report, s) \<Rightarrow> length (hr_failed report) = 1 \<and> map dt_trigger_name (st_queue s) = [''failing'']
        \<and> (case st_traces s of [t] \<Rightarrow> tr_matched_triggers t = [''failing''] \<and> tr_failure_count t = 1 | _ \<Rightarrow> False)
   | _ \<Rightarrow> False"
  by (simp add: runtime_test_simps)

lemma retryable_submission_failure_can_succeed:
  "case handle (runtime_of memory_queue \<lparr>max_submission_attempts = 2, submission_backoff = 0\<rparr> NoopTraceSink
       [issue_trigger ''flaky'' 10 ''projection'']) (issue_event 1 None) (fresh_state 1) of
     (Ok report, s) \<Rightarrow> length (hr_submitted report) = 1 \<and> hr_failed report = [] \<and> fst (st_broker s) = 0 | _ \<Rightarrow> False"
  by (simp add: runtime_test_simps)

lemma exhausted_submission_retry_records_dead_trigger:
  "case handle (runtime_of memory_queue \<lparr>max_submission_attempts = 2, submission_backoff = 0\<rparr> NoopTraceSink
       [issue_trigger ''always-failing'' 10 ''projection'']) (issue_event 1 None) (fresh_state 3) of
     (Ok report, s) \<Rightarrow> hr_submitted report = [] \<and> length (hr_failed report) = 1 \<and> length (st_queue s) = 1
        \<and> fst (st_broker s) = 1
   | _ \<Rightarrow> False"
  by (simp add: runtime_test_simps)

subsection \<open>Pipeline\<close>

abbreviation issue_runtime :: "(test_broker, string, string, in_memory_queue) trigger_runtime" where
  "issue_runtime \<equiv> runtime_of memory_queue default_options NoopTraceSink [issue_trigger ''github-issue'' 10 ''projection'']"

abbreviation memory_store :: "in_memory_event_store event_store_ops" where
  "memory_store \<equiv> im_store (\<lambda>_. Ok [])"

lemmas pipeline_test_simps = runtime_test_simps ingest_def accept_def dispatch_def recover_undelivered_def existing_event_def
  find_by_idempotency_key_def on_store_def on_runtime_def im_store_def im_append_def im_get_def im_new_def
  im_mark_delivered_def im_undelivered_def im_prune_def keep_def

lemma duplicate_idempotency_key_is_deduplicated_on_ingest:
  "case and_then (ingest issue_runtime memory_store (issue_event 1 (Some ''dup-1'')) (im_new, fresh_state 0)) (\<lambda>first p.
     and_then (ingest issue_runtime memory_store (issue_event 2 (Some ''dup-1'')) p) (\<lambda>second p. (Ok (first, second), p))) of
     (Ok (first, second), (m, s)) \<Rightarrow> \<not> ir_deduplicated first \<and> ir_deduplicated second
        \<and> length (im_events m) = 1 \<and> length (snd (st_broker s)) = 1
   | _ \<Rightarrow> False"
  by (simp add: pipeline_test_simps)

lemma accept_stores_without_handling_then_dispatch_handles:
  "case accept unary_uuid memory_store (issue_event 1 None) (im_new, fresh_state 0) of
     (Ok report, (m, s)) \<Rightarrow> \<not> ar_deduplicated report \<and> im_get (EventId 1) m \<noteq> None \<and> snd (st_broker s) = []
        \<and> length (im_undelivered m) = 1
        \<and> (case dispatch issue_runtime memory_store (issue_event 1 None) (m, s) of
              (Ok _, (m, s)) \<Rightarrow> length (snd (st_broker s)) = 1 \<and> im_undelivered m = [] | _ \<Rightarrow> False)
   | _ \<Rightarrow> False"
  by (simp add: pipeline_test_simps)

lemma accept_deduplicates_on_idempotency_key:
  "case and_then (accept unary_uuid memory_store (issue_event 1 (Some ''dup'')) (im_new, fresh_state 0)) (\<lambda>first p.
     and_then (accept unary_uuid memory_store (issue_event 2 (Some ''dup'')) p) (\<lambda>second p. (Ok (first, second), p))) of
     (Ok (first, second), (m, s)) \<Rightarrow> \<not> ar_deduplicated first \<and> ar_deduplicated second \<and> length (im_events m) = 1
   | _ \<Rightarrow> False"
  by (simp add: pipeline_test_simps)

lemma ingest_marks_event_delivered_once_work_is_taken:
  "case ingest issue_runtime memory_store (issue_event 1 None) (im_new, fresh_state 0) of
     (Ok report, (m, s)) \<Rightarrow> length (hr_submitted (ir_handle report)) = 1 \<and> length (snd (st_broker s)) = 1 \<and> im_undelivered m = []
   | _ \<Rightarrow> False"
  by (simp add: pipeline_test_simps)

lemma recover_undelivered_replays_only_in_flight_events:
  "case recover_undelivered issue_runtime memory_store (holding [issue_event 1 None, issue_event 2 None] {EventId 1}, fresh_state 0) of
     (Ok recovered, (m, s)) \<Rightarrow> recovered = 1 \<and> length (snd (st_broker s)) = 1 \<and> im_undelivered m = [] | _ \<Rightarrow> False"
  by (simp add: pipeline_test_simps holding_def)

lemma dedup_is_bounded_by_retention:
  "case and_then (ingest issue_runtime memory_store (issue_event 1 (Some ''key-1'')) (im_new, fresh_state 0)) (\<lambda>first p.
     and_then (ingest issue_runtime memory_store (issue_event 2 (Some ''key-1'')) (snd (im_prune (KeepMostRecent 0) (fst p)), snd p))
       (\<lambda>second p. (Ok (first, second), p))) of
     (Ok (first, second), (m, s)) \<Rightarrow> \<not> ir_deduplicated first \<and> \<not> ir_deduplicated second \<and> length (im_events m) = 1
   | _ \<Rightarrow> False"
  by (simp add: pipeline_test_simps)

subsection \<open>Settings\<close>

definition seconds :: "int \<Rightarrow> chrono_duration option" where
  "seconds n = Some (n * 1000000000)"

lemmas settings_test_simps = parse_request_timeout_def parse_runtime_options_def parse_auto_retention_def
  parse_bound_duration_def parse_bound_number_def no_bound_def parse_duration_def parse_unsigned_def parse_i64_def
  checked_mul_i64_def digit_val_def byte_in_def str_trim_def trim_start_not_ws ws_len_ascii seconds_def day_def
  unbounded_def from_millis_def Let_def

lemma parse_request_timeout_handles_default_value_zero_and_invalid:
  "parse_request_timeout None = Ok (Some (from_secs 30))" "parse_request_timeout (Some ''5'') = Ok (Some (from_secs 5))"
  "parse_request_timeout (Some ''0'') = Ok None" "parse_request_timeout (Some ''nope'') = Err (RequestTimeout ''nope'')"
  by (simp_all add: settings_test_simps)

lemma parse_backend_selects_or_rejects:
  "parse_backend ''sqlite'' = Ok Sqlite" "parse_backend ''postgres'' = Ok Postgres" "parse_backend ''redis'' = Ok Redis"
  "\<exists>m. parse_backend ''mysql'' = Err (BrokerErr m)"
  by (simp_all add: parse_backend_def)

lemma resolve_broker_url_applies_precedence_and_requires_a_source:
  "resolve_broker_url (Some ''flag'') (Some ''tl'') (Some ''db'') ''DATABASE_URL'' ''postgres'' = Ok (''flag'', ''--url'')"
  "resolve_broker_url None (Some ''tl'') (Some ''db'') ''DATABASE_URL'' ''postgres'' = Ok (''tl'', ''$TRIGGERLANE_WORKLANE_URL'')"
  "resolve_broker_url None None (Some ''db'') ''DATABASE_URL'' ''postgres'' = Ok (''db'', ''$DATABASE_URL'')"
  "\<exists>m. resolve_broker_url None None None ''REDIS_URL'' ''redis'' = Err (BrokerErr m)"
  by (simp_all add: resolve_broker_url_def)

lemma parse_duration_handles_suffixes_and_rejects_bad_input:
  "parse_duration seconds ''30s'' = seconds 30" "parse_duration seconds ''15m'' = seconds (15 * 60)"
  "parse_duration seconds ''12h'' = seconds (12 * 3600)" "parse_duration seconds ''7d'' = seconds (7 * 86400)"
  "parse_duration seconds [] = None" "parse_duration seconds ''30'' = None" "parse_duration seconds ''xd'' = None"
  "parse_duration seconds ''5y'' = None" "parse_duration seconds ''-5d'' = None"
  by code_simp+

lemma parse_auto_retention_reads_bounds_and_disables:
  "parse_auto_retention seconds (Some ''off'') None (Some ''0'') None = Ok unbounded"
  "parse_auto_retention seconds (Some ''24h'') (Some ''30d'') (Some ''1000'') (Some ''4096'')
   = Ok \<lparr>delivered_grace = Some day, max_age = Some (30 * day), max_count = Some 1000, max_bytes = Some 4096\<rparr>"
  "parse_auto_retention seconds (Some ''nope'') None None None = Err (Retention (''invalid retention duration '' @ debug_str ''nope''))"
  "parse_auto_retention seconds (Some ''24h'') None (Some ''1000000'') None
   = Ok (unbounded\<lparr>delivered_grace := Some day, max_count := Some 1000000\<rparr>)"
  by (simp_all add: settings_test_simps)

lemma parse_runtime_options_applies_defaults_floors_and_rejects:
  "parse_runtime_options None None = Ok \<lparr>max_submission_attempts = 3, submission_backoff = from_millis 100\<rparr>"
  "parse_runtime_options (Some ''5'') (Some ''250'') = Ok \<lparr>max_submission_attempts = 5, submission_backoff = from_millis 250\<rparr>"
  "parse_runtime_options (Some ''0'') (Some ''0'') = Ok \<lparr>max_submission_attempts = 1, submission_backoff = 0\<rparr>"
  "parse_runtime_options (Some ''nope'') None = Err (Submission (''invalid submission attempts '' @ debug_str ''nope''))"
  "parse_runtime_options None (Some ''soon'') = Err (Submission (''invalid submission backoff '' @ debug_str ''soon''))"
  by (simp_all add: settings_test_simps)

end
