(* ===== verification/Invoker.thy ===== *)
theory Invoker
  imports Registry
begin

text \<open>
  The reference Worklane consumer of \<open>examples/invoker/src/lib.rs\<close>: the HTTP and the subprocess invoker and
  the runtime that reserves a job, runs it under a deadline while it extends the lease, and resolves the
  reservation. Worklane's broker is a parameter, a \<open>worker_api\<close>; so are the HTTP client library and the
  operating system's processes. Time is counted in nanoseconds from the start of the invocation. The race of \<open>select!\<close>
  between ready branches is decided by a parameter \<open>pick\<close>, and the time a lease extension takes is one too; an
  extension that never returns makes the run \<open>None\<close>.
\<close>

subsection \<open>Jobs and results\<close>

record job_envelope =
  je_id :: string
  je_lane :: string
  je_kind :: string
  je_payload :: bytes
  je_attempts :: u32
  je_max_attempts :: u32

record 'r reservation =
  rs_receipt :: 'r
  rs_lease :: std_duration
  rs_envelope :: job_envelope

record dead_letter =
  dl_envelope :: job_envelope
  dl_error :: string

record invocation_job =
  ij_id :: string
  ij_kind :: string
  ij_payload :: bytes
  ij_attempts :: u32
  ij_max_attempts :: u32

definition from_reservation :: "'r reservation \<Rightarrow> invocation_job" where
  "from_reservation r = (let e = rs_envelope r in
     \<lparr>ij_id = je_id e, ij_kind = je_kind e, ij_payload = je_payload e,
      ij_attempts = je_attempts e, ij_max_attempts = je_max_attempts e\<rparr>)"

record dead_invocation_job =
  dj_id :: string
  dj_lane :: string
  dj_kind :: string
  dj_payload :: bytes
  dj_attempts :: u32
  dj_max_attempts :: u32
  dj_error :: string

definition from_dead_letter :: "dead_letter \<Rightarrow> dead_invocation_job" where
  "from_dead_letter d = (let e = dl_envelope d in
     \<lparr>dj_id = je_id e, dj_lane = je_lane e, dj_kind = je_kind e, dj_payload = je_payload e,
      dj_attempts = je_attempts e, dj_max_attempts = je_max_attempts e, dj_error = dl_error d\<rparr>)"

datatype invocation_result = Success | RetryableFailure string | TerminalFailure string

subsection \<open>The HTTP invoker\<close>

record http_endpoint =
  ep_url :: string
  ep_method :: string
  ep_headers :: "(string \<times> string) list"
  ep_terminal_status_codes :: "nat list"

datatype http_endpoint_error = InvalidUri string | InvalidHeaderName string | InvalidHeaderValue string

text \<open>What the invoker calls of hyper: parsing, building a request, sending it and reading the whole body of the
  response. A response is its status and what reading its body gives.\<close>

record http_request =
  hr_method :: string
  hr_uri :: string
  hr_headers :: "(string \<times> string) list"
  hr_body :: bytes

record http_response =
  hs_status :: nat
  hs_body :: "(bytes, string) result"

record transport_api =
  uri_from_str :: "string \<Rightarrow> (string, string) result"
  header_name_from_str :: "string \<Rightarrow> (string, string) result"
  header_value_from_str :: "string \<Rightarrow> (string, string) result"
  build_request :: "http_request \<Rightarrow> (http_request, string) result"
  client_request :: "http_request \<Rightarrow> (http_response, string) result"
  status_to_string :: "nat \<Rightarrow> string"

definition endpoint_new :: "transport_api \<Rightarrow> string \<Rightarrow> (http_endpoint, http_endpoint_error) result" where
  "endpoint_new t url = (case uri_from_str t url of
     Err e \<Rightarrow> Err (InvalidUri e)
   | Ok u \<Rightarrow> Ok \<lparr>ep_url = u, ep_method = ''POST'', ep_headers = [], ep_terminal_status_codes = []\<rparr>)"

definition endpoint_method :: "http_endpoint \<Rightarrow> string \<Rightarrow> http_endpoint" where
  "endpoint_method ep m = ep\<lparr>ep_method := m\<rparr>"

definition endpoint_header ::
  "transport_api \<Rightarrow> http_endpoint \<Rightarrow> string \<Rightarrow> string \<Rightarrow> (http_endpoint, http_endpoint_error) result" where
  "endpoint_header t ep name val = (case header_name_from_str t name of
     Err e \<Rightarrow> Err (InvalidHeaderName e)
   | Ok n \<Rightarrow> (case header_value_from_str t val of
       Err e \<Rightarrow> Err (InvalidHeaderValue e)
     | Ok v \<Rightarrow> Ok (ep\<lparr>ep_headers := ep_headers ep @ [(n, v)]\<rparr>)))"

definition endpoint_terminal_status_code :: "http_endpoint \<Rightarrow> nat \<Rightarrow> http_endpoint" where
  "endpoint_terminal_status_code ep c = ep\<lparr>ep_terminal_status_codes := ep_terminal_status_codes ep @ [c]\<rparr>"

datatype http_invocation_error = RequestBuild string | Transport string | Body string

fun invocation_error_to_string :: "http_invocation_error \<Rightarrow> string" where
  "invocation_error_to_string (RequestBuild e) = ''failed to build HTTP request: '' @ e"
| "invocation_error_to_string (Transport e) = ''HTTP transport failed: '' @ e"
| "invocation_error_to_string (Body e) = ''failed to read HTTP response body: '' @ e"

definition send_http_request ::
  "transport_api \<Rightarrow> http_endpoint \<Rightarrow> bytes \<Rightarrow> (nat, http_invocation_error) result" where
  "send_http_request t ep payload =
     (case build_request t \<lparr>hr_method = ep_method ep, hr_uri = ep_url ep, hr_headers = ep_headers ep, hr_body = payload\<rparr> of
        Err e \<Rightarrow> Err (RequestBuild e)
      | Ok request \<Rightarrow> (case client_request t request of
          Err e \<Rightarrow> Err (Transport e)
        | Ok response \<Rightarrow> (case hs_body response of
            Err e \<Rightarrow> Err (Body e)
          | Ok _ \<Rightarrow> Ok (hs_status response))))"

definition transport_send :: "transport_api \<Rightarrow> http_endpoint \<Rightarrow> bytes \<Rightarrow> (nat, string) result" where
  "transport_send t ep payload = map_err invocation_error_to_string (send_http_request t ep payload)"

type_synonym http_invoker = "string \<rightharpoonup> http_endpoint"

definition http_register :: "http_invoker \<Rightarrow> string \<Rightarrow> http_endpoint \<Rightarrow> http_invoker" where
  "http_register endpoints kind ep = endpoints(kind \<mapsto> ep)"

text \<open>\<open>StatusCode::is_success\<close>: 200 to 299.\<close>

definition http_invoke :: "transport_api \<Rightarrow> http_invoker \<Rightarrow> invocation_job \<Rightarrow> invocation_result" where
  "http_invoke t endpoints job = (case endpoints (ij_kind job) of
     None \<Rightarrow> TerminalFailure (''no HTTP endpoint configured for kind '' @ ij_kind job)
   | Some ep \<Rightarrow> (case transport_send t ep (ij_payload job) of
       Err e \<Rightarrow> RetryableFailure e
     | Ok status \<Rightarrow>
         if 200 \<le> status \<and> status < 300 then Success
         else if status \<in> set (ep_terminal_status_codes ep)
         then TerminalFailure (''HTTP endpoint returned terminal status '' @ status_to_string t status)
         else RetryableFailure (''HTTP endpoint returned status '' @ status_to_string t status)))"

subsection \<open>The subprocess invoker\<close>

record subprocess_command =
  sc_program :: string
  sc_args :: "string list"
  sc_terminal_exit_codes :: "int list"

definition command_new :: "string \<Rightarrow> subprocess_command" where
  "command_new p = \<lparr>sc_program = p, sc_args = [], sc_terminal_exit_codes = []\<rparr>"

definition command_arg :: "subprocess_command \<Rightarrow> string \<Rightarrow> subprocess_command" where
  "command_arg c a = c\<lparr>sc_args := sc_args c @ [a]\<rparr>"

definition command_terminal_exit_code :: "subprocess_command \<Rightarrow> int \<Rightarrow> subprocess_command" where
  "command_terminal_exit_code c k = c\<lparr>sc_terminal_exit_codes := sc_terminal_exit_codes c @ [k]\<rparr>"

record process_output =
  po_code :: "int option"
  po_stderr :: bytes

record 'c process_api =
  spawn :: "string \<Rightarrow> string list \<Rightarrow> ('c, string) result"
  write_stdin :: "'c \<Rightarrow> bytes \<Rightarrow> (unit, string) result"
  wait_with_output :: "'c \<Rightarrow> (process_output, string) result"
  from_utf8_lossy :: "bytes \<Rightarrow> string"
  show_i32 :: "int \<Rightarrow> string"

definition run_subprocess ::
  "'c process_api \<Rightarrow> subprocess_command \<Rightarrow> bytes \<Rightarrow> (process_output, string) result" where
  "run_subprocess os cmd payload = (case spawn os (sc_program cmd) (sc_args cmd) of
     Err e \<Rightarrow> Err e
   | Ok child \<Rightarrow> (case write_stdin os child payload of
       Err e \<Rightarrow> Err e
     | Ok _ \<Rightarrow> wait_with_output os child))"

definition subprocess_failure_message :: "'c process_api \<Rightarrow> int \<Rightarrow> bytes \<Rightarrow> string" where
  "subprocess_failure_message os code stderr =
     (let text = str_trim (from_utf8_lossy os stderr)
      in if text = [] then ''subprocess exited with code '' @ show_i32 os code
         else ''subprocess exited with code '' @ show_i32 os code @ '': '' @ text)"

type_synonym subprocess_invoker = "string \<rightharpoonup> subprocess_command"

definition subprocess_register :: "subprocess_invoker \<Rightarrow> string \<Rightarrow> subprocess_command \<Rightarrow> subprocess_invoker" where
  "subprocess_register commands kind cmd = commands(kind \<mapsto> cmd)"

definition subprocess_invoke :: "'c process_api \<Rightarrow> subprocess_invoker \<Rightarrow> invocation_job \<Rightarrow> invocation_result" where
  "subprocess_invoke os commands job = (case commands (ij_kind job) of
     None \<Rightarrow> TerminalFailure (''no subprocess configured for kind '' @ ij_kind job)
   | Some cmd \<Rightarrow> (case run_subprocess os cmd (ij_payload job) of
       Err e \<Rightarrow> RetryableFailure e
     | Ok out \<Rightarrow>
         if po_code out = Some 0 then Success
         else
           let code = (case po_code out of Some c \<Rightarrow> c | None \<Rightarrow> -1);
               message = subprocess_failure_message os code (po_stderr out)
           in if code \<in> set (sc_terminal_exit_codes cmd) then TerminalFailure message
              else RetryableFailure message))"

subsection \<open>The worker\<close>

datatype worklane_error = StaleReservation string | WorklaneOther string

record ('b, 'l, 'r) worker_api =
  wb_reserve :: "'l \<Rightarrow> 'b \<Rightarrow> ('r reservation option, worklane_error) result \<times> 'b"
  wb_extend :: "'r \<Rightarrow> 'b \<Rightarrow> (unit, worklane_error) result \<times> 'b"
  wb_ack :: "'r \<Rightarrow> 'b \<Rightarrow> (unit, worklane_error) result \<times> 'b"
  wb_retry :: "'r \<Rightarrow> std_duration \<Rightarrow> 'b \<Rightarrow> (unit, worklane_error) result \<times> 'b"
  wb_fail :: "'r \<Rightarrow> string \<Rightarrow> 'b \<Rightarrow> (unit, worklane_error) result \<times> 'b"
  wb_read_dead_letters :: "'l \<Rightarrow> nat \<Rightarrow> 'b \<Rightarrow> (dead_letter list, worklane_error) result \<times> 'b"
  wb_requeue :: "string \<Rightarrow> 'b \<Rightarrow> (unit, worklane_error) result \<times> 'b"
  wb_error_to_string :: "worklane_error \<Rightarrow> string"

record 'l invoker_config =
  ic_lane :: 'l
  ic_deadline :: std_duration
  ic_delay_for :: "u32 \<Rightarrow> std_duration"

datatype process_outcome =
  Idle | Acked | Retried std_duration | FailedOutcome string | StaleResolution

datatype bounded_invocation = Completed invocation_result | TimedOut | HeartbeatFailed string

definition heartbeat_delay :: "std_duration \<Rightarrow> std_duration" where
  "heartbeat_delay lease = max (lease div 2) (from_millis 1)"

datatype branch = InvocationBranch | DeadlineBranch | HeartbeatBranch

text \<open>How an execution is scheduled: which ready branch the \<open>n\<close>th \<open>select!\<close> takes, and how long the \<open>n\<close>th
  extension takes, \<open>None\<close> when it never returns: the extension is awaited inside the branch, where the deadline
  does not interrupt it.\<close>

record schedule =
  sch_pick :: "nat \<Rightarrow> branch list \<Rightarrow> branch"
  sch_latency :: "nat \<Rightarrow> nat option"

definition choose_branch :: "schedule \<Rightarrow> nat \<Rightarrow> branch list \<Rightarrow> branch" where
  "choose_branch sch n ready = (let b = sch_pick sch n ready in if b \<in> set ready then b else hd ready)"

text \<open>The moment \<open>select!\<close> resolves, entered at \<open>now\<close>: the first moment some branch is ready. The invocation is
  the time at which it ends and its result, or \<open>None\<close> when it never ends.\<close>

definition select_time ::
  "(nat \<times> invocation_result) option \<Rightarrow> nat \<Rightarrow> nat option \<Rightarrow> nat \<Rightarrow> nat" where
  "select_time job_run deadline hb now =
     max now (min deadline (min (case job_run of Some (t, _) \<Rightarrow> t | None \<Rightarrow> deadline)
                                (case hb of Some t \<Rightarrow> t | None \<Rightarrow> deadline)))"

definition ready_branches ::
  "(nat \<times> invocation_result) option \<Rightarrow> nat \<Rightarrow> nat option \<Rightarrow> nat \<Rightarrow> branch list" where
  "ready_branches job_run deadline hb t =
     (case job_run of Some (ti, _) \<Rightarrow> if ti \<le> t then [InvocationBranch] else [] | None \<Rightarrow> [])
     @ (if deadline \<le> t then [DeadlineBranch] else [])
     @ (case hb of Some th \<Rightarrow> if th \<le> t then [HeartbeatBranch] else [] | None \<Rightarrow> [])"

lemma choose_branch_in: "ready \<noteq> [] \<Longrightarrow> choose_branch sch n ready \<in> set ready"
  by (simp add: choose_branch_def Let_def)

lemma heartbeat_delay_pos: "0 < heartbeat_delay lease"
  by (simp add: heartbeat_delay_def from_millis_def)

lemma ready_nonempty: "ready_branches job_run deadline hb (select_time job_run deadline hb now) \<noteq> []"
  by (auto simp: ready_branches_def select_time_def min_def max_def split: option.splits prod.splits)

text \<open>The loop of \<open>run_bounded\<close>: \<open>hb\<close> is the time of the next heartbeat, \<open>None\<close> once heartbeats are disabled.
  It returns with the time and, for every extension of the lease, when it was asked for and when it returned.\<close>

function run_loop ::
  "('b, 'l, 'r) worker_api \<Rightarrow> schedule \<Rightarrow> 'r \<Rightarrow> std_duration \<Rightarrow> (nat \<times> invocation_result) option \<Rightarrow> nat
     \<Rightarrow> nat \<Rightarrow> nat \<Rightarrow> nat option \<Rightarrow> (nat \<times> nat) list \<Rightarrow> 'b
     \<Rightarrow> (bounded_invocation \<times> nat \<times> (nat \<times> nat) list \<times> 'b) option" where
  "run_loop api sch receipt lease job_run deadline n now hb beats b =
     (let t = select_time job_run deadline hb now in
      case choose_branch sch n (ready_branches job_run deadline hb t) of
        InvocationBranch \<Rightarrow> Some (Completed (snd (the job_run)), t, beats, b)
      | DeadlineBranch \<Rightarrow> Some (TimedOut, t, beats, b)
      | HeartbeatBranch \<Rightarrow>
          (case sch_latency sch n of
             None \<Rightarrow> None
           | Some d \<Rightarrow>
               let now' = t + d in
               (case wb_extend api receipt b of
                  (Ok _, b) \<Rightarrow>
                    run_loop api sch receipt lease job_run deadline (Suc n) now'
                      (Some (now' + heartbeat_delay lease)) (beats @ [(t, now')]) b
                | (Err (StaleReservation _), b) \<Rightarrow>
                    run_loop api sch receipt lease job_run deadline (Suc n) now' None beats b
                | (Err e, b) \<Rightarrow> Some (HeartbeatFailed (wb_error_to_string api e), now', beats, b))))"
  by pat_completeness auto

lemma heartbeat_chosen:
  assumes "choose_branch sch n (ready_branches job_run deadline hb (select_time job_run deadline hb now)) = HeartbeatBranch"
  obtains th where "hb = Some th" "th \<le> select_time job_run deadline hb now" "now < th \<longrightarrow> th \<le> deadline"
proof -
  have "HeartbeatBranch \<in> set (ready_branches job_run deadline hb (select_time job_run deadline hb now))"
    using choose_branch_in [OF ready_nonempty, of sch n job_run deadline hb now] assms by simp
  then obtain th where "hb = Some th" "th \<le> select_time job_run deadline hb now"
    by (auto simp: ready_branches_def split: option.splits if_splits prod.splits)
  moreover from this have "now < th \<longrightarrow> th \<le> deadline" by (auto simp: select_time_def)
  ultimately show thesis using that by blast
qed

text \<open>Every extension moves the next heartbeat beyond the previous one, and none happens after the deadline.\<close>

definition loop_measure :: "nat \<Rightarrow> nat \<Rightarrow> nat option \<Rightarrow> nat" where
  "loop_measure deadline now hb = (case hb of
     None \<Rightarrow> 0
   | Some th \<Rightarrow> if now < th then Suc (Suc deadline - th) else Suc (Suc (Suc deadline)))"

lemma loop_measure_extend:
  assumes "choose_branch sch n (ready_branches job_run deadline hb (select_time job_run deadline hb now)) = HeartbeatBranch"
    and "select_time job_run deadline hb now \<le> now'"
  shows "loop_measure deadline now' (Some (now' + heartbeat_delay lease)) < loop_measure deadline now hb"
proof -
  from assms(1) obtain th where th: "hb = Some th" "th \<le> select_time job_run deadline hb now"
    "now < th \<longrightarrow> th \<le> deadline" by (rule heartbeat_chosen)
  with assms(2) heartbeat_delay_pos [of lease] show ?thesis by (auto simp: loop_measure_def)
qed

lemma loop_measure_disable:
  assumes "choose_branch sch n (ready_branches job_run deadline hb (select_time job_run deadline hb now)) = HeartbeatBranch"
  shows "loop_measure deadline now' None < loop_measure deadline now hb"
proof -
  from assms obtain th where "hb = Some th" by (rule heartbeat_chosen)
  then show ?thesis by (simp add: loop_measure_def)
qed

termination run_loop
proof (relation "measure (\<lambda>(api, sch, receipt, lease, job_run, deadline, n, now, hb, beats, b). loop_measure deadline now hb)",
    goal_cases)
  case (2 api sch receipt lease job_run deadline n now hb beats b t d now' xa y x1)
  show ?case using loop_measure_extend [OF 2(2) [unfolded 2(1)], of now' lease] 2(1,4) by simp
next
  case (3 api sch receipt lease job_run deadline n now hb beats b t d now' xa y x2 x1)
  show ?case using loop_measure_disable [OF 3(2) [unfolded 3(1)], of now'] by simp
qed simp

declare run_loop.simps [simp del]

definition run_bounded ::
  "('b, 'l, 'r) worker_api \<Rightarrow> schedule \<Rightarrow> 'l invoker_config \<Rightarrow> 'r reservation
     \<Rightarrow> (nat \<times> invocation_result) option \<Rightarrow> 'b \<Rightarrow> (bounded_invocation \<times> nat \<times> (nat \<times> nat) list \<times> 'b) option" where
  "run_bounded api sch cfg r job_run b =
     run_loop api sch (rs_receipt r) (rs_lease r) job_run (ic_deadline cfg) 0 0 (Some (heartbeat_delay (rs_lease r))) [] b"

definition resolve_with ::
  "(unit, worklane_error) result \<Rightarrow> process_outcome \<Rightarrow> (process_outcome, worklane_error) result" where
  "resolve_with res done_outcome = (case res of
     Ok _ \<Rightarrow> Ok done_outcome
   | Err (StaleReservation _) \<Rightarrow> Ok StaleResolution
   | Err e \<Rightarrow> Err e)"

definition resolve_ack :: "(unit, worklane_error) result \<Rightarrow> (process_outcome, worklane_error) result" where
  "resolve_ack res = resolve_with res Acked"

definition resolve_retry :: "(unit, worklane_error) result \<Rightarrow> std_duration \<Rightarrow> (process_outcome, worklane_error) result" where
  "resolve_retry res delay = resolve_with res (Retried delay)"

definition resolve_fail :: "(unit, worklane_error) result \<Rightarrow> string \<Rightarrow> (process_outcome, worklane_error) result" where
  "resolve_fail res error_message = resolve_with res (FailedOutcome error_message)"

text \<open>The addition on \<open>u32\<close> wraps in a release build.\<close>

definition retry_or_fail ::
  "('b, 'l, 'r) worker_api \<Rightarrow> 'l invoker_config \<Rightarrow> 'r reservation \<Rightarrow> string \<Rightarrow> 'b
     \<Rightarrow> (process_outcome, worklane_error) result \<times> 'b" where
  "retry_or_fail api cfg r error b =
     (let completed_attempts = je_attempts (rs_envelope r) + 1
      in if completed_attempts < je_max_attempts (rs_envelope r)
         then let delay = ic_delay_for cfg (je_attempts (rs_envelope r))
              in apfst (\<lambda>res. resolve_retry res delay) (wb_retry api (rs_receipt r) delay b)
         else apfst (\<lambda>res. resolve_fail res error) (wb_fail api (rs_receipt r) error b))"

definition resolve ::
  "('b, 'l, 'r) worker_api \<Rightarrow> 'l invoker_config \<Rightarrow> 'r reservation \<Rightarrow> bounded_invocation \<Rightarrow> 'b
     \<Rightarrow> (process_outcome, worklane_error) result \<times> 'b" where
  "resolve api cfg r invocation b = (case invocation of
     Completed Success \<Rightarrow> apfst resolve_ack (wb_ack api (rs_receipt r) b)
   | Completed (RetryableFailure error) \<Rightarrow> retry_or_fail api cfg r error b
   | TimedOut \<Rightarrow> retry_or_fail api cfg r ''invocation timed out'' b
   | Completed (TerminalFailure error) \<Rightarrow> apfst (\<lambda>res. resolve_fail res error) (wb_fail api (rs_receipt r) error b)
   | HeartbeatFailed error \<Rightarrow> apfst (\<lambda>res. resolve_fail res error) (wb_fail api (rs_receipt r) error b))"

text \<open>The invoker is a function from the job to the time it takes and its result; processing is \<open>None\<close> when the
  run never returns.\<close>

definition process_reservation ::
  "('b, 'l, 'r) worker_api \<Rightarrow> schedule \<Rightarrow> 'l invoker_config
     \<Rightarrow> (invocation_job \<Rightarrow> (nat \<times> invocation_result) option) \<Rightarrow> 'r reservation \<Rightarrow> 'b
     \<Rightarrow> ((process_outcome, worklane_error) result \<times> 'b) option" where
  "process_reservation api sch cfg invoke r b =
     (case run_bounded api sch cfg r (invoke (from_reservation r)) b of
        None \<Rightarrow> None
      | Some (invocation, _, _, b) \<Rightarrow> Some (resolve api cfg r invocation b))"

definition process_once ::
  "('b, 'l, 'r) worker_api \<Rightarrow> schedule \<Rightarrow> 'l invoker_config
     \<Rightarrow> (invocation_job \<Rightarrow> (nat \<times> invocation_result) option) \<Rightarrow> 'b
     \<Rightarrow> ((process_outcome, worklane_error) result \<times> 'b) option" where
  "process_once api sch cfg invoke b =
     (case wb_reserve api (ic_lane cfg) b of
        (Err e, b) \<Rightarrow> Some (Err e, b)
      | (Ok None, b) \<Rightarrow> Some (Ok Idle, b)
      | (Ok (Some r), b) \<Rightarrow> process_reservation api sch cfg invoke r b)"

definition list_dead_letters ::
  "('b, 'l, 'r) worker_api \<Rightarrow> 'l \<Rightarrow> nat \<Rightarrow> 'b \<Rightarrow> (dead_invocation_job list, worklane_error) result \<times> 'b" where
  "list_dead_letters api lane limit b =
     and_then (wb_read_dead_letters api lane limit b) (\<lambda>ds b. (Ok (map from_dead_letter ds), b))"

definition requeue_dead_letter ::
  "('b, 'l, 'r) worker_api \<Rightarrow> string \<Rightarrow> 'b \<Rightarrow> (unit, worklane_error) result \<times> 'b" where
  "requeue_dead_letter api i b = and_then (wb_requeue api i b) (\<lambda>_ b. (Ok (), b))"

text \<open>A worker for concrete runs: a broker that counts its lease extensions, a job with one of three attempts
  made, a lease of 100 ms and a deadline of one second.\<close>

definition demo_worker :: "(nat, string, nat) worker_api" where
  "demo_worker =
     \<lparr>wb_reserve = (\<lambda>_ b. (Ok None, b)), wb_extend = (\<lambda>_ b. (Ok (), b + 1)), wb_ack = (\<lambda>_ b. (Ok (), b)),
      wb_retry = (\<lambda>_ _ b. (Ok (), b)), wb_fail = (\<lambda>_ _ b. (Ok (), b)),
      wb_read_dead_letters = (\<lambda>_ _ b. (Ok [], b)), wb_requeue = (\<lambda>_ b. (Ok (), b)),
      wb_error_to_string = (\<lambda>e. case e of StaleReservation m \<Rightarrow> m | WorklaneOther m \<Rightarrow> m)\<rparr>"

definition demo_reservation :: "nat reservation" where
  "demo_reservation =
     \<lparr>rs_receipt = 0, rs_lease = from_millis 100,
      rs_envelope = \<lparr>je_id = ''j'', je_lane = ''l'', je_kind = ''k'', je_payload = [], je_attempts = 1, je_max_attempts = 3\<rparr>\<rparr>"

definition demo_invoker_config :: "string invoker_config" where
  "demo_invoker_config = \<lparr>ic_lane = ''l'', ic_deadline = from_secs 1, ic_delay_for = (\<lambda>_. from_secs 2)\<rparr>"

definition demo_schedule :: schedule where
  "demo_schedule = \<lparr>sch_pick = (\<lambda>_. last), sch_latency = (\<lambda>_. Some 7)\<rparr>"

subsection \<open>Timing\<close>

lemma select_time_le: "select_time job_run deadline hb now \<le> max now deadline"
  by (simp add: select_time_def)

lemma heartbeat_time:
  assumes "choose_branch sch n (ready_branches job_run deadline hb (select_time job_run deadline hb now)) = HeartbeatBranch"
    and "\<forall>th. hb = Some th \<longrightarrow> now < th"
  shows "hb = Some (select_time job_run deadline hb now) \<and> select_time job_run deadline hb now \<le> deadline"
proof -
  from assms(1) obtain th where th: "hb = Some th" "th \<le> select_time job_run deadline hb now"
    "now < th \<longrightarrow> th \<le> deadline" by (rule heartbeat_chosen)
  with assms(2) show ?thesis by (auto simp: select_time_def)
qed

lemma invocation_chosen:
  assumes "choose_branch sch n (ready_branches job_run deadline hb (select_time job_run deadline hb now)) = InvocationBranch"
  shows "\<exists>ti r. job_run = Some (ti, r) \<and> ti \<le> select_time job_run deadline hb now"
  using choose_branch_in [OF ready_nonempty, of sch n job_run deadline hb now] assms
  by (auto simp: ready_branches_def split: option.splits if_splits prod.splits)

lemma deadline_chosen:
  assumes "choose_branch sch n (ready_branches job_run deadline hb (select_time job_run deadline hb now)) = DeadlineBranch"
  shows "deadline \<le> select_time job_run deadline hb now"
  using choose_branch_in [OF ready_nonempty, of sch n job_run deadline hb now] assms
  by (auto simp: ready_branches_def split: option.splits if_splits prod.splits)

text \<open>One iteration of the loop, when the extension it may make returns within \<open>L\<close>.\<close>

lemma run_loop_cases:
  assumes "\<forall>th. hb = Some th \<longrightarrow> now < th" and "\<forall>n. \<exists>d \<le> L. sch_latency sch n = Some d"
  obtains (completed) ti r t where "job_run = Some (ti, r)" "ti \<le> t" "t = select_time job_run deadline hb now"
      "run_loop api sch receipt lease job_run deadline n now hb beats b = Some (Completed r, t, beats, b)"
  | (timed_out) t where "deadline \<le> t" "t = select_time job_run deadline hb now"
      "run_loop api sch receipt lease job_run deadline n now hb beats b = Some (TimedOut, t, beats, b)"
  | (extended) th d b1 where "hb = Some th" "th = select_time job_run deadline hb now" "th \<le> deadline" "d \<le> L"
      "wb_extend api receipt b = (Ok (), b1)"
      "run_loop api sch receipt lease job_run deadline n now hb beats b =
         run_loop api sch receipt lease job_run deadline (Suc n) (th + d)
           (Some (th + d + heartbeat_delay lease)) (beats @ [(th, th + d)]) b1"
  | (stale) th d x b1 where "hb = Some th" "th = select_time job_run deadline hb now" "th \<le> deadline" "d \<le> L"
      "wb_extend api receipt b = (Err (StaleReservation x), b1)"
      "run_loop api sch receipt lease job_run deadline n now hb beats b =
         run_loop api sch receipt lease job_run deadline (Suc n) (th + d) None beats b1"
  | (failed) th d x b1 where "hb = Some th" "th = select_time job_run deadline hb now" "th \<le> deadline" "d \<le> L"
      "wb_extend api receipt b = (Err (WorklaneOther x), b1)"
      "run_loop api sch receipt lease job_run deadline n now hb beats b =
         Some (HeartbeatFailed (wb_error_to_string api (WorklaneOther x)), th + d, beats, b1)"
proof -
  let ?t = "select_time job_run deadline hb now"
  note unf = run_loop.simps [of api sch receipt lease job_run deadline n now hb beats b, unfolded Let_def]
  show thesis
  proof (cases "choose_branch sch n (ready_branches job_run deadline hb ?t)")
    case InvocationBranch
    from invocation_chosen [OF this] obtain ti r where "job_run = Some (ti, r)" "ti \<le> ?t" by blast
    with unf InvocationBranch show thesis by (intro completed [of ti r]) auto
  next
    case DeadlineBranch
    from deadline_chosen [OF this] unf DeadlineBranch show thesis by (intro timed_out) auto
  next
    case HeartbeatBranch
    from heartbeat_time [OF this assms(1)] have h: "hb = Some ?t" "?t \<le> deadline" by auto
    obtain d where d: "d \<le> L" "sch_latency sch n = Some d" using assms(2) by blast
    obtain x b1 where e: "wb_extend api receipt b = (x, b1)" by force
    show thesis
    proof (cases x)
      case (Ok u)
      with unf HeartbeatBranch e d h show thesis by (intro extended [of ?t d b1]) auto
    next
      case (Err y)
      then show thesis
      proof (cases y)
        case (StaleReservation z)
        with Err unf HeartbeatBranch e d h show thesis by (intro stale [of ?t d z b1]) auto
      next
        case (WorklaneOther z)
        with Err unf HeartbeatBranch e d h show thesis by (intro failed [of ?t d z b1]) auto
      qed
    qed
  qed
qed

lemma next_heartbeat_later: "\<forall>th. Some (now + heartbeat_delay lease) = Some th \<longrightarrow> now < th"
  using heartbeat_delay_pos [of lease] by simp

lemma loop_measure_next:
  "now < th \<Longrightarrow> th \<le> deadline \<Longrightarrow>
     loop_measure deadline (th + d) (Some (th + d + heartbeat_delay lease)) < loop_measure deadline now (Some th)"
  "loop_measure deadline now' None < loop_measure deadline now (Some th)"
  using heartbeat_delay_pos [of lease] by (simp_all add: loop_measure_def)

lemma run_loop_in_time:
  assumes "\<forall>th. hb = Some th \<longrightarrow> now < th" and "\<forall>n. \<exists>d \<le> L. sch_latency sch n = Some d" and "now \<le> deadline + L"
  shows "\<exists>res t beats' b'. run_loop api sch receipt lease job_run deadline n now hb beats b = Some (res, t, beats', b')
     \<and> t \<le> deadline + L \<and> (res = TimedOut \<longrightarrow> deadline \<le> t)
     \<and> (\<forall>r. res = Completed r \<longrightarrow> (\<exists>ti. job_run = Some (ti, r) \<and> ti \<le> t))"
  using assms
proof (induction "loop_measure deadline now hb" arbitrary: n now hb beats b rule: less_induct)
  case less
  have sel: "select_time job_run deadline hb now \<le> deadline + L"
    using select_time_le [of job_run deadline hb now] less.prems(3) by simp
  from less.prems(1,2) show ?case
  proof (cases rule: run_loop_cases [where api = api and receipt = receipt and lease = lease and job_run = job_run
        and deadline = deadline and n = n and beats = beats and b = b])
    case (extended th d b1)
    have "now < th" using less.prems(1) extended(1) by simp
    from loop_measure_next(1) [OF this extended(3), folded extended(1)] add_mono [OF extended(3,4)]
    show ?thesis unfolding extended(6) by (intro less.hyps next_heartbeat_later less.prems(2))
  next
    case (stale th d x b1)
    from loop_measure_next(2) [of _ _ _ th, folded stale(1)] add_mono [OF stale(3,4)]
    show ?thesis unfolding stale(6) by (intro less.hyps less.prems(2)) simp_all
  next
    case (failed th d x b1)
    then show ?thesis by (simp add: add_mono)
  qed (use sel in auto)
qed

text \<open>C37: the worker's run is bounded. When every lease extension returns within \<open>L\<close>, then however \<open>select!\<close>
  decides its races, the run returns, at the latest one extension after the deadline; it reports a timeout only at
  or after the deadline, and a result only when the invocation has ended with it.\<close>

theorem run_bounded_in_time:
  assumes "\<forall>n. \<exists>d \<le> L. sch_latency sch n = Some d"
  shows "\<exists>res t beats b'. run_bounded api sch cfg r job_run b = Some (res, t, beats, b')
     \<and> t \<le> ic_deadline cfg + L \<and> (res = TimedOut \<longrightarrow> ic_deadline cfg \<le> t)
     \<and> (\<forall>out. res = Completed out \<longrightarrow> (\<exists>ti. job_run = Some (ti, out) \<and> ti \<le> t))"
  using run_loop_in_time [OF _ assms, of "Some (heartbeat_delay (rs_lease r))" 0] heartbeat_delay_pos [of "rs_lease r"]
  by (simp add: run_bounded_def)

theorem run_bounded_in_time_witness:
  "\<exists>res t beats b. run_bounded demo_worker demo_schedule demo_invoker_config demo_reservation None 0 = Some (res, t, beats, b)
     \<and> t \<le> from_secs 1 + 7"
proof -
  have "\<forall>n. \<exists>d \<le> 7. sch_latency demo_schedule n = Some d" by (simp add: demo_schedule_def)
  from run_bounded_in_time [OF this, of demo_worker demo_invoker_config demo_reservation None 0]
  show ?thesis by (auto simp: demo_invoker_config_def)
qed

text \<open>C14: the deadline does not cover the extension. When the first heartbeat is due before the invocation ends and
  before the deadline, and its extension never returns, the run never returns, whatever the deadline is.\<close>

theorem hanging_extension_blocks_run:
  assumes "sch_latency sch 0 = None" and "heartbeat_delay (rs_lease r) < ic_deadline cfg"
    and "\<forall>ti out. job_run = Some (ti, out) \<longrightarrow> heartbeat_delay (rs_lease r) < ti"
  shows "run_bounded api sch cfg r job_run b = None \<and>
     (invoke (from_reservation r) = job_run \<longrightarrow> process_reservation api sch cfg invoke r b = None)"
proof -
  let ?h = "heartbeat_delay (rs_lease r)"
  have t: "select_time job_run (ic_deadline cfg) (Some ?h) 0 = ?h"
    using assms(2,3) by (auto simp: select_time_def split: option.splits)
  moreover have "ready_branches job_run (ic_deadline cfg) (Some ?h) ?h = [HeartbeatBranch]"
    using assms(2,3) by (fastforce simp: ready_branches_def split: option.splits)
  ultimately have "run_bounded api sch cfg r job_run b = None"
    using assms(1) by (simp add: run_bounded_def run_loop.simps choose_branch_def Let_def)
  then show ?thesis by (simp add: process_reservation_def)
qed

theorem hanging_extension_blocks_run_witness:
  "run_bounded demo_worker (demo_schedule\<lparr>sch_latency := (\<lambda>_. None)\<rparr>) demo_invoker_config demo_reservation
     (Some (from_millis 700, Success)) 0 = None"
  using hanging_extension_blocks_run [of "demo_schedule\<lparr>sch_latency := (\<lambda>_. None)\<rparr>" demo_reservation demo_invoker_config
      "Some (from_millis 700, Success)" demo_worker 0]
  by (simp add: demo_reservation_def demo_invoker_config_def heartbeat_delay_def from_millis_def from_secs_def)

lemma run_loop_completes:
  assumes "\<forall>th. hb = Some th \<longrightarrow> now < th" and "\<forall>n. \<exists>d \<le> L. sch_latency sch n = Some d" and "ti + L < deadline"
    and "now \<le> ti + L" and "\<forall>b x b'. wb_extend api receipt b \<noteq> (Err (WorklaneOther x), b')"
  shows "\<exists>t beats' b'. run_loop api sch receipt lease (Some (ti, r)) deadline n now hb beats b = Some (Completed r, t, beats', b')
     \<and> t \<le> ti + L"
  using assms
proof (induction "loop_measure deadline now hb" arbitrary: n now hb beats b rule: less_induct)
  case less
  have sel: "select_time (Some (ti, r)) deadline hb now \<le> max now ti" by (simp add: select_time_def)
  have early: "now < th \<Longrightarrow> th = select_time (Some (ti, r)) deadline hb now \<Longrightarrow> d \<le> L \<Longrightarrow> th + d \<le> ti + L" for th d
    using sel by (simp add: add_mono)
  from less.prems(1,2) show ?case
  proof (cases rule: run_loop_cases [where api = api and receipt = receipt and lease = lease and job_run = "Some (ti, r)"
        and deadline = deadline and n = n and beats = beats and b = b])
    case (completed ti' r' t)
    with sel less.prems(4) show ?thesis by simp
  next
    case (timed_out t)
    with sel less.prems(3,4) show ?thesis by simp
  next
    case (extended th d b1)
    have now: "now < th" using less.prems(1) extended(1) by simp
    from loop_measure_next(1) [OF this extended(3), folded extended(1)] early [OF now extended(2,4)]
    show ?thesis unfolding extended(6) by (intro less.hyps next_heartbeat_later less.prems(2,3,5))
  next
    case (stale th d x b1)
    have now: "now < th" using less.prems(1) stale(1) by simp
    from loop_measure_next(2) [of _ _ _ th, folded stale(1)] early [OF now stale(2,4)]
    show ?thesis unfolding stale(6) by (intro less.hyps less.prems(2,3,5)) simp_all
  next
    case (failed th d x b1)
    with less.prems(5) show ?thesis by blast
  qed
qed

text \<open>An invocation that ends well before the deadline counts. When it ends more than one extension's
  latency before the deadline, and the broker's extensions succeed or find the reservation stale, its result
  is the outcome, whatever the heartbeats do meanwhile.\<close>

theorem run_bounded_completes:
  assumes "\<forall>n. \<exists>d \<le> L. sch_latency sch n = Some d" and "ti + L < ic_deadline cfg"
    and "\<forall>b x b'. wb_extend api (rs_receipt r) b \<noteq> (Err (WorklaneOther x), b')"
  shows "\<exists>t beats b'. run_bounded api sch cfg r (Some (ti, out)) b = Some (Completed out, t, beats, b') \<and> t \<le> ti + L"
  using run_loop_completes [OF _ assms(1,2) _ assms(3), of "Some (heartbeat_delay (rs_lease r))" 0] heartbeat_delay_pos [of "rs_lease r"]
  by (simp add: run_bounded_def)

theorem run_bounded_completes_witness:
  "\<exists>t beats b. run_bounded demo_worker demo_schedule demo_invoker_config demo_reservation (Some (from_millis 700, Success)) 0
     = Some (Completed Success, t, beats, b)"
proof -
  have "\<forall>n. \<exists>d \<le> 7. sch_latency demo_schedule n = Some d" by (simp add: demo_schedule_def)
  moreover have "from_millis 700 + 7 < ic_deadline demo_invoker_config"
    by (simp add: demo_invoker_config_def from_millis_def from_secs_def)
  ultimately show ?thesis
    using run_bounded_completes [of 7 demo_schedule "from_millis 700" demo_invoker_config demo_worker demo_reservation Success 0]
    by (auto simp: demo_worker_def)
qed

subsection \<open>The lease\<close>

text \<open>A live lease: an extension that is asked for at \<open>s\<close> renews the lease from \<open>s\<close> on at least, and the next one
  has been granted at the latest when it returns.\<close>

definition lease_live :: "nat \<Rightarrow> (nat \<times> nat) list \<Rightarrow> bool" where
  "lease_live lease beats \<longleftrightarrow> successively (\<lambda>(s, _) (_, d'). d' < s + lease) beats"

lemma lease_live_snoc:
  assumes "lease_live lease xs" and "xs \<noteq> []" and "d' < fst (last xs) + lease"
  shows "lease_live lease (xs @ [(s', d')])"
  using assms by (auto simp: lease_live_def successively_append_iff split: prod.splits)

lemma run_loop_beats:
  assumes "\<forall>n. \<exists>d \<le> L. sch_latency sch n = Some d" and "heartbeat_delay lease + 2 * L < lease"
    and "\<forall>b x b'. wb_extend api receipt b \<noteq> (Err (StaleReservation x), b')"
    and "last ((0, 0) # beats) = (s, now)" and "now \<le> s + L" and "hb = Some (now + heartbeat_delay lease)"
    and "lease_live lease ((0, 0) # beats)"
  shows "\<exists>res t beats' b'. run_loop api sch receipt lease job_run deadline n now hb beats b = Some (res, t, beats', b')
     \<and> lease_live lease ((0, 0) # beats') \<and> t < fst (last ((0, 0) # beats')) + lease"
  using assms
proof (induction "loop_measure deadline now hb" arbitrary: n now hb s beats b rule: less_induct)
  case less
  let ?h = "now + heartbeat_delay lease"
  have later: "\<forall>th. hb = Some th \<longrightarrow> now < th" using less.prems(6) heartbeat_delay_pos [of lease] by simp
  have sel: "select_time job_run deadline hb now \<le> ?h"
    using less.prems(6) heartbeat_delay_pos [of lease] by (simp add: select_time_def min_le_iff_disj)
  have soon: "t < fst (last ((0, 0) # beats)) + lease" if "t \<le> ?h + L" for t
    using that less.prems(2,5) unfolding less.prems(4) by simp
  from later less.prems(1) show ?case
  proof (cases rule: run_loop_cases [where api = api and receipt = receipt and lease = lease and job_run = job_run
        and deadline = deadline and n = n and beats = beats and b = b])
    case (extended th d b1)
    have th: "th = ?h" using extended(1) less.prems(6) by simp
    have "lease_live lease (((0, 0) # beats) @ [(th, th + d)])"
      by (rule lease_live_snoc [OF less.prems(7)]) (use soon [of "th + d"] th extended(4) in simp_all)
    then have live: "lease_live lease ((0, 0) # beats @ [(th, th + d)])" by simp
    have "loop_measure deadline (th + d) (Some (th + d + heartbeat_delay lease)) < loop_measure deadline now hb"
      using loop_measure_next(1) [of now th deadline d lease] later extended(1,3) by simp
    from less.hyps [OF this less.prems(1-3) _ _ refl live, of th "Suc n" b1] extended(4,6) show ?thesis by simp
  next
    case (stale th d x b1)
    with less.prems(3) show ?thesis by blast
  next
    case (failed th d x b1)
    then have "th + d \<le> ?h + L" using sel by (simp add: add_mono)
    with failed(6) less.prems(7) soon show ?thesis by simp
  next
    case (completed ti r t)
    with soon [of t] sel less.prems(7) show ?thesis by simp
  next
    case (timed_out t)
    with soon [of t] sel less.prems(7) show ?thesis by simp
  qed
qed

text \<open>C38: the lease does not lapse while the invocation runs. For a lease of at least two milliseconds, extensions
  that return within \<open>L\<close>, less than a quarter of the lease, and a broker that does not report the reservation as
  stale, the run returns, every extension has returned before the lease asked for by the previous one (or by the
  reservation) runs out, and the run itself ends before the last of these leases does: heartbeats go on until the
  end.\<close>

theorem lease_renewed_in_time:
  assumes "\<forall>n. \<exists>d \<le> L. sch_latency sch n = Some d" and "from_millis 2 \<le> rs_lease r" and "4 * L < rs_lease r"
    and "\<forall>b x b'. wb_extend api (rs_receipt r) b \<noteq> (Err (StaleReservation x), b')"
  shows "\<exists>res t beats b'. run_bounded api sch cfg r job_run b = Some (res, t, beats, b')
     \<and> successively (\<lambda>(s, _) (_, d'). d' < s + rs_lease r) ((0, 0) # beats)
     \<and> t < fst (last ((0, 0) # beats)) + rs_lease r"
proof -
  have "heartbeat_delay (rs_lease r) + 2 * L < rs_lease r"
    using assms(2,3) by (auto simp: heartbeat_delay_def from_millis_def)
  from run_loop_beats [OF assms(1) this assms(4), of "[]" 0 0 "Some (heartbeat_delay (rs_lease r))"] show ?thesis
    by (simp add: run_bounded_def lease_live_def)
qed

theorem lease_renewed_in_time_witness:
  "\<exists>res t beats b. run_bounded demo_worker demo_schedule demo_invoker_config demo_reservation None 0 = Some (res, t, beats, b)
     \<and> t < fst (last ((0, 0) # beats)) + from_millis 100"
proof -
  have "\<forall>n. \<exists>d \<le> 7. sch_latency demo_schedule n = Some d" by (simp add: demo_schedule_def)
  moreover have "from_millis 2 \<le> rs_lease demo_reservation" "4 * 7 < rs_lease demo_reservation"
    "rs_lease demo_reservation = from_millis 100" by (simp_all add: demo_reservation_def from_millis_def)
  moreover have "\<forall>b x b'. wb_extend demo_worker (rs_receipt demo_reservation) b \<noteq> (Err (StaleReservation x), b')"
    by (simp add: demo_worker_def)
  ultimately show ?thesis
    using lease_renewed_in_time [of 7 demo_schedule demo_reservation demo_worker demo_invoker_config None 0] by metis
qed

subsection \<open>The retry budget\<close>

text \<open>The retry budget is exact. For a job with attempts left, the 32-bit addition does not wrap: a
  retryable failure is retried, with the policy's delay for this attempt, when the next attempt is still
  below the maximum, and otherwise the job fails with the error.\<close>

theorem retry_budget_exact:
  assumes "je_attempts (rs_envelope r) < je_max_attempts (rs_envelope r)"
  shows "retry_or_fail api cfg r error b =
     (if unat (je_attempts (rs_envelope r)) + 1 < unat (je_max_attempts (rs_envelope r))
      then apfst (\<lambda>res. resolve_with res (Retried (ic_delay_for cfg (je_attempts (rs_envelope r)))))
             (wb_retry api (rs_receipt r) (ic_delay_for cfg (je_attempts (rs_envelope r))) b)
      else apfst (\<lambda>res. resolve_with res (FailedOutcome error)) (wb_fail api (rs_receipt r) error b))"
proof -
  let ?a = "je_attempts (rs_envelope r)" and ?m = "je_max_attempts (rs_envelope r)"
  have "unat ?a < unat ?m" using assms by (simp add: word_less_nat_alt)
  moreover have "unat ?m < 2 ^ 32" by (rule order_less_le_trans [OF unsigned_less]) simp
  ultimately have "unat ?a + 1 < 2 ^ 32" by simp
  then have "unat (?a + 1) = unat ?a + 1" by (simp add: unat_word_ariths)
  then have "?a + 1 < ?m \<longleftrightarrow> unat ?a + 1 < unat ?m" by (simp add: word_less_nat_alt)
  then show ?thesis by (simp add: retry_or_fail_def Let_def resolve_retry_def resolve_fail_def)
qed

theorem retry_budget_exact_witness:
  "fst (retry_or_fail demo_worker demo_invoker_config demo_reservation ''boom'' 0) = Ok (Retried (from_secs 2))"
proof -
  have "je_attempts (rs_envelope demo_reservation) < je_max_attempts (rs_envelope demo_reservation)"
    by (simp add: demo_reservation_def)
  from retry_budget_exact [OF this, of demo_worker demo_invoker_config "''boom''" 0] show ?thesis
    by (simp add: demo_reservation_def demo_worker_def demo_invoker_config_def resolve_with_def)
qed

end
