(* ===== verification/Spec2Isabelle.thy ===== *)
theory Spec2Isabelle
  imports Server_Locks Delivery Backends Process Unit_Tests Invoker
begin

text \<open>
  Verification of Triggerlane, an event-to-job trigger plane in Rust: events come in over HTTP, from files or
  from the command line, are stored durably, matched against triggers, and turned into jobs on a Worklane
  broker; what cannot be submitted is kept in a dead-trigger queue.

  \<^bold>\<open>The program and the theories.\<close>

  \<^item> \<open>crates/triggerlane-core/src/event.rs\<close> (ids, sources, metadata, envelopes, follow-ups) is
    \<open>Event_Model\<close>; \<open>trigger.rs\<close> (the four triggers, the job binding) is \<open>Trigger_Model\<close>. uuid's parser and
    printer (\<open>uuid_api\<close>), the clock and serde_json (\<open>json_api\<close>) are arguments.
  \<^item> \<open>crates/triggerlane-storage/src/lib.rs\<close>: \<open>Disk\<close> models the file system the code calls (inodes with
    visible and flushed contents, directory entries with visible and flushed names, advisory locks, a script
    of outcomes for the calls, crashes). \<open>Retention\<close> has both retention policies, \<open>Jsonl_Store\<close> has
    \<open>JsonlStore\<close> with every method, \<open>Event_Stores\<close> the trait \<open>EventStore\<close> and \<open>Dead_Trigger_Queues\<close> the
    trait \<open>DeadTriggerQueue\<close>, each with its in-memory and its file implementation; \<open>Store_Threads\<close> has the
    calls of the file event store cut at the locks they take.
  \<^item> \<open>crates/triggerlane-runtime/src/lib.rs\<close>: \<open>Registry\<close> (registrations, options, backoff), \<open>Runtime\<close>
    (\<open>TriggerRuntime\<close>: handling, submission with retries, dead-trigger recording and retry, replay, traces,
    metrics), \<open>Ingest\<close> (\<open>EventIngest\<close>: ingest, accept, dispatch, recovery). The state is a pair of the store
    and an \<open>rt_state\<close> with the broker, the queue, the observed lanes, the traces, the metrics and the sleeps;
    Worklane's broker is the argument \<open>broker_api\<close>.
  \<^item> \<open>crates/triggerlane-http/src/lib.rs\<close>: \<open>Http\<close> has every route, guard, status and source adapter; what axum,
    serde_json and hmac do is the argument \<open>web_api\<close>.
  \<^item> \<open>crates/triggerlane-cli/src/config.rs\<close> and the settings of \<open>main.rs\<close> are \<open>Cli_Config\<close>, the commands are
    \<open>Cli\<close>, in a \<open>world\<close> with the environment, the disks, the broker and the output; \<open>Server\<close> has \<open>serve\<close> up
    to the listening socket, the merged routers, the dispatcher, the maintenance tick, and the running server;
    \<open>Server_Locks\<close> is the running server again with the calls of the store cut at their locks. \<open>Process\<close> has
    the process around the commands: the parsed command line, \<open>main\<close> with the exit status and the error line, the
    log format and the signals.
  \<^item> \<open>examples/invoker/src/lib.rs\<close>, the reference consumer of the jobs, is \<open>Invoker\<close>; the
    program of \<open>examples/src/main.rs\<close>, with the constructors of the runtime it uses, is \<open>Example\<close>.
  \<^item> \<open>Prelude\<close> has Rust's \<open>Result\<close> and the \<open>?\<close> operator, \<open>Rust_Std\<close> what the crates use of the standard
    library: UTF-8 validation, lines, trimming, number parsing, saturating durations, paths.

  \<^bold>\<open>Errors, integers, time.\<close> A fallible function returns a \<open>result\<close>, paired with the state it leaves when it
  has effects, so the state after every early return is part of the model; a panic of the command line is a
  value of its own. \<open>u32\<close> is a 32-bit word and \<open>i64\<close> overflow is written out. A \<open>Duration\<close> and a
  \<open>DateTime\<close> are numbers of nanoseconds.

  \<^bold>\<open>Interfaces.\<close> The locales \<open>event_store\<close> and \<open>dead_trigger_queue\<close> state what the runtime, the pipeline and
  the server rely on; both the in-memory and the file implementations are interpretations of them, so what is
  proved for a store in general holds for the durable one. The locales \<open>store_simulation\<close>, \<open>queue_simulation\<close> and
  \<open>backend_simulation\<close> state when two implementations behave alike; files on a disk without failures and memory are
  the interpretation, in both directions.

  \<^bold>\<open>What is shown.\<close>

  \<^item> Durability (\<open>Jsonl_Durability\<close>, \<open>Restart\<close>): an acknowledged append survives every crash; appends,
    compactions and drains are atomic under every I/O failure and crash; reopening reads back what was
    written; a second writer is refused; corruption is reported with its line. Counterexamples show where
    the code falls short: an append after a torn tail, one after a compaction that failed late, one to a new file
    whose path has no directory part, a write torn inside a character of several bytes (the one exception to
    the atomicity of an append), a drain whose flush fails.
  \<^item> The life of a store (\<open>Store_Sessions\<close>, \<open>Store_Rest\<close>): opened in a fresh directory and used by any sequence
    of successful calls, compactions of either file included, it stays well formed and every crash gives back
    what it held; a store at rest on the disk is what the next process opens.
  \<^item> Delivery (\<open>Delivery\<close>): a crash between handling and marking leads to a redelivery that creates no second
    job, and the failures of a handling are in the queue the next process opens.
  \<^item> Concurrent calls of the store (\<open>Store_Threads\<close>): the methods are the uninterrupted threads, and no
    interleaving of appends, marks and sweeps drops or hides an event whose id nobody marks.
  \<^item> Retention (\<open>Retention\<close>): the sweep keeps exactly the longest suffix of the live events that fits, and an
    undelivered event falls only to a hard bound.
  \<^item> Handling (\<open>Registry\<close>, \<open>Runtime_Properties\<close>): order and completeness of matching, every match becomes a job or
    a record, the exact schedule of retries and backoff in 32-bit arithmetic, replays are absorbed by a broker
    that deduplicates (\<open>broker_dedups\<close>, for which \<open>list_broker\<close> is an instance) and still knows the keys, what a retry
    pass handles, reports and leaves in the queue.
  \<^item> Pipeline (\<open>Ingest\<close>): stored before handled, marked exactly on success, unique idempotency keys for any
    sequence of calls one after the other, accept and dispatch together are ingest, recovery delivers.
  \<^item> HTTP (\<open>Http_Properties\<close>): which statuses a post can have and what each of them promises; both guards
    refuse without any effect.
  \<^item> Server (\<open>Server_Properties\<close>, \<open>Server_Liveness\<close>): the server is the step relation \<open>server_step\<close>, whose
    tasks are the pending requests, the dispatcher and replays, cut at the points where the code waits (for room in
    the channel, before every attempt to submit a job) or takes a lock of the store, with maintenance and cancellation
    of waiting requests in between; a replay works on the list of events it read when it started. That the
    handlers of \<open>Http\<close> are its uninterrupted runs is a library fact that ties the two readings of the code together.
    Under every interleaving no event is lost and a positive answer is backed; left to itself (\<open>own_step\<close>: no
    cancellation, no new request, no maintenance) the server runs down its work and answers every open request; and
    two interleavings show what is not guaranteed. \<open>serve\<close> starts with every event delivered.
    \<open>Server_Locks\<close> has the runs of this server among those of the server cut at the store's locks, and shows that no
    event is lost there either, neither one stored at the start nor one stored while a sweep is under way.
  \<^item> Backends (\<open>Faultless_Disk\<close>, \<open>Backend_Simulation\<close>, \<open>Backends\<close>): on a disk without failures every call of
    the file-backed store and queue succeeds; the simulation with the in-memory ones is lifted through the runtime,
    the pipeline, the routes and the server, so the two servers have the same runs and give the same answers.
  \<^item> Processes (\<open>Process\<close>): what separate processes injected, with crashes in between, a later one lists.
  \<^item> Configuration and commands (\<open>Cli_Config\<close>, \<open>Cli\<close>): a trigger file means what it says, durations are read
    exactly, loading a file twice is loading it once.
  \<^item> Invoker: when every lease extension returns, the loop with deadline and heartbeats returns in time however its
    races are decided, and keeps the lease alive to the end; an extension that never returns blocks it past any
    deadline; the retry budget is exact.
  \<^item> Tests (\<open>Unit_Tests\<close>): 37 unit tests of the repository, evaluated on the model under their own names.
  \<^item> This theory composes them: a posted event survives a crash and is served after the restart.

  \<^bold>\<open>Termination.\<close> No definition uses fuel. The loops over lists are structural recursions; the loop of
  \<open>run_bounded\<close> is total by \<open>loop_measure\<close>, since every extension moves the next heartbeat by at least a
  millisecond towards the deadline, and its value \<open>None\<close> is an extension that never returns; the running server is a
  relation, and its progress is the measure \<open>work\<close>.

  \<^bold>\<open>Modelling choices.\<close> In \<open>server_step\<close> a store method is one step, also where it takes several locks in
  turn; \<open>lock_step\<close> of \<open>Server_Locks\<close> has one step per lock. The store and the queue lie on
  separate disks in the command line's world: they are different files, and no property relates the order of
  their flushes. A hash set is enumerated in the order of its elements; only the order of the lines of the delivered journal
  depends on it, which is read back as a set. A crash keeps of the bytes written since the last flush a prefix; blocks
  that are reordered or garbled are outside the model. A store handle is closed when the command that opened it has
  read it, where the code keeps it until the end of the statement. Log output other than traces is left out.

  \<^bold>\<open>Not modelled.\<close> The grammar of the command line (clap's), the writing of log lines, the installation of the
  metrics recorder and of signal handlers beyond whether they succeed and when a signal arrives, the delivery of
  bytes over sockets, \<open>Clone\<close> and \<open>Debug\<close> of a few types, accessors that return a field, the third-party crates, which are
  arguments with named hypotheses (\<open>uuid_api_ok\<close>, \<open>codec_ok\<close>, \<open>broker_dedups\<close>, \<open>try_seconds_ok\<close>), and the
  tests that need sockets, threads, child processes or a real serializer.
\<close>

section \<open>From the socket to the disk and back\<close>

text \<open>C1: a posted event survives. When the synchronous server has answered a post of a new event with 200, then
  after any crash of the machine the event store opens again, and asking the restarted server for the id in
  the answer returns exactly the posted event, which counts as delivered.\<close>

theorem posted_event_survives_restart:
  assumes "uuid_api_ok (rt_uuid rt)" and "fe_ok cs (fst p)"
    and "incoming_from_slice web bdy = Ok input" and "e = post_events i now input"
    and "codec_ok (fst cs) e" and "codec_ok (snd cs) i" and "\<forall>x \<in> set (fe_all (fst p)). ev_id x \<noteq> i"
    and "existing_event (fe_store cs) e (fst p) = None"
    and "events_router web rt (fe_store cs) IngestEventHandler verifier i now headers bdy (p, ch)
      = ((200, EventBody r), (p', ch'))"
    and "crash (fe_fs (fst p')) v" and "fs_script v = []"
  shows "\<exists>s w. fe_open cs (js_path (fe_inner (fst p))) v = (Ok s, w)
     \<and> get_event_route (rt_uuid rt) (fe_store cs) (resp_event_id r) s = Ok e \<and> i \<in> fe_delivered_set s"
proof -
  have id: "ev_id e = i" by (simp add: assms(4) post_events_def with_metadata_def envelope_new_def)
  obtain res sv where post: "post_events_route web rt (fe_store cs) IngestEventHandler verifier i now headers bdy (p, ch)
      = (res, sv)" by (cases "post_events_route web rt (fe_store cs) IngestEventHandler verifier i now headers bdy (p, ch)")
  then have ok: "res = Ok (200, r)" "sv = (p', ch')" using assms(9)
    by (auto simp: events_router_def error_response_def split: if_splits result.splits)
  from post obtain rep where h: "handle_event rt (fe_store cs) IngestEventHandler e (p, ch) = (Ok rep, (p', ch'))"
    and r: "resp_event_id r = event_id_to_string (rt_uuid rt) i"
    by (cases rule: post_events_route_cases) (use ok assms(3,4) in \<open>auto split: if_splits\<close>)
  from h obtain rp where ing: "ingest rt (fe_store cs) e p = (Ok rp, p')"
    by (auto simp: handle_event_def split: prod.splits result.splits)
  from ingested_event_survives_restart [OF assms(2,5) _ assms(8) ing assms(10,11)] assms(6) id obtain s w where
    s: "fe_open cs (js_path (fe_inner (fst p))) v = (Ok s, w)" "fe_all s = fe_all (fst p) @ [e]"
      "fe_delivered_set s = insert i (fe_delivered_set (fst p))" by auto
  have "List.find (\<lambda>x. ev_id x = i) (fe_all s) = Some e"
    using assms(7) id s(2) by (auto simp: find_append find_None_iff_all split: option.splits dest!: find_SomeD)
  then have "get_event_route (rt_uuid rt) (fe_store cs) (resp_event_id r) s = Ok e"
    by (simp add: get_event_route_def parse_event_id_def r event_id_round_trip [OF assms(1)] fe_store_laws)
  with s show ?thesis by blast
qed

theorem posted_event_survives_restart_witness:
  "\<exists>e v s w. fe_open (pin_codecs e) ''d/s.jsonl'' v = (Ok s, w) \<and> get_event_route unary_uuid (fe_store (pin_codecs e)) ''x'' s = Ok e"
proof -
  let ?e = "envelope_new (EventId 1) 0 Http ''event.demo'' []" and ?rt = "demo_runtime [] (im_queue (\<lambda>_. Ok []))"
  let ?in = "\<lparr>in_event_type = ''event.demo'', in_payload = [], in_metadata = default_metadata\<rparr>"
  let ?cs = "pin_codecs ?e" and ?p = "(empty_store, rt_new (0, []) [])"
  have input: "incoming_from_slice (demo_web None) ''event.demo'' = Ok ?in" by (simp add: demo_web_def default_metadata_def)
  have e: "?e = post_events (EventId 1) 0 ?in" by (simp add: post_events_def with_metadata_def envelope_new_def)
  have new: "existing_event es ?e st = None" for es :: "file_event_store event_store_ops" and st
    by (simp add: existing_event_def envelope_new_def default_metadata_def)
  obtain rep p' where ing: "ingest ?rt (fe_store ?cs) ?e ?p = (Ok rep, p')"
    by (simp add: ingest_def new empty_store_eval handle_def demo_runtime_def matching_def Let_def)
  have "event_id_to_string (rt_uuid ?rt) (ev_id ?e) = ''x''"
    by (simp add: demo_runtime_def event_id_to_string_def unary_uuid_def envelope_new_def)
  then obtain r where run: "events_router (demo_web None) ?rt (fe_store ?cs) IngestEventHandler None (EventId 1) 0 Map.empty
      ''event.demo'' (?p, demo_channel) = ((200, EventBody r), (p', demo_channel))"
    and r: "resp_event_id r = ''x''"
    by (simp add: events_router_def MAX_EVENT_BODY_BYTES_def post_events_route_def input e [symmetric] handle_event_def
        ing handling_report_new_def)
  have "uuid_api_ok (rt_uuid ?rt)" by (simp add: demo_runtime_def unary_uuid_ok)
  moreover have "fe_ok ?cs (fst ?p)" "\<forall>x \<in> set (fe_all (fst ?p)). ev_id x \<noteq> EventId 1"
    by (simp_all add: empty_store_ok) (simp add: empty_store_def fe_all_def jsonl_all_def)
  moreover have "codec_ok (snd ?cs) (EventId 1)" using pin_codecs_ok(2) [of ?e] by (simp add: envelope_new_def)
  moreover have "existing_event (fe_store ?cs) ?e (fst ?p) = None" by (rule new)
  ultimately obtain s w where
    "fe_open ?cs (js_path (fe_inner (fst ?p))) (after_crash (fe_fs (fst p'))) = (Ok s, w)"
    "get_event_route (rt_uuid ?rt) (fe_store ?cs) (resp_event_id r) s = Ok ?e"
    using posted_event_survives_restart [OF _ _ input e pin_codecs_ok(1) _ _ _ run after_crash]
    by (auto simp: after_crash_def)
  then show ?thesis by (auto simp: r empty_store_def demo_runtime_def)
qed

end
